(* ===== verification/Dbl.thy ===== *)
theory Dbl
  imports Complex_Main
begin

text \<open>
  IEEE 754 binary64, the \<open>double\<close> of the C++ code, in round-to-nearest-even: a value is a
  finite real, an infinity or NaN (the sign of a zero is not kept), and every operation is
  the exact one followed by \<open>rnd\<close>.

  The locale \<open>rounding\<close> states what the clients use of \<open>rnd\<close>, that it is monotone and
  keeps the representable numbers; it is interpreted here on \<open>rnd\<close> itself, with the
  numbers of at most 53 significant bits.
\<close>

section \<open>Rounding\<close>

definition round_even :: "real \<Rightarrow> int" where
  "round_even x =
     (let f = \<lfloor>x\<rfloor>; d = x - of_int f
      in if d < 1 / 2 then f else if 1 / 2 < d then f + 1 else if even f then f else f + 1)"

text \<open>The exponent of the last of the 53 significant bits, at least that of the subnormals.\<close>

definition ulp_exp :: "real \<Rightarrow> int" where
  "ulp_exp x = max (\<lfloor>log 2 \<bar>x\<bar>\<rfloor> - 52) (-1074)"

definition rnd :: "real \<Rightarrow> real" where
  "rnd x = (if x = 0 then 0 else of_int (round_even (x / 2 powi ulp_exp x)) * 2 powi ulp_exp x)"

definition representable :: "real \<Rightarrow> bool" where
  "representable x \<longleftrightarrow> (\<exists>m e. x = of_int m * 2 powi e \<and> \<bar>m\<bar> \<le> 2 ^ 53 \<and> -1074 \<le> e)"

lemma round_even_of_int [simp]: "round_even (of_int n) = n"
  by (simp add: round_even_def)

lemma round_even_mono:
  assumes "x \<le> y"
  shows "round_even x \<le> round_even y"
proof (cases "\<lfloor>x\<rfloor> = \<lfloor>y\<rfloor>")
  case True
  then show ?thesis using assms by (auto simp: round_even_def Let_def)
next
  case False
  then have "\<lfloor>x\<rfloor> + 1 \<le> \<lfloor>y\<rfloor>" using floor_mono [OF assms] by linarith
  moreover have "round_even x \<le> \<lfloor>x\<rfloor> + 1" "\<lfloor>y\<rfloor> \<le> round_even y"
    by (auto simp: round_even_def Let_def)
  ultimately show ?thesis by linarith
qed

lemma rnd_0 [simp]: "rnd 0 = 0"
  by (simp add: rnd_def)

text \<open>Bounds by powers of two.\<close>

lemma ulp_exp_bounds:
  assumes "x \<noteq> 0"
  shows "\<bar>x\<bar> < 2 powi (ulp_exp x + 53)"
    and "ulp_exp x = -1074 \<or> 2 powi (ulp_exp x + 52) \<le> \<bar>x\<bar>"
proof -
  define k where "k = \<lfloor>log 2 \<bar>x\<bar>\<rfloor>"
  have p: "(2::real) powi z = 2 powr of_int z" for z :: int by (simp add: powr_real_of_int')
  have "log 2 \<bar>x\<bar> < of_int (k + 1)" "of_int k \<le> log 2 \<bar>x\<bar>"
    by (simp_all add: k_def)
  then have b: "\<bar>x\<bar> < 2 powr of_int (k + 1)" "2 powr of_int k \<le> \<bar>x\<bar>"
    using assms by (simp_all add: log_less_iff le_log_iff)
  have "(2::real) powr of_int (k + 1) \<le> 2 powr of_int (ulp_exp x + 53)"
    by (intro powr_mono) (auto simp: ulp_exp_def k_def)
  then show "\<bar>x\<bar> < 2 powi (ulp_exp x + 53)" using b(1) by (simp only: p)
  show "ulp_exp x = -1074 \<or> 2 powi (ulp_exp x + 52) \<le> \<bar>x\<bar>"
    using b(2) by (cases "k - 52 \<le> -1074") (auto simp: p ulp_exp_def k_def [symmetric])
qed

lemma ulp_exp_le:
  assumes "x \<noteq> 0" "\<bar>x\<bar> < 2 powi (e + 53)" "-1074 \<le> e"
  shows "ulp_exp x \<le> e"
proof (rule ccontr)
  assume n: "\<not> ulp_exp x \<le> e"
  then have "2 powi (ulp_exp x + 52) \<le> \<bar>x\<bar>" using ulp_exp_bounds(2) [OF assms(1)] assms(3) by auto
  moreover have "(2::real) powi (e + 53) \<le> 2 powi (ulp_exp x + 52)"
    using n by (intro power_int_increasing) auto
  ultimately show False using assms(2) by linarith
qed

lemma rnd_integral:
  assumes "x / 2 powi ulp_exp x = of_int n"
  shows "rnd x = x"
proof -
  have "x = of_int n * 2 powi ulp_exp x" using assms by (simp add: field_simps)
  then show ?thesis using assms by (simp add: rnd_def)
qed

lemma rnd_representable: "representable x \<Longrightarrow> rnd x = x"
proof (cases "x = 0")
  case False
  assume "representable x"
  then obtain m e where x: "x = of_int m * 2 powi e" "\<bar>m\<bar> \<le> 2 ^ 53" "-1074 \<le> e"
    by (auto simp: representable_def)
  have absx: "\<bar>x\<bar> = of_int \<bar>m\<bar> * 2 powi e" by (simp add: x(1) abs_mult power_int_abs)
  have p53: "(2::real) powi (e + 53) = 2 ^ 53 * 2 powi e" for e :: int
    by (simp add: power_int_add)
  show ?thesis
  proof (cases "\<bar>m\<bar> = 2 ^ 53")
    case True
    have "\<bar>x\<bar> = 2 powi (e + 53)" using True by (simp only: absx p53) simp
    moreover have "(2::real) powi (e + 53) < 2 powi (e + 1 + 53)"
      by (intro power_int_strict_increasing) auto
    ultimately have "ulp_exp x \<le> e + 1" using False x(3) by (intro ulp_exp_le) auto
    define d where "d = nat (e + 1 - ulp_exp x)"
    have e: "e = ulp_exp x + int d - 1" using \<open>ulp_exp x \<le> e + 1\<close> by (simp add: d_def)
    have m: "of_int m = (of_int (m div 2) :: real) * 2"
    proof -
      have "even \<bar>m\<bar>" unfolding True by simp
      then have "even m" by simp
      then show ?thesis by (metis dvd_mult_div_cancel mult.commute of_int_mult of_int_numeral)
    qed
    have "(2::real) powi e * 2 = 2 powi ulp_exp x * 2 ^ d"
      by (subst e) (simp add: power_int_add power_int_diff)
    then have "x / 2 powi ulp_exp x = of_int (m div 2 * 2 ^ d)"
      by (simp add: x(1) m field_simps)
    then show ?thesis by (rule rnd_integral)
  next
    case m: False
    then have "\<bar>m\<bar> < 2 ^ 53" using x(2) by linarith
    then have "of_int \<bar>m\<bar> < (of_int (2 ^ 53) :: real)" by (rule iffD2 [OF of_int_less_iff])
    then have "of_int \<bar>m\<bar> < (2 ^ 53 :: real)" by simp
    then have "\<bar>x\<bar> < 2 powi (e + 53)" by (simp add: absx p53)
    then have le: "ulp_exp x \<le> e" using False x(3) by (intro ulp_exp_le) auto
    define d where "d = nat (e - ulp_exp x)"
    have e: "e = ulp_exp x + int d" using le by (simp add: d_def)
    have "(2::real) powi e = 2 powi ulp_exp x * 2 ^ d"
      by (subst e) (simp add: power_int_add)
    then have "x / 2 powi ulp_exp x = of_int m * (2 powi ulp_exp x * 2 ^ d) / 2 powi ulp_exp x"
      using x(1) by metis
    then have "x / 2 powi ulp_exp x = of_int (m * 2 ^ d)" by simp
    then show ?thesis by (rule rnd_integral)
  qed
qed simp


text \<open>Rounding stays within the binade, so it is monotone across binades.\<close>

lemma two_powi_53: "(2::real) powi (e + 53) = of_int (2 ^ 53) * 2 powi e"
  by (simp add: power_int_add)

lemma rnd_le_binade:
  assumes "0 < x"
  shows "rnd x \<le> 2 powi (ulp_exp x + 53)"
proof -
  have "x / 2 powi ulp_exp x \<le> of_int (2 ^ 53)"
    using ulp_exp_bounds(1) [of x] assms by (simp add: two_powi_53 divide_le_eq)
  then have "round_even (x / 2 powi ulp_exp x) \<le> 2 ^ 53"
    using round_even_mono round_even_of_int by metis
  then have "of_int (round_even (x / 2 powi ulp_exp x)) \<le> (of_int (2 ^ 53) :: real)"
    by (rule iffD2 [OF of_int_le_iff])
  then show ?thesis
    using assms by (auto simp: rnd_def two_powi_53 simp del: of_int_power intro!: mult_right_mono)
qed

lemma rnd_ge_binade:
  assumes "0 < x" "ulp_exp x \<noteq> -1074"
  shows "2 powi (ulp_exp x + 52) \<le> rnd x"
proof -
  have p: "(2::real) powi (ulp_exp x + 52) = of_int (2 ^ 52) * 2 powi ulp_exp x"
    by (simp add: power_int_add)
  have "of_int (2 ^ 52) \<le> x / 2 powi ulp_exp x"
    using ulp_exp_bounds(2) [of x] assms by (simp add: p le_divide_eq)
  then have "2 ^ 52 \<le> round_even (x / 2 powi ulp_exp x)"
    using round_even_mono round_even_of_int by metis
  then have "of_int (2 ^ 52) \<le> (of_int (round_even (x / 2 powi ulp_exp x)) :: real)"
    by (rule iffD2 [OF of_int_le_iff])
  then show ?thesis
    using assms by (auto simp: rnd_def p simp del: of_int_power intro!: mult_right_mono)
qed

lemma rnd_nonneg: "0 \<le> x \<Longrightarrow> 0 \<le> rnd x"
proof -
  assume "0 \<le> x"
  then have "0 \<le> round_even (x / 2 powi ulp_exp x)"
    using round_even_mono [of 0 "x / 2 powi ulp_exp x"] round_even_of_int [of 0] by simp
  then show ?thesis by (simp add: rnd_def)
qed

lemma ulp_exp_mono:
  assumes "0 < x" "x \<le> y"
  shows "ulp_exp x \<le> ulp_exp y"
proof -
  have "log 2 x \<le> log 2 y" using assms by simp
  then have "\<lfloor>log 2 x\<rfloor> \<le> \<lfloor>log 2 y\<rfloor>" by (rule floor_mono)
  then show ?thesis using assms by (simp add: ulp_exp_def)
qed

lemma rnd_mono:
  assumes "0 \<le> x" "x \<le> y"
  shows "rnd x \<le> rnd y"
proof (cases "x = 0")
  case True
  then show ?thesis using assms rnd_nonneg by simp
next
  case x: False
  then have pos: "0 < x" "0 < y" using assms by simp_all
  show ?thesis
  proof (cases "ulp_exp x = ulp_exp y")
    case True
    have "x / 2 powi ulp_exp y \<le> y / 2 powi ulp_exp y"
      using assms by (intro divide_right_mono) auto
    then show ?thesis
      using pos True by (auto simp: rnd_def intro!: mult_right_mono round_even_mono)
  next
    case False
    then have less: "ulp_exp x < ulp_exp y" using ulp_exp_mono [OF pos(1) assms(2)] by simp
    then have "ulp_exp y \<noteq> -1074" by (auto simp: ulp_exp_def)
    have "rnd x \<le> 2 powi (ulp_exp x + 53)" using rnd_le_binade [OF pos(1)] .
    also have "\<dots> \<le> 2 powi (ulp_exp y + 52)" using less by (intro power_int_increasing) auto
    also have "\<dots> \<le> rnd y" using rnd_ge_binade [OF pos(2)] \<open>ulp_exp y \<noteq> -1074\<close> by blast
    finally show ?thesis .
  qed
qed


text \<open>Rounding is symmetric, so it is monotone everywhere.\<close>

lemma round_even_minus: "round_even (- x) = - round_even x"
proof (cases "x \<in> \<int>")
  case True
  then obtain k where "x = of_int k" by (elim Ints_cases)
  then show ?thesis
    by (metis of_int_minus round_even_of_int)
next
  case False
  then have "x \<noteq> of_int \<lfloor>x\<rfloor>" by (metis Ints_of_int)
  then have "\<lceil>x\<rceil> = \<lfloor>x\<rfloor> + 1" by (simp add: ceiling_altdef)
  then have f: "\<lfloor>- x\<rfloor> = - \<lfloor>x\<rfloor> - 1" by (simp add: floor_minus)
  show ?thesis by (auto simp: round_even_def Let_def f)
qed

lemma ulp_exp_minus: "ulp_exp (- x) = ulp_exp x"
  by (simp add: ulp_exp_def)

lemma rnd_minus: "rnd (- x) = - rnd x"
  by (simp add: rnd_def ulp_exp_minus round_even_minus)

lemma rnd_mono_real:
  assumes "x \<le> y"
  shows "rnd x \<le> rnd y"
proof (cases "0 \<le> x")
  case True
  then show ?thesis using rnd_mono assms by blast
next
  case False
  show ?thesis
  proof (cases "0 \<le> y")
    case True
    have "0 \<le> rnd (- x)" using False by (intro rnd_nonneg) simp
    then have "rnd x \<le> 0" by (simp add: rnd_minus)
    then show ?thesis using rnd_nonneg [OF True] by linarith
  next
    case y: False
    then have "rnd (- y) \<le> rnd (- x)" using assms by (intro rnd_mono) auto
    then show ?thesis by (simp add: rnd_minus)
  qed
qed

section \<open>The contract of rounding\<close>

locale rounding =
  fixes rd :: "real \<Rightarrow> real" and rep :: "real \<Rightarrow> bool"
  assumes rd_mono: "x \<le> y \<Longrightarrow> rd x \<le> rd y"
    and rd_rep: "rep x \<Longrightarrow> rd x = x"
begin

lemma rd_between: "rep a \<Longrightarrow> rep b \<Longrightarrow> a \<le> x \<Longrightarrow> x \<le> b \<Longrightarrow> a \<le> rd x \<and> rd x \<le> b"
  using rd_mono [of a x] rd_mono [of x b] rd_rep [of a] rd_rep [of b] by simp

text \<open>A running sum whose exact partial sums are representable is exact.\<close>

lemma rounded_sum_exact:
  assumes "\<And>i. i \<le> length xs \<Longrightarrow> rep (acc + sum_list (take i xs))"
  shows "fold (\<lambda>x a. rd (a + x)) xs acc = acc + sum_list xs"
  using assms
proof (induction xs arbitrary: acc)
  case (Cons x xs)
  have "rd (acc + x) = acc + x" using Cons.prems [of 1] by (simp add: rd_rep)
  moreover have "rep (acc + x + sum_list (take i xs))" if "i \<le> length xs" for i
    using Cons.prems [of "Suc i"] that by (simp add: add.assoc)
  ultimately show ?case using Cons.IH [of "acc + x"] by (simp add: add.assoc)
qed simp

end

interpretation binary64: rounding rnd representable
  by unfold_locales (simp_all add: rnd_mono_real rnd_representable)

lemma representable_int:
  assumes "\<bar>n\<bar> \<le> 2 ^ 53"
  shows "representable (of_int n)"
  unfolding representable_def by (rule exI [of _ n], rule exI [of _ 0]) (use assms in simp)

lemma representable_nat: "n \<le> 2 ^ 53 \<Longrightarrow> representable (real n)"
proof -
  assume "n \<le> 2 ^ 53"
  then have "\<bar>int n\<bar> \<le> 2 ^ 53" by simp
  then show ?thesis using representable_int [of "int n"] by simp
qed

lemma representable_half:
  assumes "\<bar>n\<bar> \<le> 2 ^ 53"
  shows "representable (of_int n / 2)"
  unfolding representable_def
  by (rule exI [of _ n], rule exI [of _ "-1"]) (use assms in \<open>simp add: power_int_minus field_simps\<close>)

section \<open>Values and operations\<close>

datatype dbl = Fin real | Inf bool | NaN

text \<open>\<open>Inf True\<close> is negative.  Beyond the largest finite value a result is an infinity.\<close>

definition to_dbl :: "real \<Rightarrow> dbl" where
  "to_dbl x = (if 2 ^ 1024 \<le> \<bar>rnd x\<bar> then Inf (x < 0) else Fin (rnd x))"

definition dbl_div :: "real \<Rightarrow> real \<Rightarrow> dbl" where
  "dbl_div a b = (if b = 0 then if a = 0 then NaN else Inf (a < 0) else to_dbl (a / b))"

definition dbl_sqrt :: "real \<Rightarrow> dbl" where
  "dbl_sqrt x = (if x < 0 then NaN else to_dbl (sqrt x))"

end
