(* ===== verification/Prelude.thy ===== *)
theory Prelude
  imports Dbl "HOL-Library.Word"
begin

text \<open>
  What every component of the model shares: the names of the machine types, the
  result of code that may call \<open>abort()\<close>, the trace of output calls, and
  byte-addressed memory with its 64-bit reads and writes.

  The interface of a memory is the locale \<open>qword_store\<close>: a read returns what
  was last written at the same address, and a write does not reach an address
  whose eight bytes are disjoint.  Block reads and writes (\<open>rd_list\<close>,
  \<open>wr_list\<close>) are proved correct once from these two laws; the stack
  of the exception path, the interrupt descriptor table and the page tables all
  rest on them.
\<close>

unbundle bit_operations_syntax

type_synonym u8 = "8 word"
type_synonym u16 = "16 word"
type_synonym u32 = "32 word"
type_synonym u64 = "64 word"

named_theorems model_defs \<open>definitions unfolded to evaluate a concrete run\<close>
named_theorems frame_simps \<open>fields and addresses an operation leaves alone\<close>

section \<open>Results of code that may call abort()\<close>

datatype 'a res = Aborted | Ret 'a

primrec bind_res :: "'a res \<Rightarrow> ('a \<Rightarrow> 'b res) \<Rightarrow> 'b res" where
  "bind_res Aborted f = Aborted"
| "bind_res (Ret x) f = f x"

lemma bind_res_Ret_iff:
  "bind_res r f = Ret y \<longleftrightarrow> (\<exists>x. r = Ret x \<and> f x = Ret y)"
  by (cases r) auto

lemma bind_res_assoc [simp]:
  "bind_res (bind_res r f) g = bind_res r (\<lambda>x. bind_res (f x) g)"
  by (cases r) auto

section \<open>Runs\<close>

text \<open>
  Runs end in \<open>Inl s\<close>, aborted in state \<open>s\<close>, or \<open>Inr x\<close>; \<open>None\<close> is a run that does
  not come back: it retries for ever or resumes elsewhere.
\<close>

type_synonym ('s, 'a) run = "('s + 'a) option"

definition and_then :: "('s, 'a) run \<Rightarrow> ('a \<Rightarrow> ('s, 'b) run) \<Rightarrow> ('s, 'b) run" where
  "and_then r f = (case r of None \<Rightarrow> None | Some (Inl a) \<Rightarrow> Some (Inl a) | Some (Inr x) \<Rightarrow> f x)"

lemma and_then_simps [simp]:
  "and_then None f = None" "and_then (Some (Inl a)) f = Some (Inl a)"
  "and_then (Some (Inr x)) f = f x"
  by (simp_all add: and_then_def)

lemma and_then_Inr: "and_then r f = Some (Inr y) \<longleftrightarrow> (\<exists>x. r = Some (Inr x) \<and> f x = Some (Inr y))"
  by (auto simp: and_then_def split: option.splits sum.splits)

section \<open>Status codes\<close>

text \<open>The codes of \<open>sgx_status_t\<close> the source names, and any other by its number.\<close>

datatype sgx_status =
    SGX_SUCCESS
  | SGX_ERROR_UNEXPECTED
  | SGX_ERROR_INVALID_PARAMETER
  | SGX_ERROR_OUT_OF_MEMORY
  | SGX_ERROR_ENCLAVE_LOST
  | SGX_ERROR_INVALID_ENCLAVE
  | SGX_ERROR_INVALID_ENCLAVE_ID
  | SGX_ERROR_INVALID_SIGNATURE
  | SGX_ERROR_OUT_OF_EPC
  | SGX_ERROR_NO_DEVICE
  | SGX_ERROR_MEMORY_MAP_CONFLICT
  | SGX_ERROR_INVALID_METADATA
  | SGX_ERROR_DEVICE_BUSY
  | SGX_ERROR_INVALID_VERSION
  | SGX_ERROR_INVALID_ATTRIBUTE
  | SGX_ERROR_ENCLAVE_FILE_ACCESS
  | Other_status u32

section \<open>Output calls\<close>

text \<open>
  A call of \<open>printf\<close> or of one of its wrappers is an event: its format string
  and its arguments, each with the C type it is passed as: \<open>AInt\<close> an \<open>int\<close> (or an
  \<open>unsigned\<close>, printed as one), \<open>ALong\<close> a 64-bit signed and \<open>AWord\<close> a 64-bit unsigned
  integer.  Their text is the subject of \<open>Printf\<close>.  The file calls are events that name the
  file; \<open>Sgx_call\<close> is a call of the SDK that creates or destroys the enclave.
\<close>

datatype arg = AInt int | ALong int | AWord u64 | ADbl dbl | AStr string | AStatus sgx_status

datatype event =
    Print string "arg list"
  | Fopen string
  | Fprint string string "arg list"
  | Fclose string
  | Mkdir string
  | Chdir string
  | Sgx_call string

definition nl :: string where "nl = [CHR 0x0A]"

text \<open>The decimal digits of a number, as \<open>%d\<close> prints them.\<close>

fun dec :: "nat \<Rightarrow> string" where
  "dec n = (if n < 10 then [char_of (48 + n)] else dec (n div 10) @ [char_of (48 + n mod 10)])"

declare dec.simps [simp del]

section \<open>Byte-addressed memory\<close>

type_synonym memory = "u64 \<Rightarrow> u8"

definition read64 :: "memory \<Rightarrow> u64 \<Rightarrow> u64" where
  "read64 m a =
     foldr (\<lambda>i acc. push_bit 8 acc OR ucast (m (a + of_nat i))) [0..<8] 0"

definition write64 :: "memory \<Rightarrow> u64 \<Rightarrow> u64 \<Rightarrow> memory" where
  "write64 m a v =
     (\<lambda>b. let d = unat (b - a) in if d < 8 then ucast (drop_bit (8 * d) v) else m b)"

text \<open>Two 64-bit cells with no byte in common (addresses wrap at \<open>2 ^ 64\<close>).\<close>

definition disj8 :: "u64 \<Rightarrow> u64 \<Rightarrow> bool" where
  "disj8 a b \<longleftrightarrow> 8 \<le> unat (b - a) \<and> 8 \<le> unat (a - b)"

lemma disj8_sym: "disj8 a b \<longleftrightarrow> disj8 b a"
  by (auto simp: disj8_def)

lemma bit_gather_bytes:
  fixes f :: "nat \<Rightarrow> u8"
  shows "bit (foldr (\<lambda>i acc. push_bit 8 acc OR ucast (f i)) [k..<k + m] (0 :: u64)) n \<longleftrightarrow>
    n < 64 \<and> n div 8 < m \<and> bit (f (k + n div 8)) (n mod 8)"
proof (induction m arbitrary: k n)
  case (Suc m)
  have c: "[k..<Suc (k + m)] = k # [Suc k..<Suc (k + m)]"
    by (simp add: upt_conv_Cons)
  note IH = Suc.IH [of "Suc k", simplified add_Suc]
  show ?case
  proof (cases "n < 8")
    case True
    then show ?thesis by (simp add: c bit_simps del: upt_Suc)
  next
    case False
    then have "n div 8 = Suc ((n - 8) div 8)" "n mod 8 = (n - 8) mod 8"
      by (simp_all add: div_if mod_if [of n])
    moreover have "\<not> bit (f k) n" using False by (auto dest: bit_imp_le_length)
    ultimately show ?thesis using False
      by (auto simp: c bit_simps IH simp del: upt_Suc)
  qed
qed simp

lemma bit_read64:
  "bit (read64 m a) n \<longleftrightarrow> n < 64 \<and> bit (m (a + of_nat (n div 8))) (n mod 8)"
  using bit_gather_bytes [of "\<lambda>i. m (a + of_nat i)" 0 8 n]
  by (auto simp: read64_def less_mult_imp_div_less)

lemma read64_zero [simp]: "read64 (\<lambda>_. 0) a = 0"
  by (rule bit_word_eqI) (simp add: bit_read64)

lemma read64_cong:
  assumes "\<And>i. i < 8 \<Longrightarrow> m (a + of_nat i) = m' (a + of_nat i)"
  shows "read64 m a = read64 m' a"
  using assms by (intro bit_word_eqI) (simp add: bit_read64 less_mult_imp_div_less)

lemma read64_write64_same: "read64 (write64 m a v) a = v"
proof (rule bit_word_eqI)
  fix n assume "n < LENGTH(64)"
  then have n: "n < 64" by simp
  then have k: "n div 8 < 8" by (simp add: less_mult_imp_div_less)
  then have d: "unat (of_nat (n div 8) :: u64) = n div 8"
    by (simp add: unat_of_nat)
  have "8 * (n div 8) + n mod 8 = n" by presburger
  then show "bit (read64 (write64 m a v) a) n = bit v n"
    using n k by (simp add: bit_read64 write64_def d Let_def bit_simps)
qed

lemma read64_write64_disj:
  assumes "disj8 a b"
  shows "read64 (write64 m a v) b = read64 m b"
proof (rule read64_cong)
  fix i :: nat assume i: "i < 8"
  have ui: "unat (of_nat i :: u64) = i" using i by (simp add: unat_of_nat)
  have e: "b + of_nat i - a = (b - a) + of_nat i" by simp
  have "8 \<le> unat (b + of_nat i - a)"
  proof (rule ccontr)
    assume "\<not> ?thesis"
    then have lt: "unat ((b - a) + of_nat i) < 8" by (simp add: e)
    define d where "d = (b - a) + of_nat i"
    have ab: "a - b = of_nat i - d" by (simp add: d_def)
    from lt have "unat d < 8" by (simp add: d_def)
    moreover have "8 \<le> unat (d - of_nat i)" using assms by (simp add: disj8_def d_def)
    moreover have "8 \<le> unat (of_nat i - d)" using assms by (simp add: disj8_def ab)
    ultimately show False using ui i
      by (cases "of_nat i \<le> d") (auto simp: unat_sub_if' word_le_nat_alt)
  qed
  then show "write64 m a v (b + of_nat i) = m (b + of_nat i)"
    by (simp add: write64_def Let_def)
qed

lemma write64_other: "8 \<le> unat (b - a) \<Longrightarrow> write64 m a v b = m b"
  by (simp add: write64_def Let_def)

section \<open>The memory interface\<close>

text \<open>Blocks of 64-bit cells over any read and write operation.\<close>

primrec rd_list :: "('m \<Rightarrow> u64 \<Rightarrow> u64) \<Rightarrow> 'm \<Rightarrow> u64 \<Rightarrow> nat \<Rightarrow> u64 list" where
  "rd_list rd m a 0 = []"
| "rd_list rd m a (Suc n) = rd m a # rd_list rd m (a + 8) n"

primrec wr_list :: "('m \<Rightarrow> u64 \<Rightarrow> u64 \<Rightarrow> 'm) \<Rightarrow> 'm \<Rightarrow> u64 \<Rightarrow> u64 list \<Rightarrow> 'm" where
  "wr_list wr m a [] = m"
| "wr_list wr m a (v # vs) = wr (wr_list wr m (a + 8) vs) a v"

lemma length_rd_list [simp]: "length (rd_list rd m a n) = n"
  by (induction n arbitrary: a) auto

lemma rd_list_numeral:
  "rd_list rd m a (numeral k) = rd m a # rd_list rd m (a + 8) (pred_numeral k)"
  by (simp add: numeral_eq_Suc)

lemma nth_rd_list: "i < n \<Longrightarrow> rd_list rd m a n ! i = rd m (a + 8 * of_nat i)"
proof (induction n arbitrary: a i)
  case (Suc n)
  then show ?case by (cases i) (auto simp: algebra_simps)
qed simp

lemma unat_mult8:
  assumes "8 * k < 2 ^ 64"
  shows "unat (8 * of_nat k :: u64) = 8 * k"
proof -
  have "(8 * of_nat k :: u64) = of_nat (8 * k)" by simp
  then show ?thesis using assms by (simp only: unat_of_nat) simp
qed

lemma unat_add_of_nat:
  fixes a :: u64
  shows "unat a + k < 2 ^ 64 \<Longrightarrow> unat (a + of_nat k) = unat a + k"
  by (simp add: unat_word_ariths unat_of_nat)

lemma unat_neg_mult8:
  assumes "0 < k" "8 * k \<le> 2 ^ 64"
  shows "unat (- (8 * of_nat k) :: u64) = 2 ^ 64 - 8 * k"
proof (cases "8 * k = 2 ^ 64")
  case True
  then have "(8 * of_nat k :: u64) = of_nat (2 ^ 64)" by (metis of_nat_mult of_nat_numeral)
  also have "\<dots> = 0" by simp
  finally show ?thesis using True by simp
next
  case False
  then have "unat (8 * of_nat k :: u64) = 8 * k" using assms by (intro unat_mult8) simp
  then show ?thesis
    using assms unat_sub_if' [of 0 "8 * of_nat k :: u64"] by (auto simp: word_le_nat_alt)
qed

text \<open>Cells of one array do not overlap, as long as the array fits the address space.\<close>

lemma disj8_cells:
  assumes "i < n" "j < n" "i \<noteq> j" "8 * n \<le> 2 ^ 64"
  shows "disj8 (a + 8 * of_nat i) (a + 8 * of_nat j)"
proof -
  have *: "8 \<le> unat (8 * of_nat q - 8 * of_nat p :: u64) \<and>
      8 \<le> unat (8 * of_nat p - 8 * of_nat q :: u64)"
    if "p < q" "q < n" for p q
  proof -
    have e: "(8 * of_nat q - 8 * of_nat p :: u64) = 8 * of_nat (q - p)"
      "(8 * of_nat p - 8 * of_nat q :: u64) = - (8 * of_nat (q - p))"
      using that by (simp_all add: algebra_simps)
    have "unat (8 * of_nat (q - p) :: u64) = 8 * (q - p)"
      using that assms(4) by (intro unat_mult8) simp
    moreover have "unat (- (8 * of_nat (q - p)) :: u64) = 2 ^ 64 - 8 * (q - p)"
      using that assms(4) by (intro unat_neg_mult8) simp_all
    ultimately show ?thesis unfolding e using that assms(4) by (auto simp: Suc_le_eq)
  qed
  show ?thesis
    using * [of i j] * [of j i] assms by (cases "i < j") (auto simp: disj8_def)
qed

text \<open>Distinct 8-aligned addresses name disjoint cells.\<close>

definition aligned8 :: "u64 \<Rightarrow> bool" where
  "aligned8 a \<longleftrightarrow> 8 dvd unat a"

lemma aligned8_add: "aligned8 a \<Longrightarrow> aligned8 b \<Longrightarrow> aligned8 (a + b)"
  by (auto simp: aligned8_def unat_plus_if' intro!: dvd_diff_nat dvd_add)

lemma aligned8_diff: "aligned8 a \<Longrightarrow> aligned8 b \<Longrightarrow> aligned8 (b - a)"
  by (auto simp: aligned8_def unat_sub_if' intro!: dvd_diff_nat dvd_add)

lemma aligned8_ge: "aligned8 a \<Longrightarrow> a \<noteq> 0 \<Longrightarrow> 8 \<le> unat a"
  by (auto simp: aligned8_def unat_gt_0 intro: dvd_imp_le)

lemma disj8_aligned:
  assumes "aligned8 a" "aligned8 b" "a \<noteq> b"
  shows "disj8 a b"
  using assms by (auto simp: disj8_def intro!: aligned8_ge aligned8_diff)

locale qword_store =
  fixes rd :: "'m \<Rightarrow> u64 \<Rightarrow> u64"
    and wr :: "'m \<Rightarrow> u64 \<Rightarrow> u64 \<Rightarrow> 'm"
  assumes rd_wr_same: "rd (wr m a v) a = v"
    and rd_wr_disj: "disj8 a b \<Longrightarrow> rd (wr m a v) b = rd m b"
begin

lemma rd_wr_list_out:
  assumes "\<And>i. i < length vs \<Longrightarrow> disj8 (a + 8 * of_nat i) b"
  shows "rd (wr_list wr m a vs) b = rd m b"
  using assms
proof (induction vs arbitrary: a)
  case (Cons v vs)
  have "disj8 a b" using Cons.prems [of 0] by simp
  moreover have "disj8 (a + 8 + 8 * of_nat i) b" if "i < length vs" for i
    using Cons.prems [of "Suc i"] that by (simp add: algebra_simps)
  ultimately show ?case by (simp add: rd_wr_disj Cons.IH)
qed simp

lemma rd_wr_list_in:
  assumes "i < length vs" "8 * length vs \<le> 2 ^ 64"
  shows "rd (wr_list wr m a vs) (a + 8 * of_nat i) = vs ! i"
  using assms
proof (induction vs arbitrary: a i)
  case (Cons v vs)
  show ?case
  proof (cases i)
    case 0
    then show ?thesis by (simp add: rd_wr_same)
  next
    case (Suc j)
    have "disj8 (a + 8 * of_nat 0) (a + 8 * of_nat i)"
      using Cons.prems Suc by (intro disj8_cells [of _ "length (v # vs)"]) auto
    then have "rd (wr_list wr m a (v # vs)) (a + 8 * of_nat i) =
        rd (wr_list wr m (a + 8) vs) (a + 8 * of_nat i)"
      by (simp add: rd_wr_disj)
    also have i: "a + 8 * of_nat i = a + 8 + 8 * of_nat j" by (simp add: Suc)
    also have "rd (wr_list wr m (a + 8) vs) (a + 8 + 8 * of_nat j) = vs ! j"
      using Cons.prems Suc by (intro Cons.IH) auto
    finally show ?thesis by (simp only: i) (simp only: Suc nth_Cons_Suc)
  qed
qed simp

lemma rd_list_wr_list:
  assumes "8 * length vs \<le> 2 ^ 64"
  shows "rd_list rd (wr_list wr m a vs) a (length vs) = vs"
  using assms by (intro nth_equalityI) (simp_all add: nth_rd_list rd_wr_list_in)

end

interpretation byte_mem: qword_store read64 write64
  by unfold_locales (simp_all add: read64_write64_same read64_write64_disj)

text \<open>The bytes a block write reaches: those less than \<open>8 * length vs\<close> above its base.\<close>

lemma wr_list_write64_other:
  assumes "8 * length vs \<le> unat (b - a)"
  shows "wr_list write64 m a vs b = m b"
  using assms
proof (induction vs arbitrary: a)
  case (Cons v vs)
  have "unat (b - (a + 8)) = unat (b - a) - 8"
    using Cons.prems by (simp add: diff_diff_eq [symmetric] unat_sub word_le_nat_alt)
  then have "wr_list write64 m (a + 8) vs b = m b"
    using Cons.prems by (intro Cons.IH) simp
  then show ?case using Cons.prems by (simp add: write64_other)
qed simp

end
