(* ===== verification/TrapEntry.thy ===== *)
theory TrapEntry
  imports Prelude
begin

text \<open>
  The path of an exception or interrupt through the P-Enclave, from
  \<open>server/exception/exception_p_enclave/Enclave/exception.S\<close> and the
  \<open>trapframe_t\<close> of \<open>signal.h\<close>: the frame the processor pushes, the 256 entry
  stubs, the common entry that saves the registers, calls the C++ handler with a
  pointer to the frame, restores the registers and returns with \<open>iretq\<close>.

  The processor is a record of registers and the byte-addressed stack; an instruction
  is a step on it.  The C++ handler is a function on the trap frame and on the rest of
  the enclave's state (\<open>world\<close>); what compiled code may do under the System V ABI
  besides (clobber caller-saved registers, scribble below the stack pointer) is the
  parameter \<open>abi\<close>.  What \<open>iretq\<close> checks is not modelled: that the code and stack segment
  selectors it pops are valid for a return to the same privilege level and that the
  instruction pointer is canonical.  The enclave's handler changes neither selector and the
  instruction pointer at most by 2, so it returns the selectors the processor itself pushed;
  nothing below speaks of a return with others.  The path is shown to refine \<open>abstract_trap\<close>: hand the interrupted
  registers to the handler as a record, resume with the record it returns.
\<close>

section \<open>The processor state and the trap frame\<close>

datatype reg = RAX | RCX | RDX | RBX | RBP | RSI | RDI
  | R8 | R9 | R10 | R11 | R12 | R13 | R14 | R15 | RSP

record 'w cpu =
  gpr :: "reg \<Rightarrow> u64"
  rip :: u64
  rflags :: u64
  seg_cs :: u64
  seg_ss :: u64
  stk :: memory
  world :: 'w

record trapframe =
  tf_rax :: u64
  tf_rcx :: u64
  tf_rdx :: u64
  tf_rbx :: u64
  tf_rbp :: u64
  tf_rsi :: u64
  tf_rdi :: u64
  tf_r8 :: u64
  tf_r9 :: u64
  tf_r10 :: u64
  tf_r11 :: u64
  tf_r12 :: u64
  tf_r13 :: u64
  tf_r14 :: u64
  tf_r15 :: u64
  tf_vector :: u64
  tf_err_code :: u64
  tf_rip :: u64
  tf_cs :: u64
  tf_rflags :: u64
  tf_rsp :: u64
  tf_ss :: u64

text \<open>The struct's layout: 22 consecutive 64-bit fields in declaration order.\<close>

definition tf_to_list :: "trapframe \<Rightarrow> u64 list" where
  "tf_to_list tf =
     [tf_rax tf, tf_rcx tf, tf_rdx tf, tf_rbx tf, tf_rbp tf, tf_rsi tf, tf_rdi tf,
      tf_r8 tf, tf_r9 tf, tf_r10 tf, tf_r11 tf, tf_r12 tf, tf_r13 tf, tf_r14 tf, tf_r15 tf,
      tf_vector tf, tf_err_code tf, tf_rip tf, tf_cs tf, tf_rflags tf, tf_rsp tf, tf_ss tf]"

definition tf_of_list :: "u64 list \<Rightarrow> trapframe" where
  "tf_of_list l =
     \<lparr>tf_rax = l ! 0, tf_rcx = l ! 1, tf_rdx = l ! 2, tf_rbx = l ! 3, tf_rbp = l ! 4,
      tf_rsi = l ! 5, tf_rdi = l ! 6, tf_r8 = l ! 7, tf_r9 = l ! 8, tf_r10 = l ! 9,
      tf_r11 = l ! 10, tf_r12 = l ! 11, tf_r13 = l ! 12, tf_r14 = l ! 13, tf_r15 = l ! 14,
      tf_vector = l ! 15, tf_err_code = l ! 16, tf_rip = l ! 17, tf_cs = l ! 18,
      tf_rflags = l ! 19, tf_rsp = l ! 20, tf_ss = l ! 21\<rparr>"

text \<open>Access through a \<open>trapframe_t*\<close>.\<close>

definition tf_load :: "memory \<Rightarrow> u64 \<Rightarrow> trapframe" where
  "tf_load m p = tf_of_list (rd_list read64 m p 22)"

definition tf_store :: "memory \<Rightarrow> u64 \<Rightarrow> trapframe \<Rightarrow> memory" where
  "tf_store m p tf = wr_list write64 m p (tf_to_list tf)"

section \<open>The instructions of exception.S\<close>

datatype label = Entry nat | Common

datatype instr =
    Pushq_imm u64
  | Pushq reg
  | Popq reg
  | Movq reg reg \<comment> \<open>source, destination (AT and T order)\<close>
  | Call_handler
  | Addq u64 reg
  | Iretq
  | Jmp label

datatype flow = Next | Goto label | Resumed

definition push64 :: "u64 \<Rightarrow> 'w cpu \<Rightarrow> 'w cpu" where
  "push64 v c =
     (let sp = gpr c RSP - 8
      in c\<lparr>gpr := (gpr c)(RSP := sp), stk := write64 (stk c) sp v\<rparr>)"

definition pop64 :: "reg \<Rightarrow> 'w cpu \<Rightarrow> 'w cpu" where
  "pop64 r c =
     (let sp = gpr c RSP
      in c\<lparr>gpr := (gpr c)(RSP := sp + 8, r := read64 (stk c) sp)\<rparr>)"

text \<open>\<open>iretq\<close> pops RIP, CS, RFLAGS, RSP and SS.\<close>

definition iretq :: "'w cpu \<Rightarrow> 'w cpu" where
  "iretq c =
     (let f = rd_list read64 (stk c) (gpr c RSP) 5
      in c\<lparr>rip := f ! 0, seg_cs := f ! 1, rflags := f ! 2,
           gpr := (gpr c)(RSP := f ! 3), seg_ss := f ! 4\<rparr>)"

text \<open>
  One instruction.  \<open>call\<close> is the effect of calling \<open>common_exception_handler\<close>.
  \<open>addq\<close> also sets the arithmetic flags, which \<open>iretq\<close> overwrites: they are not tracked.
\<close>

fun exec1 :: "('w cpu \<Rightarrow> 'w cpu res) \<Rightarrow> instr \<Rightarrow> 'w cpu \<Rightarrow> ('w cpu \<times> flow) res" where
  "exec1 call (Pushq_imm v) c = Ret (push64 v c, Next)"
| "exec1 call (Pushq r) c = Ret (push64 (gpr c r) c, Next)"
| "exec1 call (Popq r) c = Ret (pop64 r c, Next)"
| "exec1 call (Movq r r') c = Ret (c\<lparr>gpr := (gpr c)(r' := gpr c r)\<rparr>, Next)"
| "exec1 call Call_handler c = bind_res (call c) (\<lambda>c'. Ret (c', Next))"
| "exec1 call (Addq v r) c = Ret (c\<lparr>gpr := (gpr c)(r := gpr c r + v)\<rparr>, Next)"
| "exec1 call Iretq c = Ret (iretq c, Resumed)"
| "exec1 call (Jmp l) c = Ret (c, Goto l)"

text \<open>A block of instructions, up to the first that leaves it.\<close>

fun exec :: "('w cpu \<Rightarrow> 'w cpu res) \<Rightarrow> instr list \<Rightarrow> 'w cpu \<Rightarrow> ('w cpu \<times> flow) res" where
  "exec call [] c = Ret (c, Next)"
| "exec call (i # is) c =
     bind_res (exec1 call i c)
       (\<lambda>(c', f). if f = Next then exec call is c' else Ret (c', f))"

definition common_exception_entry :: "instr list" where
  "common_exception_entry =
    [Pushq R15, Pushq R14, Pushq R13, Pushq R12, Pushq R11, Pushq R10, Pushq R9, Pushq R8,
     Pushq RDI, Pushq RSI, Pushq RBP, Pushq RBX, Pushq RDX, Pushq RCX, Pushq RAX,
     Movq RSP RDI,
     Call_handler,
     Popq RAX, Popq RCX, Popq RDX, Popq RBX, Popq RBP, Popq RSI, Popq RDI,
     Popq R8, Popq R9, Popq R10, Popq R11, Popq R12, Popq R13, Popq R14, Popq R15,
     Addq 0x10 RSP,
     Iretq]"

text \<open>
  The stub of vector \<open>n\<close>.  Those of vectors 8, 10 to 14 and 17 push the vector alone, on
  top of an error code the processor has pushed; every other stub pushes a zero first.
\<close>

definition stub_expects_err :: "nat \<Rightarrow> bool" where
  "stub_expects_err n \<longleftrightarrow> n \<in> {8, 10, 11, 12, 13, 14, 17}"

definition entry_stub :: "nat \<Rightarrow> instr list" where
  "entry_stub n =
     (if stub_expects_err n then [] else [Pushq_imm 0]) @
     [Pushq_imm (of_nat n), Jmp Common]"

definition run_entry :: "('w cpu \<Rightarrow> 'w cpu res) \<Rightarrow> nat \<Rightarrow> 'w cpu \<Rightarrow> ('w cpu \<times> flow) res" where
  "run_entry call n c =
     bind_res (exec call (entry_stub n) c)
       (\<lambda>(c', f). if f = Goto Common then exec call common_exception_entry c' else Ret (c', f))"

section \<open>The processor's part and the call of the handler\<close>

text \<open>
  Delivery of an exception through an interrupt gate without a change of privilege or
  stack table: the stack pointer is aligned to 16, SS, RSP, RFLAGS, CS and RIP are pushed,
  then the error code where the vector has one; IF, TF, NT and RF are cleared.
\<close>

definition stack_top :: "'w cpu \<Rightarrow> u64" where
  "stack_top c = gpr c RSP AND NOT 15"

definition cpu_deliver :: "bool \<Rightarrow> u64 \<Rightarrow> u64 \<Rightarrow> u64 \<Rightarrow> 'w cpu \<Rightarrow> 'w cpu" where
  "cpu_deliver has_err err sel target c =
     (let c1 = push64 (rip c) (push64 (seg_cs c) (push64 (rflags c)
                 (push64 (gpr c RSP) (push64 (seg_ss c)
                   (c\<lparr>gpr := (gpr c)(RSP := stack_top c)\<rparr>)))));
          c2 = (if has_err then push64 err c1 else c1)
      in c2\<lparr>rflags := rflags c AND NOT 0x14300, seg_cs := sel, rip := target\<rparr>)"

text \<open>
  What a compiled C++ function may do besides its specified effect: give any value to the
  caller-saved registers and to the \<open>depth\<close> bytes below its stack pointer (return
  address and locals).
\<close>

record abi =
  clob :: "reg \<Rightarrow> u64"
  junk :: memory
  depth :: nat

definition callee_saved :: "reg set" where
  "callee_saved = {RBX, RBP, RSP, R12, R13, R14, R15}"

definition scratch :: "abi \<Rightarrow> u64 \<Rightarrow> memory \<Rightarrow> memory" where
  "scratch ab sp m = (\<lambda>a. if unat (sp - 1 - a) < depth ab then junk ab a else m a)"

type_synonym 'w c_handler = "trapframe \<Rightarrow> 'w \<Rightarrow> (trapframe \<times> 'w) res"

definition call_c :: "'w c_handler \<Rightarrow> abi \<Rightarrow> 'w cpu \<Rightarrow> 'w cpu res" where
  "call_c h ab c =
     (let p = gpr c RDI
      in bind_res (h (tf_load (stk c) p) (world c))
           (\<lambda>(tf', w'). Ret (c\<lparr>
              gpr := (\<lambda>r. if r \<in> callee_saved then gpr c r else clob ab r),
              stk := tf_store (scratch ab (gpr c RSP) (stk c)) p tf',
              world := w'\<rparr>)))"

text \<open>The whole path of one exception.\<close>

definition trap ::
  "'w c_handler \<Rightarrow> abi \<Rightarrow> bool \<Rightarrow> u64 \<Rightarrow> u64 \<Rightarrow> u64 \<Rightarrow> nat \<Rightarrow> 'w cpu \<Rightarrow> 'w cpu res" where
  "trap h ab has_err err sel target n c =
     bind_res (run_entry (call_c h ab) n (cpu_deliver has_err err sel target c))
       (\<lambda>(c', f). Ret c')"

section \<open>Its specification\<close>

definition trapframe_of :: "'w cpu \<Rightarrow> nat \<Rightarrow> u64 \<Rightarrow> trapframe" where
  "trapframe_of c n err =
     \<lparr>tf_rax = gpr c RAX, tf_rcx = gpr c RCX, tf_rdx = gpr c RDX, tf_rbx = gpr c RBX,
      tf_rbp = gpr c RBP, tf_rsi = gpr c RSI, tf_rdi = gpr c RDI, tf_r8 = gpr c R8,
      tf_r9 = gpr c R9, tf_r10 = gpr c R10, tf_r11 = gpr c R11, tf_r12 = gpr c R12,
      tf_r13 = gpr c R13, tf_r14 = gpr c R14, tf_r15 = gpr c R15,
      tf_vector = of_nat n, tf_err_code = err, tf_rip = rip c, tf_cs = seg_cs c,
      tf_rflags = rflags c, tf_rsp = gpr c RSP, tf_ss = seg_ss c\<rparr>"

primrec tf_gpr :: "trapframe \<Rightarrow> reg \<Rightarrow> u64" where
  "tf_gpr tf RAX = tf_rax tf"
| "tf_gpr tf RCX = tf_rcx tf"
| "tf_gpr tf RDX = tf_rdx tf"
| "tf_gpr tf RBX = tf_rbx tf"
| "tf_gpr tf RBP = tf_rbp tf"
| "tf_gpr tf RSI = tf_rsi tf"
| "tf_gpr tf RDI = tf_rdi tf"
| "tf_gpr tf R8 = tf_r8 tf"
| "tf_gpr tf R9 = tf_r9 tf"
| "tf_gpr tf R10 = tf_r10 tf"
| "tf_gpr tf R11 = tf_r11 tf"
| "tf_gpr tf R12 = tf_r12 tf"
| "tf_gpr tf R13 = tf_r13 tf"
| "tf_gpr tf R14 = tf_r14 tf"
| "tf_gpr tf R15 = tf_r15 tf"
| "tf_gpr tf RSP = tf_rsp tf"

definition resume :: "trapframe \<Rightarrow> 'w \<Rightarrow> memory \<Rightarrow> 'w cpu" where
  "resume tf w m =
     \<lparr>gpr = tf_gpr tf, rip = tf_rip tf, rflags = tf_rflags tf,
      seg_cs = tf_cs tf, seg_ss = tf_ss tf, stk = m, world = w\<rparr>"

definition abstract_trap :: "'w c_handler \<Rightarrow> nat \<Rightarrow> u64 \<Rightarrow> 'w cpu \<Rightarrow> 'w cpu res" where
  "abstract_trap h n err c =
     bind_res (h (trapframe_of c n err) (world c))
       (\<lambda>(tf', w'). Ret (resume tf' w' (stk c)))"

section \<open>The frame as a block of memory\<close>

lemma length_tf_to_list [simp]: "length (tf_to_list tf) = 22"
  by (simp add: tf_to_list_def)

lemma tf_of_to_list [simp]: "tf_of_list (tf_to_list tf) = tf"
  by (simp add: tf_of_list_def tf_to_list_def)

lemma tf_to_of_list: "length l = 22 \<Longrightarrow> tf_to_list (tf_of_list l) = l"
  by (rule nth_equalityI)
    (auto simp: tf_of_list_def tf_to_list_def less_Suc_eq numeral_eq_Suc)

lemma tf_load_store [simp]: "tf_load (tf_store m p tf) p = tf"
  using byte_mem.rd_list_wr_list [of "tf_to_list tf" m p]
  by (simp add: tf_load_def tf_store_def)

lemma rd_tf_store:
  "i < 22 \<Longrightarrow> read64 (tf_store m p tf) (p + 8 * of_nat i) = tf_to_list tf ! i"
  by (simp add: tf_store_def byte_mem.rd_wr_list_in)

lemma tf_store_other: "176 \<le> unat (b - p) \<Longrightarrow> tf_store m p tf b = m b"
  by (simp add: tf_store_def wr_list_write64_other)

lemma wr_list_append:
  "wr_list wr m a (xs @ ys) = wr_list wr (wr_list wr m (a + 8 * of_nat (length xs)) ys) a xs"
  by (induction xs arbitrary: a) (simp_all add: algebra_simps)

section \<open>Straight-line code\<close>

lemma exec_append:
  "exec call (is @ js) c =
     bind_res (exec call is c) (\<lambda>(c', f). if f = Next then exec call js c' else Ret (c', f))"
proof (induction "is" arbitrary: c)
  case (Cons i "is")
  then show ?case by (cases "exec1 call i c") auto
qed simp

definition saved_regs :: "reg list" where
  "saved_regs =
     [RAX, RCX, RDX, RBX, RBP, RSI, RDI, R8, R9, R10, R11, R12, R13, R14, R15]"

lemma saved_regs_simps [simp]:
  "length saved_regs = 15" "RSP \<notin> set saved_regs" "distinct saved_regs"
  by (simp_all add: saved_regs_def)

lemma common_exception_entry_split:
  "common_exception_entry =
     map Pushq (rev saved_regs) @ [Movq RSP RDI, Call_handler] @
     map Popq saved_regs @ [Addq 0x10 RSP, Iretq]"
  by (simp add: common_exception_entry_def saved_regs_def)

text \<open>Pushing registers writes their values as a block, the last one lowest.\<close>

lemma exec_pushes:
  assumes "RSP \<notin> set rs"
  shows "exec call (map Pushq (rev rs)) c =
    Ret (c\<lparr>gpr := (gpr c)(RSP := gpr c RSP - 8 * of_nat (length rs)),
            stk := wr_list write64 (stk c) (gpr c RSP - 8 * of_nat (length rs)) (map (gpr c) rs)\<rparr>,
         Next)"
  using assms
proof (induction rs)
  case (Cons r rs)
  then have "r \<noteq> RSP" by auto
  with Cons show ?case
    by (auto simp: exec_append push64_def Let_def algebra_simps intro!: cpu.equality)
qed simp

text \<open>Popping registers reads a block; the stack pointer ends above it.\<close>

lemma exec_pops:
  assumes "RSP \<notin> set rs" "distinct rs"
  shows "exec call (map Popq rs) c =
    Ret (c\<lparr>gpr := (\<lambda>r. if r = RSP then gpr c RSP + 8 * of_nat (length rs)
              else case map_of (zip rs (rd_list read64 (stk c) (gpr c RSP) (length rs))) r of
                None \<Rightarrow> gpr c r | Some v \<Rightarrow> v)\<rparr>, Next)"
  using assms
proof (induction rs arbitrary: c)
  case (Cons r rs)
  let ?m = "\<lambda>sp. map_of (zip rs (rd_list read64 (stk c) sp (length rs)))"
  have none: "?m sp r = None" for sp
    using Cons.prems by simp
  from Cons.prems have r: "r \<noteq> RSP" "RSP \<notin> set rs" "distinct rs" by auto
  show ?case
    using r
    by (auto simp: pop64_def Let_def Cons.IH none algebra_simps
        intro!: cpu.equality cong: option.case_cong)
qed (auto intro!: cpu.equality)

section \<open>The path step by step\<close>

text \<open>The error code the handler sees: the processor's, or the stub's zero.\<close>

abbreviation seen_err :: "nat \<Rightarrow> u64 \<Rightarrow> u64" where
  "seen_err n err \<equiv> (if stub_expects_err n then err else 0)"

abbreviation frame_base :: "'w cpu \<Rightarrow> u64" where
  "frame_base c \<equiv> stack_top c - 176"

text \<open>After the stub the stack holds seven cells, whatever the vector.\<close>

lemma exec_entry_stub:
  assumes "has_err = stub_expects_err n"
  shows "exec call (entry_stub n) (cpu_deliver has_err err sel target c) =
    Ret (c\<lparr>gpr := (gpr c)(RSP := stack_top c - 56), rip := target,
          rflags := rflags c AND NOT 0x14300, seg_cs := sel,
          stk := wr_list write64 (stk c) (stack_top c - 56)
            [of_nat n, seen_err n err, rip c, seg_cs c, rflags c, gpr c RSP, seg_ss c]\<rparr>,
         Goto Common)"
  using assms
  by (cases "stub_expects_err n")
    (auto simp: entry_stub_def cpu_deliver_def push64_def Let_def intro!: cpu.equality)

lemma rd_regs_tf_store:
  "rd_list read64 (tf_store m p tf) p 15 = take 15 (tf_to_list tf)"
  by (rule nth_equalityI) (simp_all add: nth_rd_list rd_tf_store)

lemma map_of_saved_regs:
  "r \<noteq> RSP \<Longrightarrow> map_of (zip saved_regs (take 15 (tf_to_list tf))) r = Some (tf_gpr tf r)"
  by (cases r) (simp_all add: saved_regs_def tf_to_list_def)

text \<open>The second half: restore the registers from the frame, drop two cells, return.\<close>

lemma exec_restore:
  assumes "gpr c RSP = p" "stk c = tf_store m p tf"
  shows "exec call (map Popq saved_regs @ [Addq 0x10 RSP, Iretq]) c =
    Ret (resume tf (world c) (stk c), Resumed)"
proof -
  have cell: "read64 (tf_store m p tf) (p + k) = tf_to_list tf ! i"
    if "k = 8 * of_nat i" "i < 22" for i k
    using that by (simp add: rd_tf_store)
  have "read64 (tf_store m p tf) (136 + p) = tf_rip tf"
    "read64 (tf_store m p tf) (144 + p) = tf_cs tf"
    "read64 (tf_store m p tf) (152 + p) = tf_rflags tf"
    "read64 (tf_store m p tf) (160 + p) = tf_rsp tf"
    "read64 (tf_store m p tf) (168 + p) = tf_ss tf"
    using cell [of 136 17] cell [of 144 18] cell [of 152 19] cell [of 160 20] cell [of 168 21]
    by (simp_all add: tf_to_list_def add.commute)
  then have it: "iretq (c\<lparr>gpr := f(RSP := 136 + p)\<rparr>) =
      c\<lparr>gpr := f(RSP := tf_rsp tf), rip := tf_rip tf, seg_cs := tf_cs tf, rflags := tf_rflags tf,
        seg_ss := tf_ss tf\<rparr>" for f
    using assms(2) by (simp add: iretq_def Let_def rd_list_numeral)
  have regs: "exec call (map Popq saved_regs) c =
      Ret (c\<lparr>gpr := (tf_gpr tf)(RSP := p + 120)\<rparr>, Next)"
  proof -
    have "(if r = RSP then gpr c RSP + 8 * of_nat (length saved_regs)
        else case map_of (zip saved_regs (rd_list read64 (stk c) (gpr c RSP) (length saved_regs))) r of
          None \<Rightarrow> gpr c r | Some v \<Rightarrow> v) = ((tf_gpr tf)(RSP := p + 120)) r" for r
      using assms by (simp add: rd_regs_tf_store map_of_saved_regs)
    then show ?thesis by (subst exec_pops) (simp_all add: fun_upd_def)
  qed
  show ?thesis
    by (auto simp: exec_append regs it resume_def intro!: cpu.equality)
qed

section \<open>The whole path\<close>

text \<open>
  The common entry over any seven cells: the handler is called with the registers and
  these cells as its frame, on a stack 120 bytes below, and what it leaves in the frame is
  resumed.
\<close>

definition frame_seen :: "'w cpu \<Rightarrow> u64 list \<Rightarrow> trapframe" where
  "frame_seen c tail = tf_of_list (map (gpr c) saved_regs @ tail)"

lemma exec_common_call:
  assumes "gpr c RSP = q" "stk c = wr_list write64 m q tail" "length tail = 7"
  shows "exec call common_exception_entry c =
    bind_res (call (c\<lparr>stk := tf_store m (q - 120) (frame_seen c tail),
                     gpr := (gpr c)(RSP := q - 120, RDI := q - 120)\<rparr>))
      (exec call (map Popq saved_regs @ [Addq 0x10 RSP, Iretq]))"
proof -
  have "tf_to_list (frame_seen c tail) = map (gpr c) saved_regs @ tail"
    using assms(3) by (simp add: frame_seen_def tf_to_of_list)
  then have "tf_store m (q - 120) (frame_seen c tail) =
      wr_list write64 (stk c) (q - 120) (map (gpr c) saved_regs)"
    using assms(2) by (simp add: tf_store_def wr_list_append)
  then show ?thesis
    using assms(1)
    by (simp add: common_exception_entry_split exec_append [of _ "map Pushq (rev saved_regs)"]
        exec_pushes case_prod_beta' del: exec.simps(1))
qed

lemma exec_common:
  assumes "gpr c RSP = q" "stk c = wr_list write64 m q tail" "length tail = 7"
  shows "exec (call_c h ab) common_exception_entry c =
    bind_res (h (frame_seen c tail) (world c))
      (\<lambda>(tf', w'). Ret (resume tf' w'
         (tf_store (scratch ab (q - 120) (tf_store m (q - 120) (frame_seen c tail))) (q - 120) tf'),
       Resumed))"
  by (cases "h (frame_seen c tail) (world c)")
    (auto simp: exec_common_call [OF assms] call_c_def callee_saved_def exec_restore Let_def)

text \<open>
  The memory of the resumed code: the C++ code's scratch area, then the frame as the
  handler left it.
\<close>

definition trap_stk :: "abi \<Rightarrow> nat \<Rightarrow> u64 \<Rightarrow> 'w cpu \<Rightarrow> trapframe \<Rightarrow> memory" where
  "trap_stk ab n err c tf' =
     tf_store (scratch ab (frame_base c)
        (tf_store (stk c) (frame_base c) (trapframe_of c n (seen_err n err))))
      (frame_base c) tf'"

lemma trap_eq:
  assumes "has_err = stub_expects_err n"
  shows "trap h ab has_err err sel target n c =
    bind_res (h (trapframe_of c n (seen_err n err)) (world c))
      (\<lambda>(tf', w'). Ret (resume tf' w' (trap_stk ab n err c tf')))"
proof -
  let ?tail = "[of_nat n, seen_err n err, rip c, seg_cs c, rflags c, gpr c RSP, seg_ss c]"
  obtain x where x: "exec (call_c h ab) (entry_stub n) (cpu_deliver has_err err sel target c) =
      Ret (x, Goto Common)"
    and xs: "gpr x = (gpr c)(RSP := stack_top c - 56)"
      "stk x = wr_list write64 (stk c) (stack_top c - 56) ?tail" "world x = world c"
    using exec_entry_stub [OF assms, of "call_c h ab" err sel target c] by simp
  have tf: "frame_seen x ?tail = trapframe_of c n (seen_err n err)"
    by (simp add: frame_seen_def xs saved_regs_def tf_of_list_def trapframe_of_def)
  have "exec (call_c h ab) common_exception_entry x =
      bind_res (h (trapframe_of c n (seen_err n err)) (world c))
        (\<lambda>(tf', w'). Ret (resume tf' w' (trap_stk ab n err c tf'), Resumed))"
    using exec_common [of x "stack_top c - 56" "stk c" ?tail h ab] xs
    by (simp only: tf trap_stk_def) simp
  then show ?thesis
    by (cases "h (trapframe_of c n (seen_err n err)) (world c)")
      (auto simp: trap_def run_entry_def x)
qed

section \<open>Properties\<close>

text \<open>C2: for every vector whose stub agrees with the processor on the error code, the
  path through stub, common entry, C++ handler and return refines the abstract trap: the
  handler gets exactly the interrupted registers, vector and error code, and the
  interrupted code resumes with exactly what the handler left in the frame.\<close>

theorem trap_refines_abstract:
  assumes "has_err = stub_expects_err n"
  shows "map_res (stk_update (\<lambda>_. stk c)) (trap h ab has_err err sel target n c) =
    abstract_trap h n (seen_err n err) c"
  by (cases "h (trapframe_of c n (seen_err n err)) (world c)")
    (auto simp: trap_eq [OF assms] abstract_trap_def resume_def)

text \<open>A concrete interrupted program for the witnesses, and a handler that skips two bytes.\<close>

definition demo_cpu :: "nat cpu" where
  "demo_cpu = \<lparr>gpr = (\<lambda>_. 0)(RSP := 0x7fff1238, RAX := 5), rip = 0x400000, rflags = 0x202,
     seg_cs = 8, seg_ss = 16, stk = (\<lambda>_. 0), world = 0\<rparr>"

definition demo_abi :: abi where
  "demo_abi = \<lparr>clob = (\<lambda>_. 0xdead), junk = (\<lambda>_. 0xcc), depth = 512\<rparr>"

definition demo_handler :: "nat c_handler" where
  "demo_handler tf w = Ret (tf\<lparr>tf_rip := tf_rip tf + 2\<rparr>, Suc w)"

theorem trap_refines_abstract_witness:
  "False = stub_expects_err 6 \<and>
   map_res (stk_update (\<lambda>_. stk demo_cpu)) (trap demo_handler demo_abi False 0 8 0x1000 6 demo_cpu) =
     Ret (demo_cpu\<lparr>rip := 0x400002, world := 1\<rparr>)"
proof -
  have e: "False = stub_expects_err 6" by (simp add: stub_expects_err_def)
  have g: "tf_gpr ((trapframe_of demo_cpu 6 0)\<lparr>tf_rip := x\<rparr>) = gpr demo_cpu" for x
  proof
    show "tf_gpr ((trapframe_of demo_cpu 6 0)\<lparr>tf_rip := x\<rparr>) r = gpr demo_cpu r" for r
      by (cases r) (simp_all add: trapframe_of_def)
  qed
  have "abstract_trap demo_handler 6 0 demo_cpu = Ret (demo_cpu\<lparr>rip := 0x400002, world := 1\<rparr>)"
    by (simp add: abstract_trap_def demo_handler_def resume_def g)
      (simp add: trapframe_of_def demo_cpu_def)
  then show ?thesis
    using e trap_refines_abstract [OF e, where c = demo_cpu and h = demo_handler and ab = demo_abi
        and err = 0 and sel = 8 and target = "0x1000"] by simp
qed

lemma above_frame:
  assumes "176 + d \<le> unat (t - 1 - a :: u64)"
  shows "d \<le> unat (t - 176 - 1 - a)" and "176 \<le> unat (a - (t - 176))"
proof -
  define x where "x = t - 1 - a"
  have e: "t - 176 - 1 - a = x - 176" "a - (t - 176) = 175 - x"
    by (simp_all add: x_def algebra_simps)
  have x: "176 + d \<le> unat x" "unat x < 2 ^ 64"
    using assms unsigned_less [of x] by (simp_all add: x_def)
  show "d \<le> unat (t - 176 - 1 - a)"
    unfolding e using x by (simp add: unat_sub_if' word_le_nat_alt)
  show "176 \<le> unat (a - (t - 176))"
    unfolding e using x by (simp add: unat_sub_if' word_le_nat_alt)
qed

lemma trap_stk_outside:
  assumes "has_err = stub_expects_err n"
    and "trap h ab has_err err sel target n c = Ret c'"
    and "176 + depth ab \<le> unat (stack_top c - 1 - a)"
  shows "stk c' a = stk c a"
  using assms(2) above_frame [OF assms(3)]
  by (cases "h (trapframe_of c n (seen_err n err)) (world c)")
    (auto simp: trap_eq [OF assms(1)] resume_def trap_stk_def tf_store_other scratch_def)

text \<open>C22: the path writes only the 176 bytes of the frame and the \<open>depth\<close> bytes the C++ code
  uses below it: every other byte of the interrupted program's memory is unchanged.\<close>

theorem trap_footprint:
  assumes "has_err = stub_expects_err n"
    and "trap h ab has_err err sel target n c = Ret c'"
    and "176 + depth ab \<le> unat (stack_top c - 1 - a)"
  shows "stk c' a = stk c a"
  using assms by (rule trap_stk_outside)

theorem trap_footprint_witness:
  "False = stub_expects_err 6 \<and>
   (\<exists>c'. trap demo_handler demo_abi False 0 8 0x1000 6 demo_cpu = Ret c' \<and>
     stk c' 0x7fff1230 = stk demo_cpu 0x7fff1230 \<and>
     176 + depth demo_abi \<le> unat (stack_top demo_cpu - 1 - 0x7fff1230))"
proof -
  have e: "False = stub_expects_err 6" by (simp add: stub_expects_err_def)
  have top: "stack_top demo_cpu = 0x7fff1230" by (simp add: stack_top_def demo_cpu_def)
  then have far: "176 + depth demo_abi \<le> unat (stack_top demo_cpu - 1 - 0x7fff1230)"
    by (simp add: demo_abi_def unsigned_minus_1_eq_mask mask_eq_exp_minus_1)
  obtain c' where "trap demo_handler demo_abi False 0 8 0x1000 6 demo_cpu = Ret c'"
    by (auto simp: trap_eq [OF e] demo_handler_def)
  then show ?thesis using e trap_footprint [OF e _ far] far by blast
qed

lemma trap_same_frame:
  assumes "has_err = stub_expects_err n"
    and "h (trapframe_of c n (seen_err n err)) (world c) =
      Ret (trapframe_of c n (seen_err n err), w')"
  shows "\<exists>m. trap h ab has_err err sel target n c = Ret (c\<lparr>stk := m, world := w'\<rparr>)"
proof -
  have "tf_gpr (trapframe_of c n e) r = gpr c r" for e r
    by (cases r) (simp_all add: trapframe_of_def)
  then have "tf_gpr (trapframe_of c n e) = gpr c" for e by (intro ext) simp
  then have "resume (trapframe_of c n e) w' m = c\<lparr>stk := m, world := w'\<rparr>" for m e
    by (intro cpu.equality) (simp_all add: resume_def, simp_all add: trapframe_of_def)
  then show ?thesis by (auto simp: trap_eq [OF assms(1)] assms(2))
qed

text \<open>An exception whose handler leaves the frame alone is transparent: registers,
  instruction pointer, flags and segments of the interrupted code are back, whatever the
  handler's compiled code did to the registers.\<close>

theorem trap_transparent:
  assumes "has_err = stub_expects_err n"
    and "h (trapframe_of c n (seen_err n err)) (world c) =
      Ret (trapframe_of c n (seen_err n err), w')"
  shows "\<exists>m. trap h ab has_err err sel target n c = Ret (c\<lparr>stk := m, world := w'\<rparr>)"
  using assms by (rule trap_same_frame)

theorem trap_transparent_witness:
  "True = stub_expects_err 14 \<and>
   (\<exists>m. trap (\<lambda>tf w. Ret (tf, Suc w)) demo_abi True 2 8 0x1000 14 demo_cpu =
      Ret (demo_cpu\<lparr>stk := m, world := 1\<rparr>))"
proof -
  have e: "True = stub_expects_err 14" by (simp add: stub_expects_err_def)
  show ?thesis
    using e trap_transparent [OF e, where h = "\<lambda>tf w. Ret (tf, Suc w)" and err = 2 and c = demo_cpu
        and w' = 1 and ab = demo_abi and sel = 8 and target = "0x1000"]
    by (simp add: demo_cpu_def)
qed

lemma exec_entry_stub_long:
  assumes "\<not> stub_expects_err n"
  shows "exec call (entry_stub n) (cpu_deliver True err sel target c) =
    Ret (c\<lparr>gpr := (gpr c)(RSP := stack_top c - 64), rip := target,
          rflags := rflags c AND NOT 0x14300, seg_cs := sel,
          stk := wr_list write64 (write64 (stk c) (stack_top c - 8) (seg_ss c)) (stack_top c - 64)
            [of_nat n, 0, err, rip c, seg_cs c, rflags c, gpr c RSP]\<rparr>,
         Goto Common)"
  using assms
  by (auto simp: entry_stub_def cpu_deliver_def push64_def Let_def intro!: cpu.equality)

lemma exec_entry_stub_short:
  assumes "stub_expects_err n"
  shows "\<exists>x. exec call (entry_stub n) (cpu_deliver False err sel target c) = Ret (x, Goto Common) \<and>
    gpr x = (gpr c)(RSP := stack_top c - 48)"
  using assms
  by (auto simp: entry_stub_def cpu_deliver_def push64_def Let_def)

lemma exec_common_call_any:
  "\<exists>c1. exec call common_exception_entry c =
     bind_res (call c1) (exec call (map Popq saved_regs @ [Addq 0x10 RSP, Iretq])) \<and>
     gpr c1 RSP = gpr c RSP - 120 \<and> gpr c1 RDI = gpr c RSP - 120"
  by (rule exI [of _ "c\<lparr>stk := wr_list write64 (stk c) (gpr c RSP - 120) (map (gpr c) saved_regs),
                        gpr := (gpr c)(RSP := gpr c RSP - 120, RDI := gpr c RSP - 120)\<rparr>"])
    (simp add: common_exception_entry_split exec_append [of _ "map Pushq (rev saved_regs)"]
        exec_pushes case_prod_beta' del: exec.simps(1))

lemma stack_top_offsets:
  "(stack_top c - 176) AND 15 = 0" "(stack_top c - 184) AND 15 = 8" "(stack_top c - 168) AND 15 = 8"
proof -
  have top: "stack_top c AND 15 = 0"
    by (rule bit_word_eqI) (simp add: stack_top_def bit_simps)
  have m: "(15 :: u64) = mask 4" by (simp add: mask_eq_decr_exp)
  have "(stack_top c - k) AND 15 = (- k) AND 15" for k
    using mask_eqs(3) [where a = "stack_top c" and n = 4 and b = k] top unfolding m by simp
  then show "(stack_top c - 176) AND 15 = 0" "(stack_top c - 184) AND 15 = 8"
    "(stack_top c - 168) AND 15 = 8" by simp_all
qed

text \<open>At the call of the C++ handler RDI points at the frame on top of the stack, and the
  stack has the 16-byte alignment the ABI requires of a call exactly when the stub agrees
  with the processor on the error code.\<close>

theorem handler_call_aligned:
  "\<exists>c1. run_entry call n (cpu_deliver has_err err sel target c) =
      bind_res (call c1) (exec call (map Popq saved_regs @ [Addq 0x10 RSP, Iretq])) \<and>
    gpr c1 RDI = gpr c1 RSP \<and>
    (gpr c1 RSP AND 15 = 0 \<longleftrightarrow> has_err = stub_expects_err n)"
proof -
  obtain x q where x: "exec call (entry_stub n) (cpu_deliver has_err err sel target c) =
      Ret (x, Goto Common)" "gpr x RSP = stack_top c - q"
    and q: "q = (if has_err = stub_expects_err n then 56 else if has_err then 64 else 48)"
  proof (cases "has_err = stub_expects_err n")
    case True
    then show ?thesis using exec_entry_stub [OF True, of call err sel target c] that by auto
  next
    case False
    then show ?thesis
      using exec_entry_stub_long [of n call err sel target c]
        exec_entry_stub_short [of n call err sel target c] that
      by (cases has_err) auto
  qed
  obtain c1 where "exec call common_exception_entry x =
      bind_res (call c1) (exec call (map Popq saved_regs @ [Addq 0x10 RSP, Iretq]))"
    "gpr c1 RSP = stack_top c - q - 120" "gpr c1 RDI = stack_top c - q - 120"
    using exec_common_call_any [of call x] x(2) by auto
  moreover have "(stack_top c - q - 120) AND 15 = 0 \<longleftrightarrow> has_err = stub_expects_err n"
    using stack_top_offsets [of c] by (simp add: q)
  ultimately show ?thesis by (intro exI [of _ c1]) (simp add: run_entry_def x(1))
qed

text \<open>If the processor pushes an error code for a vector whose stub pushes its own zero, the
  handler is called with a frame shifted by one cell, whatever the handler is.\<close>

definition shifted_frame :: "'w cpu \<Rightarrow> nat \<Rightarrow> u64 \<Rightarrow> trapframe" where
  "shifted_frame c n err = (trapframe_of c n 0)\<lparr>tf_rip := err, tf_cs := rip c, tf_rflags := seg_cs c,
     tf_rsp := rflags c, tf_ss := gpr c RSP\<rparr>"

lemma extra_error_code_frame:
  fixes c :: "'w cpu"
  assumes "\<not> stub_expects_err n"
  shows "\<exists>k. \<forall>h :: 'w c_handler. trap h ab True err sel target n c =
    bind_res (h (shifted_frame c n err) (world c)) k"
proof -
  let ?tail = "[of_nat n, 0, err, rip c, seg_cs c, rflags c, gpr c RSP]"
  let ?tf = "shifted_frame c n err"
  let ?m = "write64 (stk c) (stack_top c - 8) (seg_ss c)"
  let ?k = "\<lambda>(tf', w'). Ret (resume tf' w' (tf_store (scratch ab (stack_top c - 184)
          (tf_store ?m (stack_top c - 184) ?tf)) (stack_top c - 184) tf'))"
  have "trap h ab True err sel target n c = bind_res (h ?tf (world c)) ?k" for h :: "'w c_handler"
  proof -
    obtain x where x: "exec (call_c h ab) (entry_stub n) (cpu_deliver True err sel target c) =
        Ret (x, Goto Common)"
      and xs: "gpr x = (gpr c)(RSP := stack_top c - 64)"
        "stk x = wr_list write64 ?m (stack_top c - 64) ?tail" "world x = world c"
      using exec_entry_stub_long [OF assms, of "call_c h ab" err sel target c] by simp
    have tf: "frame_seen x ?tail = ?tf"
      by (simp add: shifted_frame_def frame_seen_def xs saved_regs_def tf_of_list_def trapframe_of_def)
    show ?thesis
      using exec_common [of x "stack_top c - 64" ?m ?tail h ab] xs
      by (cases "h ?tf (world c)"; simp add: trap_def run_entry_def x tf case_prod_beta)
  qed
  then show ?thesis by blast
qed

text \<open>C34: the path uses the interrupted code's own stack.  When it returns, the 22 cells below
  the (aligned) stack pointer hold the trap frame; these include the 128-byte red zone in
  which the ABI lets a leaf function keep locals.\<close>

theorem frame_left_below_stack_pointer:
  assumes "has_err = stub_expects_err n"
    and "h (trapframe_of c n (seen_err n err)) (world c) = Ret (tf', w')"
    and "i < 22"
  shows "\<exists>c'. trap h ab has_err err sel target n c = Ret c' \<and>
    read64 (stk c') (stack_top c - 8 * of_nat (22 - i)) = tf_to_list tf' ! i"
proof -
  have "stack_top c - 8 * of_nat (22 - i) = frame_base c + 8 * of_nat i"
    using assms(3) by (simp add: algebra_simps)
  then show ?thesis
    using rd_tf_store [OF assms(3), of _ "frame_base c" tf'] assms(1,2)
    by (simp only: trap_eq bind_res.simps prod.case) (simp add: resume_def trap_stk_def)
qed

theorem frame_left_below_stack_pointer_witness:
  "(21 :: nat) < 22 \<and> (\<exists>c'. trap demo_handler demo_abi False 0 8 0x1000 6 demo_cpu = Ret c' \<and>
     read64 (stk c') 0x7fff1228 = 16)"
proof -
  have e: "False = stub_expects_err 6" by (simp add: stub_expects_err_def)
  have h: "demo_handler (trapframe_of demo_cpu 6 (seen_err 6 0)) (world demo_cpu) =
      Ret ((trapframe_of demo_cpu 6 0)\<lparr>tf_rip := 0x400002\<rparr>, 1)"
    by (simp add: demo_handler_def) (simp add: trapframe_of_def demo_cpu_def)
  have t: "stack_top demo_cpu = 0x7fff1230" by (simp add: stack_top_def demo_cpu_def)
  show ?thesis
    using frame_left_below_stack_pointer [where i = 21 and ab = demo_abi and sel = 8
        and target = "0x1000", OF e, of demo_handler demo_cpu 0, OF h]
    by (simp add: t tf_to_list_def) (simp add: trapframe_of_def demo_cpu_def)
qed

end
