(* ===== verification/Signal.thy ===== *)
theory Signal
  imports TrapEntry
begin

text \<open>
  The interrupt descriptor table and the handler registration of
  \<open>server/exception/exception_p_enclave/Enclave/signal.h\<close>: the bit-field struct
  \<open>gatedesc\<close>, the \<open>SETGATE\<close> macro, \<open>lidt\<close>, \<open>init_exception\<close>,
  \<open>sgx_register_fast_exception_handler\<close> and \<open>common_exception_handler\<close>.

  The table lives in the enclave's memory as the compiler lays the bit-fields out; the
  processor's side (\<open>hw_gate\<close>, \<open>hw_vector\<close>) decodes it by the documented format of a
  64-bit gate.  The lemmas show that the processor reads back what the code put there, so
  that each vector reaches its own stub.
\<close>

section \<open>Gate descriptors\<close>

record gatedesc =
  off_15_0 :: u16
  gd_cs :: u16
  ist :: "3 word"
  gd_rsv0 :: "5 word"
  gd_type :: "4 word"
  gd_s :: "1 word"
  dpl :: "2 word"
  gd_p :: "1 word"
  off_31_16 :: u16
  off_63_32 :: u32
  gd_rsv1 :: u32

definition CS_SEL :: u16 where
  "CS_SEL = push_bit 3 1"

text \<open>\<open>off\<close> is a signed 64-bit integer in the source: its right shifts are arithmetic.\<close>

definition SETGATE :: "u16 \<Rightarrow> u64 \<Rightarrow> gatedesc" where
  "SETGATE sel off =
     \<lparr>off_15_0 = ucast ((ucast off :: u32) AND 0xffff),
      gd_cs = sel,
      ist = 0,
      gd_rsv0 = 0,
      gd_type = 0b1110,
      gd_s = 0,
      dpl = 0,
      gd_p = 1,
      off_31_16 = ucast (signed_drop_bit 16 off),
      off_63_32 = ucast (signed_drop_bit 32 off),
      gd_rsv1 = 0\<rparr>"

text \<open>The struct in memory: bit-fields are allocated from the least significant bit up.\<close>

definition gate_qwords :: "gatedesc \<Rightarrow> u64 list" where
  "gate_qwords g =
     [ucast (off_15_0 g) OR push_bit 16 (ucast (gd_cs g)) OR push_bit 32 (ucast (ist g)) OR
      push_bit 35 (ucast (gd_rsv0 g)) OR push_bit 40 (ucast (gd_type g)) OR
      push_bit 44 (ucast (gd_s g)) OR push_bit 45 (ucast (dpl g)) OR
      push_bit 47 (ucast (gd_p g)) OR push_bit 48 (ucast (off_31_16 g)),
      ucast (off_63_32 g) OR push_bit 32 (ucast (gd_rsv1 g))]"

text \<open>What the processor reads from the two halves of a gate.\<close>

record hw_gate =
  hw_offset :: u64
  hw_sel :: u64
  hw_ist :: u64
  hw_type :: u64
  hw_dpl :: u64
  hw_present :: bool

definition hw_decode :: "u64 \<Rightarrow> u64 \<Rightarrow> hw_gate" where
  "hw_decode lo hi =
     \<lparr>hw_offset = (lo AND 0xffff) OR push_bit 16 (drop_bit 48 lo) OR push_bit 32 (hi AND 0xffffffff),
      hw_sel = drop_bit 16 lo AND 0xffff,
      hw_ist = drop_bit 32 lo AND 7,
      hw_type = drop_bit 40 lo AND 0xf,
      hw_dpl = drop_bit 45 lo AND 3,
      hw_present = bit lo 47\<rparr>"

section \<open>lidt and init\_exception\<close>

record idtr =
  idt_limit :: u16
  idt_base :: u64

text \<open>The ten bytes \<open>lidt\<close> builds, and the processor's reading of them.\<close>

definition lidt_pd :: "u64 \<Rightarrow> u64 \<Rightarrow> u16 list" where
  "lidt_pd p sz =
     [ucast (sz - 1), ucast p, ucast (drop_bit 16 p), ucast (drop_bit 32 p), ucast (drop_bit 48 p)]"

definition hw_lidt :: "u16 list \<Rightarrow> idtr" where
  "hw_lidt pd =
     \<lparr>idt_limit = pd ! 0,
      idt_base = ucast (pd ! 1) OR push_bit 16 (ucast (pd ! 2)) OR
        push_bit 32 (ucast (pd ! 3)) OR push_bit 48 (ucast (pd ! 4))\<rparr>"

definition lidt :: "u64 \<Rightarrow> u64 \<Rightarrow> idtr" where
  "lidt p sz = hw_lidt (lidt_pd p sz)"

text \<open>
  \<open>exception_entries\<close> is the table of stub addresses the linker fills in; \<open>idt_addr\<close> is
  the address of the global array \<open>idt\<close>.  The loop assigns every field of every gate.
\<close>

primrec fill_idt :: "(nat \<Rightarrow> u64) \<Rightarrow> nat \<Rightarrow> gatedesc list \<Rightarrow> gatedesc list" where
  "fill_idt entries 0 idt = idt"
| "fill_idt entries (Suc i) idt = (fill_idt entries i idt)[i := SETGATE CS_SEL (entries i)]"

definition idt_bytes :: "memory \<Rightarrow> u64 \<Rightarrow> gatedesc list \<Rightarrow> memory" where
  "idt_bytes m a idt = wr_list write64 m a (concat (map gate_qwords idt))"

definition init_exception ::
  "(nat \<Rightarrow> u64) \<Rightarrow> u64 \<Rightarrow> gatedesc list \<Rightarrow> memory \<Rightarrow> memory \<times> idtr" where
  "init_exception entries idt_addr idt m =
     (idt_bytes m idt_addr (fill_idt entries 256 idt), lidt idt_addr (16 * 256))"

section \<open>The handler\<close>

text \<open>
  \<open>g_handler\<close> is a function pointer, \<open>None\<close> for NULL; \<open>ret\<close> is the caller's way of
  returning normally.
\<close>

definition sgx_register_fast_exception_handler :: "'h \<Rightarrow> 'h option" where
  "sgx_register_fast_exception_handler h = Some h"

definition common_exception_handler ::
  "(trapframe \<times> 'w \<Rightarrow> 'r) \<Rightarrow> (trapframe \<Rightarrow> 'w \<Rightarrow> 'r) option \<Rightarrow> trapframe \<Rightarrow> 'w \<Rightarrow> 'r" where
  "common_exception_handler ret g_handler tf w =
     (case g_handler of None \<Rightarrow> ret (tf, w) | Some h \<Rightarrow> h tf w)"

section \<open>Delivery through the table\<close>

text \<open>
  The processor's lookup of a vector: outside the limit, not present or not an interrupt
  gate is a fault (\<open>None\<close>).
\<close>

definition hw_vector :: "memory \<Rightarrow> idtr \<Rightarrow> nat \<Rightarrow> hw_gate option" where
  "hw_vector m r v =
     (if unat (idt_limit r) < 16 * v + 15 then None
      else let g = hw_decode (read64 m (idt_base r + 16 * of_nat v))
                     (read64 m (idt_base r + 16 * of_nat v + 8))
           in if hw_present g \<and> hw_type g = 14 then Some g else None)"

text \<open>The stub whose code is at an address.\<close>

definition entry_label :: "(nat \<Rightarrow> u64) \<Rightarrow> u64 \<Rightarrow> nat option" where
  "entry_label entries a = find (\<lambda>i. entries i = a) [0..<256]"

definition raise_vector ::
  "(nat \<Rightarrow> u64) \<Rightarrow> 'w c_handler \<Rightarrow> abi \<Rightarrow> (nat \<Rightarrow> bool) \<Rightarrow> u64 \<Rightarrow> idtr \<Rightarrow> nat \<Rightarrow> 'w cpu \<Rightarrow>
     'w cpu res option" where
  "raise_vector entries h ab has_err err r v c =
     Option.bind (hw_vector (stk c) r v) (\<lambda>g.
     Option.bind (entry_label entries (hw_offset g)) (\<lambda>n.
       Some (trap h ab (has_err v) err (hw_sel g) (hw_offset g) n c)))"

section \<open>Gates read back\<close>

text \<open>Which field of the struct a bit of the first half belongs to.\<close>

lemma bit_beyond: "LENGTH('a) \<le> n \<Longrightarrow> \<not> bit (x :: 'a::len word) n"
  by (auto dest: bit_imp_le_length)

lemma bit_gate_lo:
  shows "n < 16 \<Longrightarrow> bit (gate_qwords g ! 0) n = bit (off_15_0 g) n"
    and "16 \<le> n \<Longrightarrow> n < 32 \<Longrightarrow> bit (gate_qwords g ! 0) n = bit (gd_cs g) (n - 16)"
    and "32 \<le> n \<Longrightarrow> n < 35 \<Longrightarrow> bit (gate_qwords g ! 0) n = bit (ist g) (n - 32)"
    and "40 \<le> n \<Longrightarrow> n < 44 \<Longrightarrow> bit (gate_qwords g ! 0) n = bit (gd_type g) (n - 40)"
    and "45 \<le> n \<Longrightarrow> n < 47 \<Longrightarrow> bit (gate_qwords g ! 0) n = bit (dpl g) (n - 45)"
    and "bit (gate_qwords g ! 0) 47 = bit (gd_p g) 0"
    and "48 \<le> n \<Longrightarrow> n < 64 \<Longrightarrow> bit (gate_qwords g ! 0) n = bit (off_31_16 g) (n - 48)"
  by (auto simp: gate_qwords_def bit_simps bit_beyond)

lemma bit_gate_hi:
  "n < 32 \<Longrightarrow> bit (gate_qwords g ! Suc 0) n = bit (off_63_32 g) n"
  by (simp add: gate_qwords_def bit_simps)

lemma and_mask_u64:
  "(x :: u64) AND 0xffff = take_bit 16 x" "x AND 0xffffffff = take_bit 32 x"
  "x AND 7 = take_bit 3 x" "x AND 0xf = take_bit 4 x" "x AND 3 = take_bit 2 x"
  by (simp_all add: take_bit_eq_mask mask_eq_exp_minus_1)

lemma bit_hw_offset:
  assumes "n < 64"
  shows "bit (hw_offset (hw_decode lo hi)) n =
    (if n < 16 then bit lo n else if n < 32 then bit lo (n + 32) else bit hi (n - 32))"
  using assms by (auto simp: hw_decode_def and_mask_u64 bit_simps bit_beyond algebra_simps)

lemma SETGATE_offset:
  "hw_offset (hw_decode (gate_qwords (SETGATE sel off) ! 0) (gate_qwords (SETGATE sel off) ! Suc 0)) = off"
proof (rule bit_word_eqI)
  fix n assume "n < LENGTH(64)"
  then have n: "n < 64" by simp
  have m: "(0xffff :: u32) = mask 16" by (simp add: mask_eq_exp_minus_1)
  show "bit (hw_offset (hw_decode (gate_qwords (SETGATE sel off) ! 0)
      (gate_qwords (SETGATE sel off) ! Suc 0))) n = bit off n"
    using n by (simp add: bit_hw_offset bit_gate_lo bit_gate_hi)
      (auto simp: SETGATE_def m bit_simps)
qed

lemma hw_decode_SETGATE:
  "hw_decode (gate_qwords (SETGATE sel off) ! 0) (gate_qwords (SETGATE sel off) ! Suc 0) =
     \<lparr>hw_offset = off, hw_sel = ucast sel, hw_ist = 0, hw_type = 14, hw_dpl = 0,
      hw_present = True\<rparr>"
proof -
  let ?lo = "gate_qwords (SETGATE sel off) ! 0"
  have "drop_bit 16 ?lo AND 0xffff = ucast (gd_cs (SETGATE sel off))"
  proof (rule bit_word_eqI)
    fix n
    show "bit (drop_bit 16 ?lo AND 0xffff) n = bit (ucast (gd_cs (SETGATE sel off)) :: u64) n"
      by (cases "n < 16") (simp_all add: and_mask_u64 bit_simps bit_gate_lo bit_beyond)
  qed
  then have sel: "drop_bit 16 ?lo AND 0xffff = ucast sel" by (simp add: SETGATE_def)
  have ist: "drop_bit 32 ?lo AND 7 = 0"
    by (rule bit_word_eqI) (auto simp: and_mask_u64 bit_simps bit_gate_lo, simp add: SETGATE_def)
  have "drop_bit 40 ?lo AND 0xf = ucast (gd_type (SETGATE sel off))"
  proof (rule bit_word_eqI)
    fix n
    show "bit (drop_bit 40 ?lo AND 0xf) n = bit (ucast (gd_type (SETGATE sel off)) :: u64) n"
      by (cases "n < 4") (simp_all add: and_mask_u64 bit_simps bit_gate_lo bit_beyond)
  qed
  then have type: "drop_bit 40 ?lo AND 0xf = 14" by (simp add: SETGATE_def)
  have dpl: "drop_bit 45 ?lo AND 3 = 0"
    by (rule bit_word_eqI) (auto simp: and_mask_u64 bit_simps bit_gate_lo, simp add: SETGATE_def)
  have "bit ?lo 47" by (simp add: bit_gate_lo) (simp add: SETGATE_def)
  then show ?thesis
    using SETGATE_offset [of sel off] sel ist type dpl by (simp add: hw_decode_def)
qed

text \<open>C24: the processor decodes a gate written by \<open>SETGATE\<close> as a present interrupt gate of
  privilege level 0, on the current stack, with the given selector and, for every 64-bit
  offset, that offset.\<close>

theorem SETGATE_decodes:
  "hw_decode (gate_qwords (SETGATE sel off) ! 0) (gate_qwords (SETGATE sel off) ! Suc 0) =
     \<lparr>hw_offset = off, hw_sel = ucast sel, hw_ist = 0, hw_type = 14, hw_dpl = 0,
      hw_present = True\<rparr>"
  by (rule hw_decode_SETGATE)

section \<open>The table in memory\<close>

lemma length_fill_idt [simp]: "length (fill_idt entries n idt) = length idt"
  by (induction n) simp_all

lemma nth_fill_idt:
  "i < n \<Longrightarrow> n \<le> length idt \<Longrightarrow> fill_idt entries n idt ! i = SETGATE CS_SEL (entries i)"
  by (induction n) (auto simp: nth_list_update less_Suc_eq)

lemma length_gate_qwords [simp]: "length (gate_qwords g) = 2"
  by (simp add: gate_qwords_def)

lemma length_concat_gates [simp]: "length (concat (map gate_qwords idt)) = 2 * length idt"
  by (induction idt) simp_all

lemma nth_concat_gates:
  assumes "i < length idt"
  shows "concat (map gate_qwords idt) ! (2 * i) = gate_qwords (idt ! i) ! 0"
    and "concat (map gate_qwords idt) ! Suc (2 * i) = gate_qwords (idt ! i) ! Suc 0"
  using assms by (induction idt arbitrary: i) (auto simp: nth_append less_Suc_eq_0_disj)

lemma lidt_eq: "lidt p sz = \<lparr>idt_limit = ucast (sz - 1), idt_base = p\<rparr>"
proof -
  have "idt_base (lidt p sz) = ucast (ucast p :: u16) OR push_bit 16 (ucast (ucast (drop_bit 16 p) :: u16)) OR
      push_bit 32 (ucast (ucast (drop_bit 32 p) :: u16)) OR
      push_bit 48 (ucast (ucast (drop_bit 48 p) :: u16))"
    by (simp add: lidt_def hw_lidt_def lidt_pd_def)
  also have "\<dots> = p"
  proof (rule bit_word_eqI)
    fix n assume "n < LENGTH(64)"
    then consider "n < 16" | "16 \<le> n" "n < 32" | "32 \<le> n" "n < 48" | "48 \<le> n" "n < 64"
      by fastforce
    then show "bit (ucast (ucast p :: u16) OR push_bit 16 (ucast (ucast (drop_bit 16 p) :: u16)) OR
        push_bit 32 (ucast (ucast (drop_bit 32 p) :: u16)) OR
        push_bit 48 (ucast (ucast (drop_bit 48 p) :: u16)) :: u64) n = bit p n"
      by cases (auto simp: bit_simps)
  qed
  finally have "idt_base (lidt p sz) = p" .
  then show ?thesis by (simp add: lidt_def hw_lidt_def lidt_pd_def)
qed

lemma read_idt_bytes:
  assumes "v < length idt" "16 * length idt \<le> 2 ^ 64"
  shows "read64 (idt_bytes m a idt) (a + 16 * of_nat v) = gate_qwords (idt ! v) ! 0"
    and "read64 (idt_bytes m a idt) (a + 16 * of_nat v + 8) = gate_qwords (idt ! v) ! Suc 0"
proof -
  have "read64 (idt_bytes m a idt) (a + 8 * of_nat k) = concat (map gate_qwords idt) ! k"
    if "k < 2 * length idt" for k
    unfolding idt_bytes_def using that assms(2) by (intro byte_mem.rd_wr_list_in) simp_all
  from this [of "2 * v"] this [of "Suc (2 * v)"] nth_concat_gates [of v idt] assms
  show "read64 (idt_bytes m a idt) (a + 16 * of_nat v) = gate_qwords (idt ! v) ! 0"
    and "read64 (idt_bytes m a idt) (a + 16 * of_nat v + 8) = gate_qwords (idt ! v) ! Suc 0"
    by (simp_all add: algebra_simps)
qed

lemma hw_vector_init:
  assumes "init_exception entries p idt m = (m', r)" "length idt = 256" "v < 256"
  shows "hw_vector m' r v =
    Some \<lparr>hw_offset = entries v, hw_sel = 8, hw_ist = 0, hw_type = 14, hw_dpl = 0,
          hw_present = True\<rparr>"
proof -
  have r: "r = \<lparr>idt_limit = 4095, idt_base = p\<rparr>"
    and m': "m' = idt_bytes m p (fill_idt entries 256 idt)"
    using assms(1) by (simp_all add: init_exception_def lidt_eq)
  have cs: "(ucast CS_SEL :: u64) = 8" by (simp add: CS_SEL_def)
  show ?thesis
    using assms(2,3) read_idt_bytes [of v "fill_idt entries 256 idt" m p]
    by (simp add: hw_vector_def r m' nth_fill_idt hw_decode_SETGATE [simplified] cs)
qed

lemma entry_label_inj:
  assumes "inj_on entries {..<256}" "v < 256"
  shows "entry_label entries (entries v) = Some v"
proof -
  have "entries i = entries v \<longleftrightarrow> i = v" if "i < 256" for i
    using assms that by (auto dest: inj_onD)
  then have "find (\<lambda>i. entries i = entries v) [0..<256] = find (\<lambda>i. i = v) [0..<256]"
    by (intro find_cong) auto
  also have "\<dots> = Some v"
  proof -
    have nth: "[0..<256] ! j = j" if "j \<le> v" for j using assms(2) that by simp
    have "v < length [0..<256] \<and> [0..<256] ! v = v \<and> v = [0..<256] ! v \<and>
        (\<forall>j<v. [0..<256] ! j \<noteq> v)"
      using assms(2) by (simp only: nth) (simp add: nth)
    then show ?thesis unfolding find_Some_iff by blast
  qed
  finally show ?thesis by (simp add: entry_label_def)
qed

text \<open>C13: once \<open>init_exception\<close> has run, each of the 256 vectors is delivered through the table
  to its own stub, with the selector of the code segment.\<close>

theorem init_exception_dispatch:
  assumes "init_exception entries p idt m = (stk c, r)" "length idt = 256"
    and "inj_on entries {..<256}" "v < 256"
  shows "raise_vector entries h ab has_err err r v c =
    Some (trap h ab (has_err v) err 8 (entries v) v c)"
  using hw_vector_init [OF assms(1,2,4)] entry_label_inj [OF assms(3,4)]
  by (simp add: raise_vector_def)

text \<open>A concrete table for the witnesses.\<close>

definition demo_entries :: "nat \<Rightarrow> u64" where
  "demo_entries i = 0x401000 + 16 * of_nat i"

definition demo_idt_cpu :: "nat cpu" where
  "demo_idt_cpu = demo_cpu\<lparr>stk := fst (init_exception demo_entries 0x600000
     (replicate 256 (SETGATE 0 0)) (\<lambda>_. 0))\<rparr>"

lemma inj_demo_entries: "inj_on demo_entries {..<256}"
proof (rule inj_onI)
  fix i j assume ij: "i \<in> {..<256}" "j \<in> {..<256}" and eq: "demo_entries i = demo_entries j"
  have "unat (8 * of_nat (2 * k) :: u64) = 8 * (2 * k)" if "k < 256" for k
    using that by (intro unat_mult8) simp
  moreover have "(8 * of_nat (2 * i) :: u64) = 8 * of_nat (2 * j)"
    using eq by (simp add: demo_entries_def)
  ultimately have "8 * (2 * i) = 8 * (2 * j)" using ij by (metis lessThan_iff)
  then show "i = j" by simp
qed

theorem init_exception_dispatch_witness:
  "inj_on demo_entries {..<256} \<and>
   raise_vector demo_entries demo_handler demo_abi stub_expects_err 0
     \<lparr>idt_limit = 4095, idt_base = 0x600000\<rparr> 6 demo_idt_cpu =
   Some (trap demo_handler demo_abi False 0 8 0x401060 6 demo_idt_cpu)"
proof -
  have i: "init_exception demo_entries 0x600000 (replicate 256 (SETGATE 0 0)) (\<lambda>_. 0) =
      (stk demo_idt_cpu, \<lparr>idt_limit = 4095, idt_base = 0x600000\<rparr>)"
    by (simp add: demo_idt_cpu_def init_exception_def lidt_eq)
  have v: "(6 :: nat) < 256" "length (replicate 256 (SETGATE 0 0)) = (256 :: nat)" by simp_all
  have "\<not> stub_expects_err 6" "demo_entries 6 = 0x401060"
    by (simp_all add: stub_expects_err_def demo_entries_def)
  then show ?thesis
    using init_exception_dispatch [OF i v(2) inj_demo_entries v(1), where h = demo_handler
        and ab = demo_abi and has_err = stub_expects_err and err = 0] inj_demo_entries
    by simp
qed

text \<open>The table is its 4096 bytes.\<close>

lemma hw_vector_cong:
  assumes "\<And>k. k < 4096 \<Longrightarrow> m' (idt_base r + of_nat k) = m (idt_base r + of_nat k)" and "v < 256"
  shows "hw_vector m' r v = hw_vector m r v"
proof -
  have "read64 m' (idt_base r + of_nat j) = read64 m (idt_base r + of_nat j)"
    if "j + 8 \<le> 4096" for j
    by (rule read64_cong) (use assms(1) [of "j + _"] that in \<open>simp add: algebra_simps\<close>)
  from this [of "16 * v"] this [of "16 * v + 8"] assms(2)
  show ?thesis by (simp add: hw_vector_def algebra_simps)
qed

text \<open>A trap leaves the table intact: if the stack the path uses stays clear of its 4096
  bytes, every vector is looked up as before.\<close>

theorem idt_survives_trap:
  assumes "has_err = stub_expects_err n"
    and "trap h ab has_err err sel target n c = Ret c'"
    and "\<forall>k<4096. 176 + depth ab \<le> unat (stack_top c - 1 - (idt_base r + of_nat k))"
    and "v < 256"
  shows "hw_vector (stk c') r v = hw_vector (stk c) r v"
  using trap_stk_outside [OF assms(1,2)] assms(3) by (intro hw_vector_cong assms(4)) blast

theorem idt_survives_trap_witness:
  "\<exists>c'. trap demo_handler demo_abi False 0 8 0x401060 6 demo_idt_cpu = Ret c' \<and>
     hw_vector (stk c') \<lparr>idt_limit = 4095, idt_base = 0x600000\<rparr> 14 =
     Some \<lparr>hw_offset = demo_entries 14, hw_sel = 8, hw_ist = 0, hw_type = 14, hw_dpl = 0,
          hw_present = True\<rparr>"
proof -
  let ?r = "\<lparr>idt_limit = 4095, idt_base = 0x600000\<rparr>"
  have e: "False = stub_expects_err 6" by (simp add: stub_expects_err_def)
  have top: "stack_top demo_idt_cpu = 0x7fff1230"
    by (simp add: stack_top_def demo_idt_cpu_def demo_cpu_def)
  have far: "\<forall>k<4096. 176 + depth demo_abi \<le>
      unat (stack_top demo_idt_cpu - 1 - (idt_base ?r + of_nat k))"
  proof (intro allI impI)
    fix k :: nat assume k: "k < 4096"
    then have u: "unat (of_nat k :: u64) = k" by (simp add: unat_of_nat)
    have "stack_top demo_idt_cpu - 1 - (idt_base ?r + of_nat k) = 0x7f9f122f - of_nat k"
      by (simp add: top)
    then show "176 + depth demo_abi \<le> unat (stack_top demo_idt_cpu - 1 - (idt_base ?r + of_nat k))"
      using k by (simp add: demo_abi_def unat_sub_if' word_le_nat_alt u)
  qed
  have i: "init_exception demo_entries 0x600000 (replicate 256 (SETGATE 0 0)) (\<lambda>_. 0) =
      (stk demo_idt_cpu, ?r)"
    by (simp add: demo_idt_cpu_def init_exception_def lidt_eq)
  obtain c' where c': "trap demo_handler demo_abi False 0 8 0x401060 6 demo_idt_cpu = Ret c'"
    by (auto simp: trap_eq [OF e] demo_handler_def)
  have "hw_vector (stk c') ?r 14 = hw_vector (stk demo_idt_cpu) ?r 14"
    by (rule idt_survives_trap [OF e c' far]) simp
  then show ?thesis using c' hw_vector_init [OF i, of 14] by simp
qed

end
