(* ===== verification/Paging.thy ===== *)
theory Paging
  imports Prelude
begin

text \<open>
  The page-table code of \<open>server/exception/exception_p_enclave/Enclave/paging.h\<close>: the entry
  and index macros, \<open>next_table\<close>, the four-level walk \<open>get_entry\<close>, \<open>mprotect_page\<close> and
  \<open>mprotect\<close>, beside the processor's own walk and its TLB.

  The state is physical memory, the control registers, the TLB and the cached CR3.  The
  enclave reads page tables through a linear window of physical memory at
  \<open>PHYS_OFFSET\<close>, set up by the monitor: a pointer into the window is dereferenced at its
  address minus that offset.  Pointers are 64-bit words, NULL is 0, and \<open>abort()\<close> is
  \<open>Aborted\<close>.
\<close>

section \<open>Constants and macros\<close>

definition PHYS_OFFSET :: u64 where "PHYS_OFFSET = 0xffff800000000000"

definition PGSIZE :: u64 where "PGSIZE = 4096"

definition PGROUNDUP :: "u64 \<Rightarrow> u64" where
  "PGROUNDUP sz = (sz + PGSIZE - 1) AND NOT (PGSIZE - 1)"

definition PGROUNDDOWN :: "u64 \<Rightarrow> u64" where
  "PGROUNDDOWN a = a AND NOT (PGSIZE - 1)"

definition PTE_P :: u64 where "PTE_P = 0x001"
definition PTE_W :: u64 where "PTE_W = 0x002"
definition PTE_U :: u64 where "PTE_U = 0x004"
definition PTE_PWT :: u64 where "PTE_PWT = 0x008"
definition PTE_PCD :: u64 where "PTE_PCD = 0x010"
definition PTE_A :: u64 where "PTE_A = 0x020"
definition PTE_D :: u64 where "PTE_D = 0x040"
definition PTE_PS :: u64 where "PTE_PS = 0x080"
definition PTE_G :: u64 where "PTE_G = 0x100"
definition PTE_NX :: u64 where "PTE_NX = push_bit 63 1"

definition P4_IDX :: "u64 \<Rightarrow> u64" where "P4_IDX v = drop_bit 39 v AND 0x1ff"
definition P3_IDX :: "u64 \<Rightarrow> u64" where "P3_IDX v = drop_bit 30 v AND 0x1ff"
definition P2_IDX :: "u64 \<Rightarrow> u64" where "P2_IDX v = drop_bit 21 v AND 0x1ff"
definition P1_IDX :: "u64 \<Rightarrow> u64" where "P1_IDX v = drop_bit 12 v AND 0x1ff"

definition PTE_ADDR :: "u64 \<Rightarrow> u64" where "PTE_ADDR pte = pte AND 0xFFFFFFFFF000"
definition PTE_FLAGS :: "u64 \<Rightarrow> u64" where "PTE_FLAGS pte = pte AND NOT 0xFFFFFFFFF000"

section \<open>State\<close>

text \<open>The TLB maps a page number to the frame and the write permission it caches.\<close>

record mmu =
  pmem :: memory
  cr2 :: u64
  cr3 :: u64
  tlb :: "u64 \<Rightarrow> (u64 \<times> bool) option"
  g_cached_cr3 :: u64

definition vpn :: "u64 \<Rightarrow> u64" where "vpn v = drop_bit 12 v"

definition read_cr2 :: "'a mmu_scheme \<Rightarrow> u64" where "read_cr2 s = cr2 s"

definition read_cr3 :: "'a mmu_scheme \<Rightarrow> u64" where "read_cr3 s = cr3 s"

text \<open>Loading CR3 flushes the TLB.\<close>

definition write_cr3 :: "u64 \<Rightarrow> 'a mmu_scheme \<Rightarrow> 'a mmu_scheme" where
  "write_cr3 v s = s\<lparr>cr3 := v, tlb := Map.empty\<rparr>"

definition cache_cr3 :: "u64 \<Rightarrow> 'a mmu_scheme \<Rightarrow> 'a mmu_scheme" where
  "cache_cr3 c s = s\<lparr>g_cached_cr3 := c\<rparr>"

definition phys_to_virt :: "u64 \<Rightarrow> u64" where
  "phys_to_virt paddr = paddr + PHYS_OFFSET"

text \<open>\<open>*p\<close> and \<open>*p = v\<close> for a \<open>pte_t*\<close> into the window.\<close>

definition deref :: "'a mmu_scheme \<Rightarrow> u64 \<Rightarrow> u64" where
  "deref s p = read64 (pmem s) (p - PHYS_OFFSET)"

definition assign :: "'a mmu_scheme \<Rightarrow> u64 \<Rightarrow> u64 \<Rightarrow> 'a mmu_scheme" where
  "assign s p v = s\<lparr>pmem := write64 (pmem s) (p - PHYS_OFFSET) v\<rparr>"

definition invlpg :: "u64 \<Rightarrow> 'a mmu_scheme \<Rightarrow> 'a mmu_scheme" where
  "invlpg v s = s\<lparr>tlb := (tlb s)(vpn v := None)\<rparr>"

section \<open>The code's walk and mprotect\<close>

definition next_table :: "u64 \<Rightarrow> u64 res" where
  "next_table pte =
     (if pte AND PTE_P = 0 then Ret 0
      else if pte AND PTE_PS \<noteq> 0 then Aborted
      else Ret (phys_to_virt (PTE_ADDR pte)))"

definition get_entry :: "'a mmu_scheme \<Rightarrow> u64 \<Rightarrow> u64 res" where
  "get_entry s vaddr =
     (let p4 = phys_to_virt (g_cached_cr3 s);
          p4e = deref s (p4 + 8 * P4_IDX vaddr)
      in bind_res (next_table p4e) (\<lambda>p3.
         if p3 = 0 then Ret 0
         else let p3e = deref s (p3 + 8 * P3_IDX vaddr)
         in bind_res (next_table p3e) (\<lambda>p2.
            if p2 = 0 then Ret 0
            else let p2e = deref s (p2 + 8 * P2_IDX vaddr)
            in bind_res (next_table p2e) (\<lambda>p1.
               if p1 = 0 then Ret 0
               else Ret (p1 + 8 * P1_IDX vaddr)))))"

definition mprotect_page ::
  "'a mmu_scheme \<Rightarrow> u64 \<Rightarrow> u64 \<Rightarrow> (int \<times> 'a mmu_scheme) res" where
  "mprotect_page s vaddr flags =
     bind_res (get_entry s vaddr) (\<lambda>pte.
       if pte = 0 then Ret (-1, s)
       else Ret (0, invlpg vaddr (assign s pte (PTE_ADDR (deref s pte) OR flags))))"

text \<open>
  The loop of \<open>mprotect\<close>: \<open>None\<close> would be a loop that does not end.  The result of
  \<open>mprotect_page\<close> is discarded, as in the source.
\<close>

partial_function (option) mprotect_loop ::
  "'a mmu_scheme \<Rightarrow> u64 \<Rightarrow> u64 \<Rightarrow> u64 \<Rightarrow> 'a mmu_scheme res option" where
  "mprotect_loop s start_vaddr end_vaddr flags =
     (if start_vaddr < end_vaddr
      then (case mprotect_page s start_vaddr flags of
              Aborted \<Rightarrow> Some Aborted
            | Ret r \<Rightarrow> mprotect_loop (snd r) (start_vaddr + PGSIZE) end_vaddr flags)
      else Some (Ret s))"

definition mprotect ::
  "'a mmu_scheme \<Rightarrow> u64 \<Rightarrow> u64 \<Rightarrow> u64 \<Rightarrow> (int \<times> 'a mmu_scheme) res option" where
  "mprotect s addr len flags =
     (if addr mod PGSIZE \<noteq> 0 \<or> len mod PGSIZE \<noteq> 0 then Some (Ret (-1, s))
      else map_option (map_res (Pair 0)) (mprotect_loop s addr (addr + len) flags))"

section \<open>The processor's walk and memory accesses\<close>

text \<open>Bits 12 to 51 of an entry hold a physical address.\<close>

definition hw_addr :: "u64 \<Rightarrow> u64" where
  "hw_addr e = e AND 0x000FFFFFFFFFF000"

text \<open>
  Translation of a page: the frame and whether every level allows writing.  A present
  entry with the PS bit maps a large page at levels 1 and 2, and is reserved at level 3.
\<close>

primrec hw_walk :: "memory \<Rightarrow> nat \<Rightarrow> u64 \<Rightarrow> bool \<Rightarrow> u64 \<Rightarrow> (u64 \<times> bool) option" where
  "hw_walk m 0 table w v =
     (let e = read64 m (table + 8 * (drop_bit 12 v AND 0x1ff))
      in if bit e 0 then Some (hw_addr e, w \<and> bit e 1) else None)"
| "hw_walk m (Suc l) table w v =
     (let e = read64 m (table + 8 * (drop_bit (12 + 9 * Suc l) v AND 0x1ff))
      in if \<not> bit e 0 then None
         else if bit e 7
         then (if Suc l = 3 then None
               else Some ((hw_addr e AND NOT (mask (12 + 9 * Suc l))) OR
                          (v AND mask (12 + 9 * Suc l) AND NOT 0xfff), w \<and> bit e 1))
         else hw_walk m l (hw_addr e) (w \<and> bit e 1) v)"

declare hw_walk.simps [simp del]

definition hw_page :: "'a mmu_scheme \<Rightarrow> u64 \<Rightarrow> (u64 \<times> bool) option" where
  "hw_page s v = hw_walk (pmem s) 3 (hw_addr (cr3 s)) True v"

definition mmu_lookup :: "'a mmu_scheme \<Rightarrow> u64 \<Rightarrow> (u64 \<times> bool) option" where
  "mmu_lookup s v = (case tlb s (vpn v) of Some t \<Rightarrow> Some t | None \<Rightarrow> hw_page s v)"

text \<open>
  A byte store: done through the TLB (filled on a miss), or a page fault, which records
  the address in CR2 and drops the page's TLB entry.

  A real processor also sets the bits \<open>PTE_A\<close> and \<open>PTE_D\<close> of the entries it walks.  No branch
  of the code depends on them, \<open>mprotect_page\<close> clears them, and \<open>dump_pgtable\<close> prints an entry as
  it finds it, so they are left out; a claim about an entry after stores is made up to these
  two bits.  Physical memory holds the page tables
  and the pages reached through them; the descriptor table, the enclave's globals and its stack
  are components of their own (\<open>PEnclave\<close>, \<open>TrapEntry\<close>), so a store through the MMU does not
  reach them.
\<close>

datatype 's access = Done 's | Fault 's

definition page_offset :: "u64 \<Rightarrow> u64" where "page_offset v = v AND 0xfff"

definition mmu_store8 :: "'a mmu_scheme \<Rightarrow> u64 \<Rightarrow> u8 \<Rightarrow> 'a mmu_scheme access" where
  "mmu_store8 s v b =
     (case mmu_lookup s v of
        Some (f, True) \<Rightarrow>
          Done (s\<lparr>pmem := (pmem s)(f + page_offset v := b),
                 tlb := (tlb s)(vpn v := Some (f, True))\<rparr>)
      | _ \<Rightarrow> Fault (s\<lparr>cr2 := v, tlb := (tlb s)(vpn v := None)\<rparr>))"

definition mmu_load8 :: "'a mmu_scheme \<Rightarrow> u64 \<Rightarrow> u8 option" where
  "mmu_load8 s v = map_option (\<lambda>(f, w). pmem s (f + page_offset v)) (mmu_lookup s v)"

section \<open>The entries on a walk\<close>

text \<open>
  The physical addresses of the four entries a walk from root \<open>c\<close> reads, and the
  condition for the code and the processor to agree on them: present tables, no large
  pages, table addresses below \<open>2 ^ 47\<close> (so that their window addresses do not wrap).
\<close>

definition slot3 :: "memory \<Rightarrow> u64 \<Rightarrow> u64 \<Rightarrow> u64" where
  "slot3 m c v = c + 8 * P4_IDX v"
definition slot2 :: "memory \<Rightarrow> u64 \<Rightarrow> u64 \<Rightarrow> u64" where
  "slot2 m c v = PTE_ADDR (read64 m (slot3 m c v)) + 8 * P3_IDX v"
definition slot1 :: "memory \<Rightarrow> u64 \<Rightarrow> u64 \<Rightarrow> u64" where
  "slot1 m c v = PTE_ADDR (read64 m (slot2 m c v)) + 8 * P2_IDX v"
definition slot0 :: "memory \<Rightarrow> u64 \<Rightarrow> u64 \<Rightarrow> u64" where
  "slot0 m c v = PTE_ADDR (read64 m (slot1 m c v)) + 8 * P1_IDX v"

definition narrow :: "u64 \<Rightarrow> bool" where
  "narrow e \<longleftrightarrow> e AND 0x000F800000000000 = 0"

definition table_entry :: "u64 \<Rightarrow> bool" where
  "table_entry e \<longleftrightarrow> bit e 0 \<and> \<not> bit e 7 \<and> narrow e"

definition root_ok :: "u64 \<Rightarrow> bool" where
  "root_ok c \<longleftrightarrow> c AND 0xfff = 0 \<and> drop_bit 47 c = 0"

definition mapped :: "memory \<Rightarrow> u64 \<Rightarrow> u64 \<Rightarrow> bool" where
  "mapped m c v \<longleftrightarrow>
     table_entry (read64 m (slot3 m c v)) \<and>
     table_entry (read64 m (slot2 m c v)) \<and>
     table_entry (read64 m (slot1 m c v))"

definition upper_writable :: "memory \<Rightarrow> u64 \<Rightarrow> u64 \<Rightarrow> bool" where
  "upper_writable m c v \<longleftrightarrow>
     bit (read64 m (slot3 m c v)) 1 \<and> bit (read64 m (slot2 m c v)) 1 \<and>
     bit (read64 m (slot1 m c v)) 1"

definition leaf :: "memory \<Rightarrow> u64 \<Rightarrow> u64 \<Rightarrow> u64" where
  "leaf m c v = read64 m (slot0 m c v)"

lemmas slot_defs = slot3_def slot2_def slot1_def slot0_def

subsection \<open>Bits of entries and addresses\<close>

lemma addr_masks:
  "(0xFFFFFFFFF000 :: u64) = mask 48 AND NOT (mask 12)"
  "(0x000FFFFFFFFFF000 :: u64) = mask 52 AND NOT (mask 12)"
  "(0x000F800000000000 :: u64) = mask 52 AND NOT (mask 47)"
  "(0xfff :: u64) = mask 12"
  "(0x1ff :: u64) = mask 9"
  by (simp_all add: mask_eq_exp_minus_1)

lemma bit_PTE_ADDR: "bit (PTE_ADDR e) n \<longleftrightarrow> 12 \<le> n \<and> n < 48 \<and> bit e n"
  by (auto simp: PTE_ADDR_def addr_masks bit_simps)

lemma bit_hw_addr: "bit (hw_addr e) n \<longleftrightarrow> 12 \<le> n \<and> n < 52 \<and> bit e n"
  by (auto simp: hw_addr_def addr_masks bit_simps)

lemma narrow_bit: "narrow e \<longleftrightarrow> (\<forall>n<52. bit e n \<longrightarrow> n < 47)"
proof -
  have "narrow e \<longleftrightarrow> (\<forall>n<64. n < 52 \<longrightarrow> bit e n \<longrightarrow> n < 47)"
    unfolding narrow_def addr_masks by (subst bit_eq_iff) (auto simp: bit_simps)
  then show ?thesis by auto
qed

lemma narrow_hw_addr: "narrow e \<Longrightarrow> hw_addr e = PTE_ADDR e"
  by (rule bit_word_eqI) (fastforce simp: bit_PTE_ADDR bit_hw_addr narrow_bit)

lemma narrow_low: "narrow e \<Longrightarrow> drop_bit 47 (PTE_ADDR e) = 0"
proof (rule bit_word_eqI)
  fix n assume "narrow e"
  then have "\<not> bit e 47" by (auto simp: narrow_bit dest: spec [of _ 47])
  then show "bit (drop_bit 47 (PTE_ADDR e)) n = bit 0 n"
    by (cases n) (simp_all add: bit_simps bit_PTE_ADDR)
qed

lemma and_PTE_P: "e AND PTE_P = 0 \<longleftrightarrow> \<not> bit e 0"
  by (simp add: PTE_P_def and_one_eq bit_0 even_iff_mod_2_eq_zero)

lemma and_PTE_PS: "e AND PTE_PS = 0 \<longleftrightarrow> \<not> bit e 7"
  using and_exp_eq_0_iff_not_bit [of e 7] by (simp add: PTE_PS_def)

text \<open>Entries of a page-aligned table.\<close>

lemma page_low_bits:
  fixes b :: u64
  assumes "b AND 0xfff = 0" "n < 12"
  shows "\<not> bit b n"
  using assms(2) arg_cong [OF assms(1), of "\<lambda>w. bit w n"] by (auto simp: addr_masks bit_simps)

lemma bit_table_slot:
  fixes b x :: u64
  assumes "b AND 0xfff = 0"
  shows "bit (b + 8 * (x AND 0x1ff)) n \<longleftrightarrow> (if n < 12 then 3 \<le> n \<and> bit x (n - 3) else bit b n)"
proof -
  note b = page_low_bits [OF assms]
  have "b AND push_bit 3 (x AND 0x1ff) = 0"
    by (rule bit_word_eqI) (use b in \<open>auto simp: bit_simps addr_masks\<close>)
  then have "b + push_bit 3 (x AND 0x1ff) = b OR push_bit 3 (x AND 0x1ff)"
    by (rule disjunctive_add_eq_or)
  then have e: "b + 8 * (x AND 0x1ff) = b OR push_bit 3 (x AND 0x1ff)"
    by (simp add: push_bit_eq_mult mult.commute)
  show ?thesis
    unfolding e using b [of n] by (auto simp: bit_simps addr_masks dest: bit_imp_le_length)
qed

lemma PTE_ADDR_page: "PTE_ADDR e AND 0xfff = 0"
  by (rule bit_word_eqI) (auto simp: addr_masks bit_simps bit_PTE_ADDR)

text \<open>A table address below \<open>2 ^ 47\<close> stays inside the window: its pointer is not NULL.\<close>

lemma phys_to_virt_nonnull:
  assumes "drop_bit 47 x = 0"
  shows "phys_to_virt x \<noteq> 0"
proof
  assume "phys_to_virt x = 0"
  then have "x = - PHYS_OFFSET" by (simp add: phys_to_virt_def eq_neg_iff_add_eq_0)
  then have "x = 0x800000000000" by (simp add: PHYS_OFFSET_def)
  then show False using assms by simp
qed

lemma deref_window [simp]: "deref s (phys_to_virt x) = read64 (pmem s) x"
  by (simp add: deref_def phys_to_virt_def)

lemma phys_to_virt_add [simp]: "phys_to_virt x + k = phys_to_virt (x + k)"
  by (simp add: phys_to_virt_def)

lemma next_table_entry:
  "table_entry e \<Longrightarrow> next_table e = Ret (phys_to_virt (PTE_ADDR e)) \<and> phys_to_virt (PTE_ADDR e) \<noteq> 0"
  by (simp add: next_table_def table_entry_def and_PTE_P and_PTE_PS narrow_low phys_to_virt_nonnull)

lemma get_entry_mapped:
  assumes "mapped (pmem s) (g_cached_cr3 s) v"
  shows "get_entry s v = Ret (phys_to_virt (slot0 (pmem s) (g_cached_cr3 s) v))"
  using assms next_table_entry
  by (simp add: mapped_def get_entry_def Let_def slot_defs)

lemma slot0_nonnull:
  assumes "mapped m c v"
  shows "phys_to_virt (slot0 m c v) \<noteq> 0"
proof (rule phys_to_virt_nonnull, rule bit_word_eqI)
  fix n
  have "drop_bit 47 (PTE_ADDR (read64 m (slot1 m c v))) = 0"
    using assms by (intro narrow_low) (simp add: mapped_def table_entry_def)
  then have "bit (drop_bit 47 (PTE_ADDR (read64 m (slot1 m c v)))) n = bit 0 n" by simp
  then show "bit (drop_bit 47 (slot0 m c v)) n = bit 0 n"
    by (simp add: slot0_def P1_IDX_def bit_simps bit_table_slot [OF PTE_ADDR_page])
qed

subsection \<open>The code's walk against the processor's\<close>

text \<open>Whether the processor's walk meets an entry with the PS bit.\<close>

primrec hw_large :: "memory \<Rightarrow> nat \<Rightarrow> u64 \<Rightarrow> u64 \<Rightarrow> bool" where
  "hw_large m 0 table v \<longleftrightarrow> False"
| "hw_large m (Suc l) table v \<longleftrightarrow>
     (let e = read64 m (table + 8 * (drop_bit (12 + 9 * Suc l) v AND 0x1ff))
      in bit e 0 \<and> (bit e 7 \<or> hw_large m l (hw_addr e) v))"

declare hw_large.simps [simp del]

text \<open>The tables the walk goes through lie below \<open>2 ^ 47\<close>.\<close>

definition narrow_path :: "memory \<Rightarrow> u64 \<Rightarrow> u64 \<Rightarrow> bool" where
  "narrow_path m c v \<longleftrightarrow>
     (let e3 = read64 m (slot3 m c v); e2 = read64 m (slot2 m c v); e1 = read64 m (slot1 m c v)
      in narrow e3 \<and>
        (bit e3 0 \<and> \<not> bit e3 7 \<longrightarrow> narrow e2 \<and> (bit e2 0 \<and> \<not> bit e2 7 \<longrightarrow> narrow e1)))"

lemma root_hw_addr: "root_ok c \<Longrightarrow> hw_addr c = c"
proof (rule bit_word_eqI)
  fix n assume r: "root_ok c" and "n < LENGTH(64)"
  have low: "\<not> bit c n" if "n < 12" for n
    using that r page_low_bits by (auto simp: root_ok_def)
  have high: "\<not> bit c n" if "47 \<le> n" for n
  proof -
    have "\<not> bit (drop_bit 47 c) (n - 47)" using r by (simp add: root_ok_def)
    then show ?thesis using that by (simp add: bit_simps)
  qed
  show "bit (hw_addr c) n = bit c n"
    by (cases "n < 12"; cases "47 \<le> n") (simp_all add: bit_hw_addr low high)
qed

lemma hw_walk_3:
  "hw_walk m 3 c w v =
    (let e = read64 m (c + 8 * P4_IDX v)
     in if \<not> bit e 0 \<or> bit e 7 then None else hw_walk m 2 (hw_addr e) (w \<and> bit e 1) v)"
  using hw_walk.simps(2) [of m 2 c w v] by (simp add: P4_IDX_def Let_def)

lemma hw_walk_2:
  assumes "\<not> bit (read64 m (c + 8 * P3_IDX v)) 0 \<or> \<not> bit (read64 m (c + 8 * P3_IDX v)) 7"
  shows "hw_walk m 2 c w v =
    (let e = read64 m (c + 8 * P3_IDX v)
     in if bit e 0 then hw_walk m (Suc 0) (hw_addr e) (w \<and> bit e 1) v else None)"
  using assms hw_walk.simps(2) [of m "Suc 0" c w v]
  by (auto simp: P3_IDX_def Let_def numeral_2_eq_2 [symmetric])

lemma hw_walk_1:
  assumes "\<not> bit (read64 m (c + 8 * P2_IDX v)) 0 \<or> \<not> bit (read64 m (c + 8 * P2_IDX v)) 7"
  shows "hw_walk m (Suc 0) c w v =
    (let e = read64 m (c + 8 * P2_IDX v)
     in if bit e 0 then hw_walk m 0 (hw_addr e) (w \<and> bit e 1) v else None)"
  using assms hw_walk.simps(2) [of m 0 c w v] by (auto simp: P2_IDX_def Let_def)

lemma hw_walk_0:
  "hw_walk m 0 c w v =
    (let e = read64 m (c + 8 * P1_IDX v)
     in if bit e 0 then Some (hw_addr e, w \<and> bit e 1) else None)"
  using hw_walk.simps(1) [of m c w v] by (simp add: P1_IDX_def)

lemma hw_large_unfold:
  "hw_large m 3 c v \<longleftrightarrow> (let e = read64 m (c + 8 * P4_IDX v)
     in bit e 0 \<and> (bit e 7 \<or> hw_large m 2 (hw_addr e) v))"
  "hw_large m 2 c v \<longleftrightarrow> (let e = read64 m (c + 8 * P3_IDX v)
     in bit e 0 \<and> (bit e 7 \<or> hw_large m (Suc 0) (hw_addr e) v))"
  "hw_large m (Suc 0) c v \<longleftrightarrow> (let e = read64 m (c + 8 * P2_IDX v) in bit e 0 \<and> bit e 7)"
  using hw_large.simps(2) [of m 2 c v] hw_large.simps(2) [of m "Suc 0" c v]
    hw_large.simps(2) [of m 0 c v] hw_large.simps(1)
  by (simp_all add: P4_IDX_def P3_IDX_def P2_IDX_def Let_def numeral_2_eq_2 [symmetric])

subsection \<open>A concrete address space\<close>

text \<open>One table per level; pages \<open>0x400000\<close> (read-only) and \<open>0x401000\<close> are mapped.\<close>

definition demo_pt :: memory where
  "demo_pt =
     write64 (write64 (write64 (write64 (write64 (\<lambda>_. 0)
       0x1000 0x2003) 0x2000 0x3003) 0x3010 0x4003) 0x4000 0x9005) 0x4008 0xa007"

definition demo_mmu :: mmu where
  "demo_mmu = \<lparr>pmem = demo_pt, cr2 = 0, cr3 = 0x1000, tlb = Map.empty, g_cached_cr3 = 0x1000\<rparr>"

lemma demo_pt_cells:
  "read64 demo_pt 0x1000 = 0x2003" "read64 demo_pt 0x2000 = 0x3003" "read64 demo_pt 0x3010 = 0x4003"
  "read64 demo_pt 0x4000 = 0x9005" "read64 demo_pt 0x4008 = 0xa007"
  by (simp_all add: demo_pt_def disj8_def byte_mem.rd_wr_same byte_mem.rd_wr_disj)

lemmas idx_defs = P4_IDX_def P3_IDX_def P2_IDX_def P1_IDX_def

lemma demo_slots:
  "slot3 demo_pt 0x1000 0x400000 = 0x1000" "slot2 demo_pt 0x1000 0x400000 = 0x2000"
  "slot1 demo_pt 0x1000 0x400000 = 0x3010" "slot0 demo_pt 0x1000 0x400000 = 0x4000"
  "slot3 demo_pt 0x1000 0x401000 = 0x1000" "slot2 demo_pt 0x1000 0x401000 = 0x2000"
  "slot1 demo_pt 0x1000 0x401000 = 0x3010" "slot0 demo_pt 0x1000 0x401000 = 0x4008"
  by (simp_all add: slot_defs idx_defs PTE_ADDR_def demo_pt_cells)

lemma demo_mapped: "mapped demo_pt 0x1000 0x400000" "mapped demo_pt 0x1000 0x401000"
  by (simp_all add: mapped_def table_entry_def narrow_def demo_slots demo_pt_cells)

lemma demo_root: "root_ok 0x1000"
  by (simp add: root_ok_def)

text \<open>C10: where the tables lie below \<open>2 ^ 47\<close> and the cached CR3 is the processor's, \<open>get_entry\<close>
  agrees with the processor's walk: it aborts exactly when the walk meets a large-page
  entry, and otherwise the processor translates the address by the entry it returns, or
  not at all if it returns NULL.\<close>

theorem get_entry_agrees_with_mmu:
  assumes "root_ok (cr3 s)" "g_cached_cr3 s = cr3 s" "narrow_path (pmem s) (cr3 s) v"
  shows "(get_entry s v = Aborted \<longleftrightarrow> hw_large (pmem s) 3 (hw_addr (cr3 s)) v) \<and>
    (\<forall>p. get_entry s v = Ret p \<longrightarrow>
       hw_page s v = (if p = 0 \<or> \<not> bit (deref s p) 0 then None
         else Some (hw_addr (deref s p), upper_writable (pmem s) (cr3 s) v \<and> bit (deref s p) 1)))"
proof -
  let ?m = "pmem s" and ?c = "cr3 s"
  define e3 e2 e1 where "e3 = read64 ?m (slot3 ?m ?c v)"
    and "e2 = read64 ?m (slot2 ?m ?c v)" and "e1 = read64 ?m (slot1 ?m ?c v)"
  note e = e3_def e2_def e1_def
  have at: "read64 ?m (?c + 8 * P4_IDX v) = e3" "read64 ?m (PTE_ADDR e3 + 8 * P3_IDX v) = e2"
    "read64 ?m (PTE_ADDR e2 + 8 * P2_IDX v) = e1"
    by (simp_all add: e slot_defs)
  have nar: "narrow e3" "bit e3 0 \<and> \<not> bit e3 7 \<Longrightarrow> narrow e2"
    "bit e3 0 \<and> \<not> bit e3 7 \<and> bit e2 0 \<and> \<not> bit e2 7 \<Longrightarrow> narrow e1"
    using assms(3) by (auto simp: narrow_path_def Let_def e)
  note defs = get_entry_def hw_page_def root_hw_addr [OF assms(1)] assms(2) Let_def
    hw_walk_3 hw_walk_2 hw_walk_1 hw_walk_0 hw_large_unfold at next_table_def and_PTE_P and_PTE_PS
  have tab: "hw_addr e = PTE_ADDR e" "phys_to_virt (PTE_ADDR e) \<noteq> 0" "bit e 0" "\<not> bit e 7"
    if "table_entry e" for e
    using that next_table_entry [OF that] by (auto simp: table_entry_def narrow_hw_addr)
  consider "\<not> bit e3 0" | "bit e3 0" "bit e3 7"
    | "bit e3 0" "\<not> bit e3 7" "\<not> bit e2 0" | "bit e3 0" "\<not> bit e3 7" "bit e2 0" "bit e2 7"
    | "table_entry e3" "table_entry e2" "\<not> bit e1 0"
    | "table_entry e3" "table_entry e2" "bit e1 0" "bit e1 7"
    | "table_entry e3" "table_entry e2" "table_entry e1"
    using nar by (auto simp: table_entry_def)
  then show ?thesis
  proof cases
    case 1
    then show ?thesis by (simp add: defs)
  next
    case 2
    then show ?thesis by (simp add: defs)
  next
    case 3
    with nar have "table_entry e3" by (simp add: table_entry_def)
    with 3 show ?thesis by (simp add: defs tab)
  next
    case 4
    with nar have "table_entry e3" by (simp add: table_entry_def)
    with 4 show ?thesis by (simp add: defs tab)
  next
    case 5
    then show ?thesis by (simp add: defs tab)
  next
    case 6
    then show ?thesis by (simp add: defs tab)
  next
    case 7
    then have "mapped ?m ?c v" by (simp add: mapped_def e [symmetric])
    then have nn: "phys_to_virt (PTE_ADDR e1 + 8 * P1_IDX v) \<noteq> 0"
      using slot0_nonnull by (simp add: slot0_def e1_def)
    have uw: "upper_writable ?m ?c v \<longleftrightarrow> bit e3 1 \<and> bit e2 1 \<and> bit e1 1"
      by (simp add: upper_writable_def e [symmetric])
    from 7 show ?thesis by (simp add: defs tab nn uw)
  qed
qed

theorem get_entry_agrees_with_mmu_witness:
  "get_entry demo_mmu 0x400000 = Ret 0xffff800000004000 \<and>
   hw_page demo_mmu 0x400000 = Some (0x9000, False)"
proof -
  have g: "get_entry demo_mmu 0x400000 = Ret (phys_to_virt 0x4000)"
    using get_entry_mapped [where s = demo_mmu and v = "0x400000"]
    by (simp add: demo_mmu_def demo_mapped demo_slots)
  have "hw_page demo_mmu 0x400000 = Some (0x9000, False)"
    using get_entry_agrees_with_mmu [where s = demo_mmu and v = "0x400000"] g
    by (simp add: demo_mmu_def demo_root narrow_path_def narrow_def demo_slots demo_pt_cells
      hw_addr_def phys_to_virt_def deref_def PHYS_OFFSET_def)
  then show ?thesis using g by (simp add: phys_to_virt_def PHYS_OFFSET_def)
qed

end
