(* ===== verification/Mprotect.thy ===== *)
theory Mprotect
  imports Paging
begin

text \<open>
  What \<open>mprotect\<close> of \<open>paging.h\<close> does to an address space: which entries it writes, what
  it leaves alone, that it ends for every argument, and that its \<open>invlpg\<close> keeps the TLB
  coherent with the tables.

  An address space is a root and the list of the pages in use.  \<open>pt_ok\<close> asks that the
  code and the processor agree on the walk of each page (\<open>mapped\<close>), that no two pages
  share a leaf entry, and that no leaf entry is itself part of a table walked for one of
  the pages.
\<close>

section \<open>Address spaces\<close>

definition tables :: "memory \<Rightarrow> u64 \<Rightarrow> u64 list \<Rightarrow> u64 list" where
  "tables m c D = concat (map (\<lambda>v. [slot3 m c v, slot2 m c v, slot1 m c v]) D)"

definition pt_ok :: "memory \<Rightarrow> u64 \<Rightarrow> u64 list \<Rightarrow> bool" where
  "pt_ok m c D \<longleftrightarrow>
     root_ok c \<and> list_all (\<lambda>v. v AND 0xfff = 0) D \<and> list_all (mapped m c) D \<and>
     distinct (map (slot0 m c) D) \<and> set (map (slot0 m c) D) \<inter> set (tables m c D) = {}"

lemma pt_okD:
  assumes "pt_ok m c D" "v \<in> set D"
  shows "root_ok c" "v AND 0xfff = 0" "mapped m c v" "inj_on (slot0 m c) (set D)"
    and "u \<in> set D \<Longrightarrow> slot0 m c v \<noteq> slot3 m c u \<and> slot0 m c v \<noteq> slot2 m c u \<and> slot0 m c v \<noteq> slot1 m c u"
  using assms by (auto simp: pt_ok_def list_all_iff tables_def distinct_map)

subsection \<open>Writing one leaf\<close>

lemma aligned8_bits: "aligned8 a \<longleftrightarrow> (\<forall>n<3. \<not> bit a n)"
proof -
  have "aligned8 a \<longleftrightarrow> take_bit 3 a = 0"
    by (simp add: aligned8_def take_bit_eq_mod dvd_eq_mod_eq_0 word_unat_eq_iff unat_mod_distrib)
  also have "\<dots> \<longleftrightarrow> (\<forall>n<3. \<not> bit a n)"
    by (subst bit_eq_iff) (auto simp: bit_simps dest: bit_imp_le_length)
  finally show ?thesis .
qed

lemma aligned8_slot: "b AND 0xfff = 0 \<Longrightarrow> aligned8 (b + 8 * (x AND 0x1ff))"
  by (simp add: aligned8_bits bit_table_slot)

lemma aligned8_slots:
  "root_ok c \<Longrightarrow> aligned8 (slot3 m c v)" "aligned8 (slot2 m c v)" "aligned8 (slot1 m c v)"
  "aligned8 (slot0 m c v)"
  by (simp_all add: slot_defs idx_defs aligned8_slot PTE_ADDR_page root_ok_def)

lemma write_leaf_slots:
  fixes e :: u64
  assumes "pt_ok m c D" "v \<in> set D" "u \<in> set D"
  defines "m' \<equiv> write64 m (slot0 m c v) e"
  shows "slot3 m' c u = slot3 m c u" "slot2 m' c u = slot2 m c u" "slot1 m' c u = slot1 m c u"
    and "slot0 m' c u = slot0 m c u" "mapped m' c u = mapped m c u"
    and "upper_writable m' c u = upper_writable m c u"
proof -
  note ok = pt_okD [OF assms(1,2)]
  have r: "read64 m' (slot3 m c u) = read64 m (slot3 m c u)"
    "read64 m' (slot2 m c u) = read64 m (slot2 m c u)"
    "read64 m' (slot1 m c u) = read64 m (slot1 m c u)"
    unfolding m'_def using ok(1) ok(5) [OF assms(3)]
    by (auto intro!: byte_mem.rd_wr_disj disj8_aligned aligned8_slots)
  show s3: "slot3 m' c u = slot3 m c u" by (simp add: slot3_def)
  show s2: "slot2 m' c u = slot2 m c u" by (simp add: slot2_def s3 r)
  show s1: "slot1 m' c u = slot1 m c u" by (simp add: slot1_def s2 r)
  show "slot0 m' c u = slot0 m c u" by (simp add: slot0_def s1 r)
  show "mapped m' c u = mapped m c u" by (simp add: mapped_def s3 s2 s1 r)
  show "upper_writable m' c u = upper_writable m c u" by (simp add: upper_writable_def s3 s2 s1 r)
qed

lemma write_leaf:
  assumes "pt_ok m c D" "v \<in> set D" "u \<in> set D"
  shows "leaf (write64 m (slot0 m c v) e) c u = (if u = v then e else leaf m c u)"
proof (cases "u = v")
  case True
  then show ?thesis
    using write_leaf_slots(4) [OF assms] by (simp add: leaf_def byte_mem.rd_wr_same)
next
  case False
  then have "slot0 m c v \<noteq> slot0 m c u"
    using pt_okD(4) [OF assms(1,2)] assms(2,3) by (auto dest: inj_onD)
  then show ?thesis
    using False write_leaf_slots(4) [OF assms]
    by (simp add: leaf_def byte_mem.rd_wr_disj disj8_aligned aligned8_slots)
qed

lemma write_leaf_pt_ok:
  assumes "pt_ok m c D" "v \<in> set D"
  shows "pt_ok (write64 m (slot0 m c v) e) c D"
proof -
  note same = write_leaf_slots [OF assms, of _ e]
  have "map (slot0 (write64 m (slot0 m c v) e) c) D = map (slot0 m c) D"
    by (simp add: same)
  moreover have "tables (write64 m (slot0 m c v) e) c D = tables m c D"
    by (auto simp: tables_def same intro!: arg_cong [of _ _ concat])
  moreover have "list_all (mapped (write64 m (slot0 m c v) e) c) D = list_all (mapped m c) D"
    by (auto simp: list_all_iff same)
  ultimately show ?thesis using assms(1) by (simp only: pt_ok_def)
qed

section \<open>One page\<close>

text \<open>Pointers into the window behave as memory cells.\<close>

interpretation window: qword_store deref assign
  by unfold_locales
    (simp_all add: deref_def assign_def byte_mem.rd_wr_same byte_mem.rd_wr_disj disj8_def)

text \<open>The state after \<open>mprotect_page\<close> wrote an entry.\<close>

definition set_leaf :: "u64 \<Rightarrow> u64 \<Rightarrow> 'a mmu_scheme \<Rightarrow> 'a mmu_scheme" where
  "set_leaf flags v s =
     (let p = phys_to_virt (slot0 (pmem s) (g_cached_cr3 s) v)
      in invlpg v (assign s p (PTE_ADDR (deref s p) OR flags)))"

lemma mprotect_page_mapped:
  "mapped (pmem s) (g_cached_cr3 s) v \<Longrightarrow> mprotect_page s v flags = Ret (0, set_leaf flags v s)"
  by (simp add: mprotect_page_def get_entry_mapped slot0_nonnull set_leaf_def)

lemma set_leaf_fields [frame_simps]:
  "cr2 (set_leaf flags v s) = cr2 s" "cr3 (set_leaf flags v s) = cr3 s"
  "g_cached_cr3 (set_leaf flags v s) = g_cached_cr3 s"
  "mmu.more (set_leaf flags v s) = mmu.more s"
  "tlb (set_leaf flags v s) = (tlb s)(vpn v := None)"
  by (simp_all add: set_leaf_def Let_def invlpg_def assign_def)

lemma pmem_set_leaf:
  "pmem (set_leaf flags v s) =
     write64 (pmem s) (slot0 (pmem s) (g_cached_cr3 s) v)
       (PTE_ADDR (leaf (pmem s) (g_cached_cr3 s) v) OR flags)"
  by (simp add: set_leaf_def Let_def invlpg_def assign_def leaf_def) (simp add: phys_to_virt_def)

section \<open>A range of pages\<close>

definition pages :: "u64 \<Rightarrow> nat \<Rightarrow> u64 list" where
  "pages a n = map (\<lambda>i. a + 4096 * of_nat i) [0..<n]"

lemma pages_Suc: "pages a (Suc n) = a # pages (a + 4096) n"
  by (simp add: pages_def map_upt_Suc algebra_simps del: upt_Suc)

lemma pages_0 [simp]: "pages a 0 = []"
  by (simp add: pages_def)

abbreviation set_leaves :: "u64 \<Rightarrow> u64 list \<Rightarrow> 'a mmu_scheme \<Rightarrow> 'a mmu_scheme" where
  "set_leaves flags \<equiv> fold (set_leaf flags)"

lemma set_leaves_frame:
  "cr2 (set_leaves flags vs s) = cr2 s" "cr3 (set_leaves flags vs s) = cr3 s"
  "g_cached_cr3 (set_leaves flags vs s) = g_cached_cr3 s"
  "mmu.more (set_leaves flags vs s) = mmu.more s"
  "tlb (set_leaves flags vs s) p = (if p \<in> vpn ` set vs then None else tlb s p)"
  by (induction vs arbitrary: s) (simp_all add: frame_simps)

lemma set_leaves_space:
  fixes s :: "'a mmu_scheme" and flags :: u64
  assumes "pt_ok (pmem s) (g_cached_cr3 s) D" "set vs \<subseteq> set D" "distinct vs"
  defines "c \<equiv> g_cached_cr3 s" and "m' \<equiv> pmem (set_leaves flags vs s)"
  shows "pt_ok m' c D \<and>
    (\<forall>u\<in>set D. upper_writable m' c u = upper_writable (pmem s) c u \<and> leaf m' c u =
      (if u \<in> set vs then PTE_ADDR (leaf (pmem s) c u) OR flags else leaf (pmem s) c u)) \<and>
    ((\<forall>v\<in>set vs. 8 \<le> unat (b - slot0 (pmem s) c v)) \<longrightarrow> m' b = pmem s b)"
  using assms(1-3) unfolding m'_def c_def
proof (induction vs arbitrary: s)
  case (Cons v vs)
  let ?s = "set_leaf flags v s" and ?c = "g_cached_cr3 s"
  have v: "v \<in> set D" "v \<notin> set vs" and vs: "set vs \<subseteq> set D" "distinct vs"
    using Cons.prems by auto
  note ok = Cons.prems(1)
  note slots = write_leaf_slots [OF ok v(1), of _ "PTE_ADDR (leaf (pmem s) ?c v) OR flags",
      folded pmem_set_leaf]
  note lf = write_leaf [OF ok v(1), of _ "PTE_ADDR (leaf (pmem s) ?c v) OR flags",
      folded pmem_set_leaf]
  have ok': "pt_ok (pmem ?s) ?c D"
    unfolding pmem_set_leaf using write_leaf_pt_ok [OF ok v(1)] .
  have IH: "pt_ok (pmem (set_leaves flags vs ?s)) ?c D \<and>
    (\<forall>u\<in>set D. upper_writable (pmem (set_leaves flags vs ?s)) ?c u = upper_writable (pmem ?s) ?c u \<and>
      leaf (pmem (set_leaves flags vs ?s)) ?c u =
      (if u \<in> set vs then PTE_ADDR (leaf (pmem ?s) ?c u) OR flags else leaf (pmem ?s) ?c u)) \<and>
    ((\<forall>w\<in>set vs. 8 \<le> unat (b - slot0 (pmem ?s) ?c w)) \<longrightarrow>
       pmem (set_leaves flags vs ?s) b = pmem ?s b)"
    using Cons.IH [of ?s] ok' vs by (simp add: frame_simps)
  have far: "pmem ?s b = pmem s b \<and> (\<forall>w\<in>set vs. 8 \<le> unat (b - slot0 (pmem ?s) ?c w))"
    if "\<forall>w\<in>set (v # vs). 8 \<le> unat (b - slot0 (pmem s) ?c w)"
  proof -
    have "slot0 (pmem ?s) ?c w = slot0 (pmem s) ?c w" if "w \<in> set vs" for w
      using slots(4) that vs by auto
    then show ?thesis using that by (auto simp: pmem_set_leaf write64_other)
  qed
  show ?case using IH far v by (auto simp: slots lf)
qed simp

lemma pages_in_range:
  assumes "a mod 4096 = 0" "u mod 4096 = 0" "unat a + 4096 * n < 2 ^ 64"
  shows "u \<in> set (pages a n) \<longleftrightarrow> a \<le> u \<and> u < a + of_nat (4096 * n)"
proof -
  have dv: "4096 dvd unat a" "4096 dvd unat u"
    using assms(1,2) by (simp_all add: word_unat_eq_iff unat_mod_distrib dvd_eq_mod_eq_0)
  have un: "unat (a + of_nat (4096 * k)) = unat a + 4096 * k" if "k \<le> n" for k
    using assms(3) that by (intro unat_add_of_nat) simp
  have "u \<in> set (pages a n) \<longleftrightarrow> (\<exists>i<n. u = a + of_nat (4096 * i))"
    by (auto simp: pages_def)
  also have "\<dots> \<longleftrightarrow> (\<exists>i<n. unat u = unat a + 4096 * i)"
    by (auto simp: un word_unat_eq_iff simp del: of_nat_mult)
  also have "\<dots> \<longleftrightarrow> unat a \<le> unat u \<and> unat u < unat a + 4096 * n"
  proof
    assume r: "unat a \<le> unat u \<and> unat u < unat a + 4096 * n"
    from dv obtain p q where "unat a = 4096 * p" "unat u = 4096 * q" by (metis dvdE)
    with r show "\<exists>i<n. unat u = unat a + 4096 * i" by (intro exI [of _ "q - p"]) auto
  qed auto
  finally show ?thesis by (simp add: word_le_nat_alt word_less_nat_alt un del: of_nat_mult)
qed

lemma distinct_pages:
  assumes "4096 * n \<le> 2 ^ 64"
  shows "distinct (pages a n)"
proof -
  have "inj_on (\<lambda>i. a + 4096 * of_nat i) {0..<n}"
  proof (rule inj_onI)
    fix i j assume ij: "i \<in> {0..<n}" "j \<in> {0..<n}" "a + 4096 * of_nat i = a + 4096 * of_nat j"
    then have "(of_nat (4096 * i) :: u64) = of_nat (4096 * j)" by simp
    then have "unat (of_nat (4096 * i) :: u64) = unat (of_nat (4096 * j) :: u64)" by simp
    then show "i = j" using ij(1,2) assms by (simp add: unat_of_nat del: of_nat_mult)
  qed
  then show ?thesis by (simp add: pages_def distinct_map)
qed

section \<open>The loop\<close>

lemma mprotect_loop_done: "\<not> a < b \<Longrightarrow> mprotect_loop s a b flags = Some (Ret s)"
  by (subst mprotect_loop.simps) simp

lemma mprotect_loop_step:
  "a < b \<Longrightarrow> mprotect_loop s a b flags =
     (case mprotect_page s a flags of Aborted \<Rightarrow> Some Aborted
      | Ret r \<Rightarrow> mprotect_loop (snd r) (a + 4096) b flags)"
  by (subst mprotect_loop.simps) (simp add: PGSIZE_def cong: res.case_cong)

text \<open>
  Over \<open>n\<close> pages that do not wrap the loop ends; where all pages are mapped it is the
  fold of the page writes.
\<close>

lemma range_step:
  fixes a :: u64
  assumes "unat a + 4096 * Suc n < 2 ^ 64"
  shows "a < a + 4096 * of_nat (Suc n)" "unat (a + 4096) = unat a + 4096"
    "a + 4096 * of_nat (Suc n) = (a + 4096) + 4096 * of_nat n"
proof -
  have "unat (a + of_nat (4096 * Suc n)) = unat a + 4096 * Suc n"
    using assms by (rule unat_add_of_nat)
  then show "a < a + 4096 * of_nat (Suc n)"
    by (simp add: word_less_nat_alt)
  show "unat (a + 4096) = unat a + 4096"
    using assms by (simp add: unat_word_ariths)
qed (simp add: algebra_simps)

lemma mprotect_loop_pages:
  assumes "unat a + 4096 * n < 2 ^ 64" "pt_ok (pmem s) (g_cached_cr3 s) D" "set (pages a n) \<subseteq> set D"
  shows "mprotect_loop s a (a + 4096 * of_nat n) flags =
    Some (Ret (set_leaves flags (pages a n) s))"
  using assms
proof (induction n arbitrary: a s)
  case 0
  then show ?case by (simp add: mprotect_loop_done)
next
  case (Suc n)
  note st = range_step [OF Suc.prems(1)]
  let ?s = "set_leaf flags a s"
  have a: "a \<in> set D" and sub: "set (pages (a + 4096) n) \<subseteq> set D"
    using Suc.prems(3) by (simp_all add: pages_Suc)
  have "pt_ok (pmem ?s) (g_cached_cr3 ?s) D"
    using write_leaf_pt_ok [OF Suc.prems(2) a] by (simp add: pmem_set_leaf frame_simps)
  then have "mprotect_loop ?s (a + 4096) (a + 4096 + 4096 * of_nat n) flags =
      Some (Ret (set_leaves flags (pages (a + 4096) n) ?s))"
    using Suc.IH [of "a + 4096" ?s] Suc.prems(1) st(2) sub by simp
  then show ?case
    using mprotect_loop_step [OF st(1), of s flags]
      mprotect_page_mapped [OF pt_okD(3) [OF Suc.prems(2) a], of flags]
    by (simp only: st(3) pages_Suc) simp
qed

text \<open>Aligned arguments: a wrapped range is empty, any other is a number of pages.\<close>

lemma aligned_range_cases:
  fixes addr len :: u64
  assumes "addr mod 4096 = 0" "len mod 4096 = 0"
  obtains "\<not> addr < addr + len"
  | n where "len = 4096 * of_nat n" "n = unat len div 4096" "unat addr + 4096 * n < 2 ^ 64"
proof (cases "unat addr + unat len < 2 ^ 64")
  case True
  have "4096 dvd unat len"
    using assms(2) by (simp add: word_unat_eq_iff unat_mod_distrib dvd_eq_mod_eq_0)
  then have k: "unat len = 4096 * (unat len div 4096)" by simp
  have "len = of_nat (unat len)" by simp
  then have "len = 4096 * of_nat (unat len div 4096)" by (subst (asm) k) simp
  then show ?thesis using that(2) True k by metis
next
  case False
  have "unat len < 2 ^ 64" using unsigned_less [of len] by simp
  then have "unat (addr + len) \<le> unat addr"
    using False unsigned_less [of addr] by (simp add: unat_plus_if')
  then show ?thesis using that(1) by (simp add: word_less_nat_alt)
qed

text \<open>The pages of a range one after the other, until one of them aborts.\<close>

primrec protect_each :: "u64 \<Rightarrow> u64 list \<Rightarrow> 'a mmu_scheme \<Rightarrow> 'a mmu_scheme res" where
  "protect_each flags [] s = Ret s"
| "protect_each flags (v # vs) s =
     (case mprotect_page s v flags of Aborted \<Rightarrow> Aborted | Ret r \<Rightarrow> protect_each flags vs (snd r))"

lemma mprotect_loop_each:
  fixes s :: "'a mmu_scheme"
  assumes "unat a + 4096 * n < 2 ^ 64"
  shows "mprotect_loop s a (a + 4096 * of_nat n) flags = Some (protect_each flags (pages a n) s)"
  using assms
proof (induction n arbitrary: a s)
  case 0
  then show ?case by (simp add: mprotect_loop_done pages_def)
next
  case (Suc n)
  note st = range_step [OF Suc.prems]
  have "mprotect_loop s' (a + 4096) (a + 4096 + 4096 * of_nat n) flags =
      Some (protect_each flags (pages (a + 4096) n) s')" for s' :: "'a mmu_scheme"
    using Suc.IH [of "a + 4096" s'] Suc.prems st(2) by simp
  then show ?case
    using mprotect_loop_step [OF st(1), of s flags]
    by (cases "mprotect_page s a flags") (simp_all add: st(3) pages_Suc del: of_nat_Suc)
qed

lemma mprotect_each:
  "mprotect s addr len flags = Some
     (if addr mod PGSIZE \<noteq> 0 \<or> len mod PGSIZE \<noteq> 0 then Ret (-1, s)
      else if addr + len \<le> addr then Ret (0, s)
      else map_res (Pair 0) (protect_each flags (pages addr (unat len div 4096)) s))"
proof (cases "addr mod PGSIZE \<noteq> 0 \<or> len mod PGSIZE \<noteq> 0")
  case True
  then show ?thesis by (simp add: mprotect_def)
next
  case False
  then have al: "addr mod 4096 = 0" "len mod 4096 = 0" by (simp_all add: PGSIZE_def)
  show ?thesis
  proof (cases rule: aligned_range_cases [OF al])
    case 1
    then show ?thesis using False by (simp add: mprotect_def mprotect_loop_done)
  next
    case (2 n)
    note loop = mprotect_loop_each [OF 2(3), of s flags, folded 2(1)]
    have "n = 0" if "addr + len \<le> addr"
    proof (rule ccontr)
      assume "n \<noteq> 0"
      then obtain m where m: "n = Suc m" by (cases n) auto
      show False using range_step(1) [OF 2(3) [unfolded m]] that unfolding m [symmetric] 2(1) [symmetric]
        by simp
    qed
    then show ?thesis using False loop 2(2) by (auto simp: mprotect_def pages_def)
  qed
qed

lemma mprotect_returns: "\<exists>r. mprotect s addr len flags = Some r"
  unfolding mprotect_each by blast

text \<open>C12: the loop of \<open>mprotect\<close> ends for every address, length, flag word and state of
  memory: unaligned arguments are refused with -1, a range that wraps round the address space
  is empty, and otherwise \<open>mprotect_page\<close> is called once for each page of the range, in order,
  until a call aborts; then \<open>mprotect\<close> aborts, and if none does it returns 0, whatever the
  calls returned.\<close>

theorem mprotect_total:
  "mprotect s addr len flags = Some
     (if addr mod PGSIZE = 0 \<and> len mod PGSIZE = 0
      then if addr + len \<le> addr then Ret (0, s)
           else map_res (Pair 0) (protect_each flags (pages addr (unat len div 4096)) s)
      else Ret (-1, s))"
  unfolding mprotect_each by simp

section \<open>What mprotect changes\<close>

text \<open>The run of \<open>mprotect\<close> over pages of a well-formed address space.\<close>

lemma mprotect_run:
  assumes "pt_ok (pmem s) (g_cached_cr3 s) D" "addr mod PGSIZE = 0" "len mod PGSIZE = 0"
    and "unat addr + unat len < 2 ^ 64" "set (pages addr (unat len div 4096)) \<subseteq> set D"
  shows "mprotect s addr len flags =
    Some (Ret (0, set_leaves flags (pages addr (unat len div 4096)) s))"
proof -
  have al: "addr mod 4096 = 0" "len mod 4096 = 0" using assms(2,3) by (simp_all add: PGSIZE_def)
  have "4096 dvd unat len"
    using al(2) by (simp add: word_unat_eq_iff unat_mod_distrib dvd_eq_mod_eq_0)
  then have k: "unat len = 4096 * (unat len div 4096)" by simp
  have "len = of_nat (unat len)" by simp
  then have l: "len = 4096 * of_nat (unat len div 4096)" by (subst (asm) k) simp
  have "mprotect_loop s addr (addr + 4096 * of_nat (unat len div 4096)) flags =
      Some (Ret (set_leaves flags (pages addr (unat len div 4096)) s))"
    using assms k by (intro mprotect_loop_pages) auto
  then show ?thesis using assms(2,3) by (simp add: mprotect_def l [symmetric])
qed

lemma page_mem_range:
  assumes "pt_ok m c D" "u \<in> set D" "addr mod PGSIZE = 0" "len mod PGSIZE = 0"
    and "unat addr + unat len < 2 ^ 64"
  shows "u \<in> set (pages addr (unat len div 4096)) \<longleftrightarrow> addr \<le> u \<and> u < addr + len"
proof -
  have "u mod 4096 = 0"
    using pt_okD(2) [OF assms(1,2)] by (simp add: addr_masks take_bit_eq_mask [symmetric] take_bit_eq_mod)
  moreover have "4096 dvd unat len"
    using assms(4) by (simp add: PGSIZE_def word_unat_eq_iff unat_mod_distrib dvd_eq_mod_eq_0)
  then have k: "4096 * (unat len div 4096) = unat len" by simp
  ultimately show ?thesis
    using assms(3,5) pages_in_range [of addr u "unat len div 4096"] by (simp add: PGSIZE_def k)
qed

text \<open>C11: over mapped pages \<open>mprotect\<close> returns 0 and each leaf entry of the range becomes its
  frame address together with the new flags; the entries of the other pages, every byte
  outside the entries written, the control registers and the shape of the tables stay.\<close>

theorem mprotect_sets_leaves:
  assumes "pt_ok (pmem s) (cr3 s) D" "g_cached_cr3 s = cr3 s"
    and "addr mod PGSIZE = 0" "len mod PGSIZE = 0" "unat addr + unat len < 2 ^ 64"
    and "set (pages addr (unat len div 4096)) \<subseteq> set D"
  shows "\<exists>s'. mprotect s addr len flags = Some (Ret (0, s')) \<and>
    (\<forall>v\<in>set D. leaf (pmem s') (cr3 s) v =
       (if addr \<le> v \<and> v < addr + len then PTE_ADDR (leaf (pmem s) (cr3 s) v) OR flags
        else leaf (pmem s) (cr3 s) v)) \<and>
    (\<forall>b. (\<forall>v\<in>set D. addr \<le> v \<and> v < addr + len \<longrightarrow> 8 \<le> unat (b - slot0 (pmem s) (cr3 s) v)) \<longrightarrow>
       pmem s' b = pmem s b) \<and>
    pt_ok (pmem s') (cr3 s) D \<and>
    cr2 s' = cr2 s \<and> cr3 s' = cr3 s \<and> g_cached_cr3 s' = cr3 s \<and> mmu.more s' = mmu.more s"
proof -
  let ?n = "unat len div 4096"
  let ?s = "set_leaves flags (pages addr ?n) s"
  have "distinct (pages addr ?n)" using assms(5) by (intro distinct_pages) auto
  note sp = set_leaves_space [of s D, unfolded assms(2), OF assms(1,6) this, of flags]
  note range = page_mem_range [OF assms(1) _ assms(3,4,5)]
  have run: "mprotect s addr len flags = Some (Ret (0, ?s))"
    using mprotect_run [of s D] assms by simp
  have far: "pmem ?s b = pmem s b"
    if "\<forall>v\<in>set D. addr \<le> v \<and> v < addr + len \<longrightarrow> 8 \<le> unat (b - slot0 (pmem s) (cr3 s) v)" for b
    using sp [of b] that range assms(6) by blast
  show ?thesis
    by (rule exI [of _ ?s]) (use run sp range far assms(2) in \<open>auto simp: set_leaves_frame\<close>)
qed

text \<open>The two pages of the concrete address space.\<close>

lemma demo_pt_ok: "pt_ok demo_pt 0x1000 [0x400000, 0x401000]"
  by (simp add: pt_ok_def demo_root demo_mapped tables_def demo_slots)

lemma demo_pages: "pages 0x400000 (Suc 0) = [0x400000]" "pages 0x400000 2 = [0x400000, 0x401000]"
  by (simp_all add: pages_def numeral_2_eq_2)

theorem mprotect_sets_leaves_witness:
  "\<exists>s'. mprotect demo_mmu 0x400000 0x1000 7 = Some (Ret (0, s')) \<and>
     leaf (pmem s') 0x1000 0x400000 = 0x9007 \<and> leaf (pmem s') 0x1000 0x401000 = 0xa007"
proof -
  have "leaf demo_pt 0x1000 0x400000 = 0x9005" "leaf demo_pt 0x1000 0x401000 = 0xa007"
    by (simp_all add: leaf_def demo_slots demo_pt_cells)
  then show ?thesis
    using mprotect_sets_leaves [where s = demo_mmu and D = "[0x400000, 0x401000]"
        and addr = "0x400000" and len = "0x1000" and flags = 7]
    by (auto simp: demo_mmu_def demo_pt_ok demo_pages PGSIZE_def PTE_ADDR_def)
qed

section \<open>The translation the processor applies\<close>

lemma hw_page_mapped:
  assumes "root_ok (cr3 s)" "mapped (pmem s) (cr3 s) v"
  shows "hw_page s v = (let e = leaf (pmem s) (cr3 s) v
     in if bit e 0 then Some (hw_addr e, upper_writable (pmem s) (cr3 s) v \<and> bit e 1) else None)"
proof -
  let ?m = "pmem s" and ?c = "cr3 s"
  have t: "bit (read64 ?m (slot3 ?m ?c v)) 0" "\<not> bit (read64 ?m (slot3 ?m ?c v)) 7"
    "bit (read64 ?m (slot2 ?m ?c v)) 0" "\<not> bit (read64 ?m (slot2 ?m ?c v)) 7"
    "bit (read64 ?m (slot1 ?m ?c v)) 0" "\<not> bit (read64 ?m (slot1 ?m ?c v)) 7"
    "hw_addr (read64 ?m (slot3 ?m ?c v)) = PTE_ADDR (read64 ?m (slot3 ?m ?c v))"
    "hw_addr (read64 ?m (slot2 ?m ?c v)) = PTE_ADDR (read64 ?m (slot2 ?m ?c v))"
    "hw_addr (read64 ?m (slot1 ?m ?c v)) = PTE_ADDR (read64 ?m (slot1 ?m ?c v))"
    using assms(2) by (auto simp: mapped_def table_entry_def narrow_hw_addr)
  note fold = slot_defs [of ?m ?c v, symmetric]
  show ?thesis
    by (simp add: hw_page_def root_hw_addr [OF assms(1)] hw_walk_3 hw_walk_2 hw_walk_1 hw_walk_0
      Let_def fold t leaf_def upper_writable_def)
qed

definition tlb_ok :: "'a mmu_scheme \<Rightarrow> u64 list \<Rightarrow> bool" where
  "tlb_ok s D \<longleftrightarrow> list_all (\<lambda>v. tlb s (vpn v) = None \<or> tlb s (vpn v) = hw_page s v) D"

lemma mmu_lookup_coherent: "tlb_ok s D \<Longrightarrow> v \<in> set D \<Longrightarrow> mmu_lookup s v = hw_page s v"
  by (auto simp: tlb_ok_def list_all_iff mmu_lookup_def split: option.split)

lemma vpn_inj:
  assumes "v AND 0xfff = 0" "u AND 0xfff = 0" "vpn v = vpn u"
  shows "v = u"
proof (rule bit_word_eqI)
  fix n
  show "bit v n = bit u n"
  proof (cases "n < 12")
    case True
    then show ?thesis using page_low_bits assms(1,2) by blast
  next
    case False
    then have "bit (vpn v) (n - 12) = bit v n" "bit (vpn u) (n - 12) = bit u n"
      by (simp_all add: vpn_def bit_simps)
    then show ?thesis using assms(3) by simp
  qed
qed

lemma bit_hw_addr_flags: "hw_addr flags = 0 \<Longrightarrow> hw_addr (PTE_ADDR e OR flags) = PTE_ADDR e"
  by (simp add: hw_addr_def bit.conj_disj_distrib2) (rule bit_word_eqI, auto simp: bit_simps bit_PTE_ADDR addr_masks)

lemma bit_entry_flags: "n < 12 \<Longrightarrow> bit (PTE_ADDR e OR flags) n = bit flags n"
  by (simp add: bit_simps bit_PTE_ADDR)

text \<open>C6: with a coherent TLB, the processor translates each page of the range after
  \<open>mprotect\<close> by its old frame with the permissions of the new flags, every other page as
  before, and the TLB is coherent again.\<close>

theorem mprotect_takes_effect:
  assumes "pt_ok (pmem s) (cr3 s) D" "g_cached_cr3 s = cr3 s" "tlb_ok s D" "hw_addr flags = 0"
    and "addr mod PGSIZE = 0" "len mod PGSIZE = 0" "unat addr + unat len < 2 ^ 64"
    and "set (pages addr (unat len div 4096)) \<subseteq> set D"
  shows "\<exists>s'. mprotect s addr len flags = Some (Ret (0, s')) \<and> tlb_ok s' D \<and>
    (\<forall>v\<in>set D. mmu_lookup s' v =
       (if addr \<le> v \<and> v < addr + len
        then if bit flags 0
          then Some (PTE_ADDR (leaf (pmem s) (cr3 s) v), upper_writable (pmem s) (cr3 s) v \<and> bit flags 1)
          else None
        else mmu_lookup s v))"
proof -
  let ?n = "unat len div 4096"
  let ?s = "set_leaves flags (pages addr ?n) s"
  have "distinct (pages addr ?n)" using assms(7) by (intro distinct_pages) auto
  note sp = set_leaves_space [of s D, unfolded assms(2), OF assms(1,8) this, of flags]
  note range = page_mem_range [OF assms(1) _ assms(5,6,7)]
  have run: "mprotect s addr len flags = Some (Ret (0, ?s))"
    using mprotect_run [of s D] assms by simp
  have ok': "pt_ok (pmem ?s) (cr3 s) D" using sp by blast
  have hw: "hw_page ?s v = (if addr \<le> v \<and> v < addr + len
      then if bit flags 0
        then Some (PTE_ADDR (leaf (pmem s) (cr3 s) v), upper_writable (pmem s) (cr3 s) v \<and> bit flags 1)
        else None
      else hw_page s v)" if v: "v \<in> set D" for v
  proof -
    have "leaf (pmem ?s) (cr3 s) v = (if addr \<le> v \<and> v < addr + len
        then PTE_ADDR (leaf (pmem s) (cr3 s) v) OR flags else leaf (pmem s) (cr3 s) v)"
      "upper_writable (pmem ?s) (cr3 s) v = upper_writable (pmem s) (cr3 s) v"
      using sp [of 0] v range by auto
    then show ?thesis
      using pt_okD(1,3) [OF assms(1) v] pt_okD(1,3) [OF ok' v]
      by (auto simp: hw_page_mapped set_leaves_frame bit_hw_addr_flags [OF assms(4)]
        bit_entry_flags Let_def)
  qed
  have tl: "tlb ?s (vpn v) = (if addr \<le> v \<and> v < addr + len then None else tlb s (vpn v))"
    if v: "v \<in> set D" for v
  proof -
    have "vpn v \<in> vpn ` set (pages addr ?n) \<longleftrightarrow> v \<in> set (pages addr ?n)"
      using vpn_inj pt_okD(2) [OF assms(1)] v assms(8) by blast
    then show ?thesis using range [OF v] by (simp add: set_leaves_frame)
  qed
  have co: "tlb_ok ?s D"
    using assms(3) by (auto simp: tlb_ok_def list_all_iff tl hw)
  show ?thesis
    by (rule exI [of _ ?s])
      (use run co hw mmu_lookup_coherent [OF co] mmu_lookup_coherent [OF assms(3)] in auto)
qed

theorem mprotect_takes_effect_witness:
  "mmu_lookup demo_mmu 0x400000 = Some (0x9000, False) \<and>
   (\<exists>s'. mprotect demo_mmu 0x400000 0x1000 7 = Some (Ret (0, s')) \<and>
     mmu_lookup s' 0x400000 = Some (0x9000, True))"
proof -
  have l: "leaf demo_pt 0x1000 0x400000 = 0x9005" "upper_writable demo_pt 0x1000 0x400000"
    by (simp_all add: leaf_def upper_writable_def demo_slots demo_pt_cells)
  have "hw_page demo_mmu 0x400000 = Some (0x9000, False)"
    by (simp add: hw_page_mapped demo_mmu_def demo_root demo_mapped l hw_addr_def Let_def)
  moreover have "tlb_ok demo_mmu [0x400000, 0x401000]"
    by (simp add: tlb_ok_def demo_mmu_def)
  ultimately show ?thesis
    using mprotect_takes_effect [where s = demo_mmu and D = "[0x400000, 0x401000]"
        and addr = "0x400000" and len = "0x1000" and flags = 7]
    by (auto simp: demo_mmu_def demo_pt_ok demo_pages PGSIZE_def PTE_ADDR_def mmu_lookup_def l
      hw_addr_def)
qed

section \<open>Calls without effect\<close>

lemma protect_each_no_entry:
  assumes "\<forall>v\<in>set us. get_entry s v = Ret 0"
  shows "protect_each flags us s = Ret s"
    and "get_entry s v = Aborted \<Longrightarrow> protect_each flags (us @ v # vs) s = Aborted"
  using assms by (induction us) (auto simp: mprotect_page_def)

text \<open>C32: \<open>mprotect\<close> reports -1 exactly for unaligned arguments, and then changes nothing.  It
  returns 0 and changes nothing for a range that wraps round the address space and for a range
  of any length none of whose pages has an entry; it aborts when the first page of the range
  that is not without an entry lies in a large page.\<close>

theorem mprotect_without_effect:
  "(mprotect s addr len flags = Some (Ret (-1, s')) \<longleftrightarrow>
      (addr mod PGSIZE \<noteq> 0 \<or> len mod PGSIZE \<noteq> 0) \<and> s' = s) \<and>
   (addr mod PGSIZE = 0 \<and> len mod PGSIZE = 0 \<and> addr + len \<le> addr \<longrightarrow>
      mprotect s addr len flags = Some (Ret (0, s))) \<and>
   (addr mod PGSIZE = 0 \<and> len mod PGSIZE = 0 \<and>
      (\<forall>v\<in>set (pages addr (unat len div 4096)). get_entry s v = Ret 0) \<longrightarrow>
      mprotect s addr len flags = Some (Ret (0, s))) \<and>
   (addr mod PGSIZE = 0 \<and> len mod PGSIZE = 0 \<and> addr < addr + len \<and>
      pages addr (unat len div 4096) = us @ v # vs \<and>
      (\<forall>u\<in>set us. get_entry s u = Ret 0) \<and> get_entry s v = Aborted \<longrightarrow>
      mprotect s addr len flags = Some Aborted)"
  unfolding mprotect_each
  using protect_each_no_entry(1) [of "pages addr (unat len div 4096)" s flags]
  by (cases "protect_each flags (pages addr (unat len div 4096)) s") (auto simp: protect_each_no_entry)

theorem mprotect_without_effect_witness:
  "mprotect demo_mmu 0x400010 0x1000 7 = Some (Ret (-1, demo_mmu)) \<and>
   mprotect demo_mmu 0x400000 0x1000 7 \<noteq> Some (Ret (-1, demo_mmu)) \<and>
   mprotect demo_mmu 0x400000 0xffffffffffc00000 7 = Some (Ret (0, demo_mmu)) \<and>
   mprotect demo_mmu 0x600000 0x2000 7 = Some (Ret (0, demo_mmu)) \<and>
   mprotect (demo_mmu\<lparr>pmem := \<lambda>_. 0x81\<rparr>) 0x400000 0x1000 7 = Some Aborted"
proof -
  have "read64 demo_pt 0x3018 = 0"
    by (simp add: demo_pt_def disj8_def byte_mem.rd_wr_disj)
  then have e: "get_entry demo_mmu 0x600000 = Ret 0" "get_entry demo_mmu 0x601000 = Ret 0"
    by (simp_all add: get_entry_def demo_mmu_def Let_def idx_defs demo_pt_cells next_table_def
      PTE_P_def PTE_PS_def PTE_ADDR_def phys_to_virt_def deref_def PHYS_OFFSET_def)
  have eight: "[0..<8 :: nat] = [0, 1, 2, 3, 4, 5, 6, 7]" by (simp add: upt_rec)
  have l: "get_entry (demo_mmu\<lparr>pmem := \<lambda>_. 0x81\<rparr>) 0x400000 = Aborted"
    by (simp add: get_entry_def Let_def next_table_def deref_def read64_def PTE_P_def PTE_PS_def eight)
  have p: "pages 0x600000 2 = [0x600000, 0x601000]" by (simp add: pages_def numeral_2_eq_2)
  note no = mprotect_without_effect [where flags = 7 and us = "[]" and vs = "[]"]
  show ?thesis
    using no [where s = demo_mmu and s' = demo_mmu and addr = "0x400010" and len = "0x1000"]
      no [where s = demo_mmu and s' = demo_mmu and addr = "0x400000" and len = "0x1000"]
      no [where s = demo_mmu and addr = "0x400000" and len = "0xffffffffffc00000"]
      no [where s = demo_mmu and addr = "0x600000" and len = "0x2000"]
      no [where s = "demo_mmu\<lparr>pmem := \<lambda>_. 0x81\<rparr>" and addr = "0x400000" and len = "0x1000" and v = "0x400000"]
    by (simp add: PGSIZE_def e l p demo_pages)
qed

end
