(* ===== verification/Exceptions.thy ===== *)
theory Exceptions
  imports Paging
begin

text \<open>
  What the three enclaves of \<open>server/exception\<close> share: instructions that fault, a
  handler, and the retry.  A store that faults is executed again when the handler
  returns; a \<open>ud2\<close> traps, and execution goes on where the handler left the instruction
  pointer.

  The contracts of the handlers are two locales.  \<open>ud2_handler\<close>: the handler steps over
  the two bytes of \<open>ud2\<close> and counts; its client is the \<open>ud2\<close> loop of every
  \<open>ecall_exception\<close>.  \<open>fault_service\<close>: the handler makes the faulting page writable and
  counts; its client is the loop over the test buffer.  The enclave theories interpret
  them on their own handlers.
\<close>

section \<open>Stores that fault\<close>

partial_function (option) store_retry ::
  "('s \<Rightarrow> u64 \<Rightarrow> u8 \<Rightarrow> 's access) \<Rightarrow> ('s \<Rightarrow> ('s, 's) run) \<Rightarrow> u64 \<Rightarrow> u8 \<Rightarrow> 's \<Rightarrow> ('s, 's) run"
where
  "store_retry store serve v b s =
     (case store s v b of
        Done s' \<Rightarrow> Some (Inr s')
      | Fault s1 \<Rightarrow> (case serve s1 of
            None \<Rightarrow> None
          | Some (Inl a) \<Rightarrow> Some (Inl a)
          | Some (Inr s2) \<Rightarrow> store_retry store serve v b s2))"

primrec store_each ::
  "('s \<Rightarrow> u64 \<Rightarrow> u8 \<Rightarrow> 's access) \<Rightarrow> ('s \<Rightarrow> ('s, 's) run) \<Rightarrow> u8 \<Rightarrow> u64 list \<Rightarrow> 's \<Rightarrow> ('s, 's) run"
where
  "store_each store serve b [] s = Some (Inr s)"
| "store_each store serve b (v # vs) s =
     and_then (store_retry store serve v b s) (store_each store serve b vs)"

locale fault_service =
  fixes store :: "'s \<Rightarrow> u64 \<Rightarrow> u8 \<Rightarrow> 's access"
    and serve :: "'s \<Rightarrow> ('s, 's) run"
    and inv :: "'s \<Rightarrow> bool"
    and pgs :: "u64 set"
    and writable :: "'s \<Rightarrow> u64 \<Rightarrow> bool"
    and count :: "'s \<Rightarrow> u32"
    and others :: "'s \<Rightarrow> 'k"
  assumes store_done: "inv s \<Longrightarrow> v \<in> pgs \<Longrightarrow> writable s v \<Longrightarrow>
      \<exists>s'. store s v b = Done s' \<and> inv s' \<and> count s' = count s \<and> others s' = others s \<and>
        (\<forall>u\<in>pgs. writable s' u = writable s u)"
    and store_served: "inv s \<Longrightarrow> v \<in> pgs \<Longrightarrow> \<not> writable s v \<Longrightarrow>
      \<exists>s1 s2. store s v b = Fault s1 \<and> serve s1 = Some (Inr s2) \<and> inv s2 \<and>
        count s2 = count s + 1 \<and> others s2 = others s \<and>
        (\<forall>u\<in>pgs. writable s2 u = (writable s u \<or> u = v))"
begin

lemma store_retry_ok:
  assumes "inv s" "v \<in> pgs"
  shows "\<exists>s'. store_retry store serve v b s = Some (Inr s') \<and> inv s' \<and>
    count s' = count s + (if writable s v then 0 else 1) \<and> others s' = others s \<and>
    (\<forall>u\<in>pgs. writable s' u = (writable s u \<or> u = v))"
proof (cases "writable s v")
  case True
  then show ?thesis
    using store_done [OF assms True, of b] by (subst store_retry.simps) auto
next
  case False
  then obtain s1 s2 where f: "store s v b = Fault s1" "serve s1 = Some (Inr s2)" "inv s2"
    "count s2 = count s + 1" "others s2 = others s" "\<forall>u\<in>pgs. writable s2 u = (writable s u \<or> u = v)"
    using store_served [OF assms, of b] by blast
  have step: "store_retry store serve v b s = store_retry store serve v b s2"
    by (subst store_retry.simps) (simp add: f)
  obtain s' where d: "store s2 v b = Done s'" "inv s'" "count s' = count s2" "others s' = others s2"
    "\<forall>u\<in>pgs. writable s' u = writable s2 u"
    using store_done [of s2 v b] f assms(2) by auto
  have "store_retry store serve v b s2 = Some (Inr s')"
    by (subst store_retry.simps) (simp add: d(1))
  then show ?thesis using step d f False by auto
qed

text \<open>A pass over the buffer ends; each page that was not writable faults exactly once.\<close>

lemma store_each_ok:
  assumes "inv s" "set vs \<subseteq> pgs" "distinct vs"
  shows "\<exists>s'. store_each store serve b vs s = Some (Inr s') \<and> inv s' \<and>
    count s' = count s + of_nat (length (filter (\<lambda>v. \<not> writable s v) vs)) \<and>
    others s' = others s \<and> (\<forall>u\<in>pgs. writable s' u = (writable s u \<or> u \<in> set vs))"
  using assms
proof (induction vs arbitrary: s)
  case (Cons v vs)
  then obtain s1 where s1: "store_retry store serve v b s = Some (Inr s1)" "inv s1"
    "count s1 = count s + (if writable s v then 0 else 1)" "others s1 = others s"
    "\<forall>u\<in>pgs. writable s1 u = (writable s u \<or> u = v)"
    using store_retry_ok [of s v b] by auto
  have same: "filter (\<lambda>u. \<not> writable s1 u) vs = filter (\<lambda>u. \<not> writable s u) vs"
    using Cons.prems s1(5) by (intro filter_cong) auto
  obtain s' where s': "store_each store serve b vs s1 = Some (Inr s')" "inv s'"
    "count s' = count s1 + of_nat (length (filter (\<lambda>v. \<not> writable s1 v) vs))"
    "others s' = others s1" "\<forall>u\<in>pgs. writable s' u = (writable s1 u \<or> u \<in> set vs)"
    using Cons.IH [of s1] s1(2) Cons.prems by auto
  show ?case using s1 s' Cons.prems by (auto simp: same)
qed simp

end

text \<open>
  The same with the memory behind the pages: page \<open>v\<close> is the cell \<open>frame v\<close>, a store that is done
  writes that cell, a fault that is served replaces the entry of the page and no cell.
\<close>

locale memory_service =
  fault_service store serve inv pgs writable count others
  for store :: "'s \<Rightarrow> u64 \<Rightarrow> u8 \<Rightarrow> 's access" and serve :: "'s \<Rightarrow> ('s, 's) run" and inv :: "'s \<Rightarrow> bool"
    and pgs :: "u64 set" and writable :: "'s \<Rightarrow> u64 \<Rightarrow> bool" and count :: "'s \<Rightarrow> u32" and others :: "'s \<Rightarrow> 'k" +
  fixes cell :: "'s \<Rightarrow> 'p \<Rightarrow> u8"
    and entry :: "'s \<Rightarrow> u64 \<Rightarrow> 'e"
    and data :: "'p set"
    and frame :: "u64 \<Rightarrow> 'p"
    and granted :: "u64 \<Rightarrow> 'e"
  assumes store_cell: "inv s \<Longrightarrow> v \<in> pgs \<Longrightarrow> store s v b = Done s' \<Longrightarrow>
      (\<forall>p\<in>data. cell s' p = (if p = frame v then b else cell s p)) \<and> (\<forall>u\<in>pgs. entry s' u = entry s u)"
    and serve_cell: "inv s \<Longrightarrow> v \<in> pgs \<Longrightarrow> store s v b = Fault s1 \<Longrightarrow> serve s1 = Some (Inr s2) \<Longrightarrow>
      (\<forall>p\<in>data. cell s2 p = cell s p) \<and> (\<forall>u\<in>pgs. entry s2 u = (if u = v then granted v else entry s u))"
begin

lemma store_retry_cell:
  assumes "inv s" "v \<in> pgs" "store_retry store serve v b s = Some (Inr s')"
  shows "(\<forall>p\<in>data. cell s' p = (if p = frame v then b else cell s p)) \<and>
    (\<forall>u\<in>pgs. entry s' u = (if u = v \<and> \<not> writable s v then granted v else entry s u))"
proof (cases "writable s v")
  case True
  then obtain t where "store s v b = Done t" using store_done [OF assms(1,2) True, of b] by blast
  moreover from this have "s' = t" using assms(3) by (subst (asm) store_retry.simps) simp
  ultimately show ?thesis using store_cell [OF assms(1,2)] True by simp
next
  case False
  then obtain s1 s2 where f: "store s v b = Fault s1" "serve s1 = Some (Inr s2)" "inv s2"
    "\<forall>u\<in>pgs. writable s2 u = (writable s u \<or> u = v)"
    using store_served [OF assms(1,2), of b] by blast
  obtain t where t: "store s2 v b = Done t" using store_done [of s2 v b] f assms(2) by auto
  have "store_retry store serve v b s = store_retry store serve v b s2"
    by (subst store_retry.simps) (simp add: f)
  moreover have "\<dots> = Some (Inr t)" by (subst store_retry.simps) (simp add: t)
  ultimately have "s' = t" using assms(3) by simp
  then show ?thesis using serve_cell [OF assms(1,2) f(1,2)] store_cell [OF f(3) assms(2) t] False by simp
qed

lemma store_each_cells:
  assumes "inv s" "set vs \<subseteq> pgs" "store_each store serve b vs s = Some (Inr s')"
  shows "inv s' \<and> (\<forall>p\<in>data. cell s' p = (if p \<in> frame ` set vs then b else cell s p)) \<and>
    (\<forall>u\<in>pgs. entry s' u = (if u \<in> set vs \<and> \<not> writable s u then granted u else entry s u))"
  using assms
proof (induction vs arbitrary: s)
  case (Cons v vs)
  obtain s1 where s1: "store_retry store serve v b s = Some (Inr s1)" "inv s1"
    "\<forall>u\<in>pgs. writable s1 u = (writable s u \<or> u = v)"
    using store_retry_ok [of s v b] Cons.prems by auto
  have "store_each store serve b vs s1 = Some (Inr s')" using Cons.prems(3) s1(1) by simp
  from Cons.IH [OF s1(2) _ this] store_retry_cell [OF Cons.prems(1) _ s1(1)] s1(3) Cons.prems(2)
  show ?case by auto
qed simp

end

text \<open>
  A second, more detailed machine under the same loop.  \<open>abs\<close> gives the state of the first;
  a store does on it what it does there, and a fault that the first machine serves is served by
  the second, which keeps what \<open>keep\<close> sees of it.
\<close>

locale fault_refinement =
  fault_service store serve inv pgs writable count others
  for store :: "'s \<Rightarrow> u64 \<Rightarrow> u8 \<Rightarrow> 's access" and serve :: "'s \<Rightarrow> ('s, 's) run" and inv :: "'s \<Rightarrow> bool"
    and pgs :: "u64 set" and writable :: "'s \<Rightarrow> u64 \<Rightarrow> bool" and count :: "'s \<Rightarrow> u32" and others :: "'s \<Rightarrow> 'k" +
  fixes store' :: "'t \<Rightarrow> u64 \<Rightarrow> u8 \<Rightarrow> 't access"
    and serve' :: "'t \<Rightarrow> ('t, 't) run"
    and abs :: "'t \<Rightarrow> 's"
    and ready :: "'t \<Rightarrow> bool"
    and keep :: "'t \<Rightarrow> 'q"
  assumes done_refines: "ready c \<Longrightarrow> inv (abs c) \<Longrightarrow> v \<in> pgs \<Longrightarrow> store (abs c) v b = Done s \<Longrightarrow>
      \<exists>c'. store' c v b = Done c' \<and> abs c' = s \<and> ready c' \<and> keep c' = keep c"
    and served_refines: "ready c \<Longrightarrow> inv (abs c) \<Longrightarrow> v \<in> pgs \<Longrightarrow> store (abs c) v b = Fault s1 \<Longrightarrow>
      serve s1 = Some (Inr s2) \<Longrightarrow>
      \<exists>c1 c2. store' c v b = Fault c1 \<and> serve' c1 = Some (Inr c2) \<and> abs c2 = s2 \<and> ready c2 \<and> keep c2 = keep c"
begin

lemma store_retry_refines:
  assumes "ready c" "inv (abs c)" "v \<in> pgs"
  shows "\<exists>c'. store_retry store' serve' v b c = Some (Inr c') \<and>
    store_retry store serve v b (abs c) = Some (Inr (abs c')) \<and> ready c' \<and> keep c' = keep c"
proof (cases "writable (abs c) v")
  case True
  then obtain s where s: "store (abs c) v b = Done s" using store_done [OF assms(2,3) True, of b] by blast
  obtain c' where c': "store' c v b = Done c'" "abs c' = s" "ready c'" "keep c' = keep c"
    using done_refines [OF assms s] by blast
  have "store_retry store' serve' v b c = Some (Inr c')" by (subst store_retry.simps) (simp add: c')
  moreover have "store_retry store serve v b (abs c) = Some (Inr (abs c'))"
    by (subst store_retry.simps) (simp add: s c')
  ultimately show ?thesis using c' by blast
next
  case False
  then obtain s1 s2 where f: "store (abs c) v b = Fault s1" "serve s1 = Some (Inr s2)" "inv s2" "writable s2 v"
    using store_served [OF assms(2,3), of b] assms(3) by blast
  obtain c1 c2 where c2: "store' c v b = Fault c1" "serve' c1 = Some (Inr c2)" "abs c2 = s2" "ready c2" "keep c2 = keep c"
    using served_refines [OF assms f(1,2)] by blast
  obtain s where s: "store s2 v b = Done s" using store_done [OF f(3) assms(3) f(4), of b] by blast
  obtain c' where c': "store' c2 v b = Done c'" "abs c' = s" "ready c'" "keep c' = keep c2"
    using done_refines [OF c2(4), of v b s] f(3) assms(3) s c2(3) by blast
  have "store_retry store' serve' v b c = store_retry store' serve' v b c2"
    by (subst store_retry.simps) (simp add: c2)
  also have "\<dots> = Some (Inr c')" by (subst store_retry.simps) (simp add: c')
  finally have "store_retry store' serve' v b c = Some (Inr c')" .
  moreover have "store_retry store serve v b (abs c) = store_retry store serve v b s2"
    by (subst store_retry.simps) (simp add: f)
  moreover have "\<dots> = Some (Inr (abs c'))" by (subst store_retry.simps) (simp add: s c')
  ultimately show ?thesis using c' c2 by auto
qed

end

text \<open>A store that faults again after every return of the handler never ends.\<close>

lemma store_retry_diverges:
  assumes "\<And>t. stuck t \<Longrightarrow> \<exists>t1 t2. store t v b = Fault t1 \<and> serve t1 = Some (Inr t2) \<and> stuck t2"
    and "stuck s"
  shows "store_retry store serve v b s = None"
proof -
  define P where "P = (\<lambda>st sv v' b' t (r :: 'a + 'a).
    st = store \<longrightarrow> sv = serve \<longrightarrow> v' = v \<longrightarrow> b' = b \<longrightarrow> \<not> stuck t)"
  have step: "P st sv v' b' t r"
    if IH: "\<And>st sv v' b' t y. rec st sv v' b' t = Some y \<Longrightarrow> P st sv v' b' t y"
      and body: "(case st t v' b' of Done s' \<Rightarrow> Some (Inr s')
        | Fault s1 \<Rightarrow> (case sv s1 of None \<Rightarrow> None | Some (Inl a) \<Rightarrow> Some (Inl a)
            | Some (Inr s2) \<Rightarrow> rec st sv v' b' s2)) = Some r"
    for rec st sv v' b' t r
    unfolding P_def
  proof (intro impI notI)
    assume eqs: "st = store" "sv = serve" "v' = v" "b' = b" and "stuck t"
    from assms(1) [OF \<open>stuck t\<close>] obtain t1 t2 where "store t v b = Fault t1"
      "serve t1 = Some (Inr t2)" "stuck t2" by blast
    then show False using body IH [of store serve v b t2] by (simp add: eqs P_def)
  qed
  have "P store serve v b s r" if "store_retry store serve v b s = Some r" for r
    by (rule store_retry.raw_induct [where P = P, OF _ that]) (rule step)
  then show ?thesis using assms(2) by (fastforce simp: P_def)
qed

text \<open>What neither the store nor a handler that returns changes, a completed store leaves alone.\<close>

lemma store_retry_keeps:
  fixes proj :: "'s \<Rightarrow> 'k"
  assumes "\<And>t t'. store t v b = Done t' \<Longrightarrow> proj t' = proj t"
    and "\<And>t t1 t2. store t v b = Fault t1 \<Longrightarrow> serve t1 = Some (Inr t2) \<Longrightarrow> proj t2 = proj t"
    and "store_retry store serve v b s = Some (Inr s')"
  shows "proj s' = proj s"
proof -
  define P where "P = (\<lambda>st sv v' b' t (r :: 's + 's).
    st = store \<longrightarrow> sv = serve \<longrightarrow> v' = v \<longrightarrow> b' = b \<longrightarrow> (\<forall>t'. r = Inr t' \<longrightarrow> proj t' = proj t))"
  have step: "P st sv v' b' t r"
    if IH: "\<And>st sv v' b' t y. rec st sv v' b' t = Some y \<Longrightarrow> P st sv v' b' t y"
      and body: "(case st t v' b' of Done s' \<Rightarrow> Some (Inr s')
        | Fault s1 \<Rightarrow> (case sv s1 of None \<Rightarrow> None | Some (Inl a) \<Rightarrow> Some (Inl a)
            | Some (Inr s2) \<Rightarrow> rec st sv v' b' s2)) = Some r"
    for rec st sv v' b' t r
    unfolding P_def
  proof (intro impI allI)
    fix t' assume eqs: "st = store" "sv = serve" "v' = v" "b' = b" "r = Inr t'"
    show "proj t' = proj t"
    proof (cases "store t v b")
      case (Done x)
      then show ?thesis using body assms(1) by (simp add: eqs)
    next
      case (Fault t1)
      then obtain t2 where t2: "serve t1 = Some (Inr t2)" "rec store serve v b t2 = Some (Inr t')"
        using body by (auto simp: eqs split: option.splits sum.splits)
      then show ?thesis using IH [OF t2(2)] assms(2) [OF Fault t2(1)] by (simp add: P_def)
    qed
  qed
  have "P store serve v b s (Inr s')"
    by (rule store_retry.raw_induct [where P = P, OF _ assms(3)]) (rule step)
  then show ?thesis by (simp add: P_def)
qed

lemma store_each_keeps:
  fixes proj :: "'s \<Rightarrow> 'k"
  assumes "\<And>t v t'. store t v b = Done t' \<Longrightarrow> proj t' = proj t"
    and "\<And>t v t1 t2. store t v b = Fault t1 \<Longrightarrow> serve t1 = Some (Inr t2) \<Longrightarrow> proj t2 = proj t"
  shows "store_each store serve b vs s = Some (Inr s') \<Longrightarrow> proj s' = proj s"
proof (induction vs arbitrary: s)
  case (Cons v vs)
  then obtain s1 where s1: "store_retry store serve v b s = Some (Inr s1)" "store_each store serve b vs s1 = Some (Inr s')"
    by (auto simp: and_then_def split: option.splits sum.splits)
  have "proj s1 = proj s"
    by (rule store_retry_keeps [where store = store and serve = serve and proj = proj, OF _ _ s1(1)])
      (rule assms; assumption)+
  then show ?case using Cons.IH [OF s1(2)] by simp
qed simp

section \<open>The ud2 loop\<close>

text \<open>An instruction that traps is executed again as long as the handler leaves its address.\<close>

partial_function (option) trap_run ::
  "('f \<Rightarrow> 's \<Rightarrow> ('s, 'f \<times> 's) run) \<Rightarrow> ('f \<Rightarrow> u64) \<Rightarrow> 'f \<Rightarrow> 's \<Rightarrow> ('s, u64 \<times> 's) run"
where
  "trap_run handle ip f s =
     (case handle f s of
        None \<Rightarrow> None
      | Some (Inl a) \<Rightarrow> Some (Inl a)
      | Some (Inr r) \<Rightarrow>
          if ip (fst r) = ip f then trap_run handle ip (fst r) (snd r)
          else Some (Inr (ip (fst r), snd r)))"

text \<open>A handler that always returns to the instruction makes it trap for ever.\<close>

lemma trap_run_diverges:
  fixes handle :: "'f \<Rightarrow> 's \<Rightarrow> ('s, 'f \<times> 's) run"
  assumes "\<And>f s. stuck f s \<Longrightarrow> \<exists>f' s'. handle f s = Some (Inr (f', s')) \<and> ip f' = ip f \<and> stuck f' s'"
    and "stuck f s"
  shows "trap_run handle ip f s = None"
proof -
  define P where "P = (\<lambda>h i f (s :: 's) (r :: 's + u64 \<times> 's). h = handle \<longrightarrow> i = ip \<longrightarrow> \<not> stuck f s)"
  have step: "P h i f s r"
    if IH: "\<And>h i f s y. rec h i f s = Some y \<Longrightarrow> P h i f s y"
      and body: "(case h f s of None \<Rightarrow> None | Some (Inl a) \<Rightarrow> Some (Inl a)
        | Some (Inr r) \<Rightarrow> if i (fst r) = i f then rec h i (fst r) (snd r)
            else Some (Inr (i (fst r), snd r))) = Some r"
    for rec and h :: "'f \<Rightarrow> 's \<Rightarrow> ('s, 'f \<times> 's) run" and i f s r
    unfolding P_def
  proof (intro impI notI)
    assume eqs: "h = handle" "i = ip" and "stuck f s"
    from assms(1) [OF \<open>stuck f s\<close>] obtain f' s' where "handle f s = Some (Inr (f', s'))"
      "ip f' = ip f" "stuck f' s'" by blast
    then show False using body IH [of handle ip f' s'] by (simp add: eqs P_def)
  qed
  have "P handle ip f s r" if "trap_run handle ip f s = Some r" for r
    by (rule trap_run.raw_induct [where P = P, OF _ that]) (rule step)
  then show ?thesis using assms(2) by (fastforce simp: P_def)
qed

lemma trap_run_keeps:
  fixes handle :: "'f \<Rightarrow> 's \<Rightarrow> ('s, 'f \<times> 's) run" and proj :: "'s \<Rightarrow> 'k"
  assumes "\<And>f t f' t'. handle f t = Some (Inr (f', t')) \<Longrightarrow> proj t' = proj t"
    and "trap_run handle ip f s = Some (Inr (r, s'))"
  shows "proj s' = proj s"
proof -
  define P where "P = (\<lambda>h (i :: 'f \<Rightarrow> u64) (f :: 'f) (t :: 's) (y :: 's + u64 \<times> 's).
    h = handle \<longrightarrow> (\<forall>x. y = Inr x \<longrightarrow> proj (snd x) = proj t))"
  have step: "P h i f t y"
    if IH: "\<And>h i f t y. rec h i f t = Some y \<Longrightarrow> P h i f t y"
      and body: "(case h f t of None \<Rightarrow> None | Some (Inl a) \<Rightarrow> Some (Inl a)
        | Some (Inr r) \<Rightarrow> if i (fst r) = i f then rec h i (fst r) (snd r)
            else Some (Inr (i (fst r), snd r))) = Some y"
    for rec h i f t y
    unfolding P_def
  proof (intro impI allI)
    fix x assume eqs: "h = handle" "y = Inr x"
    obtain f' t' where h: "handle f t = Some (Inr (f', t'))"
      using body by (auto simp: eqs split: option.splits sum.splits)
    show "proj (snd x) = proj t"
    proof (cases "i f' = i f")
      case True
      then have "rec handle i f' t' = Some (Inr x)" using body h by (simp add: eqs)
      from IH [OF this] show ?thesis using assms(1) [OF h] by (cases x) (simp add: P_def)
    next
      case False
      then have "snd x = t'" using body h by (auto simp: eqs)
      then show ?thesis using assms(1) [OF h] by simp
    qed
  qed
  have "P handle ip f s (Inr (r, s'))"
    by (rule trap_run.raw_induct [where P = P, OF _ assms(2)]) (rule step)
  then show ?thesis by (simp add: P_def)
qed

text \<open>\<open>for (uint32_t i = 0; i < nrepeats; i ++) ud2;\<close> The frame is the one the processor
  builds at the \<open>ud2\<close>.\<close>

primrec ud2_loop ::
  "('f \<Rightarrow> 's \<Rightarrow> ('s, 'f \<times> 's) run) \<Rightarrow> ('f \<Rightarrow> u64) \<Rightarrow> 'f \<Rightarrow> nat \<Rightarrow> 's \<Rightarrow> ('s, 's) run"
where
  "ud2_loop handle ip f 0 s = Some (Inr s)"
| "ud2_loop handle ip f (Suc n) s =
     and_then (trap_run handle ip f s)
       (\<lambda>(r, s'). if r = ip f + 2 then ud2_loop handle ip f n s' else None)"

lemma ud2_loop_keeps:
  fixes handle :: "'f \<Rightarrow> 's \<Rightarrow> ('s, 'f \<times> 's) run" and proj :: "'s \<Rightarrow> 'k"
  assumes "\<And>f t f' t'. handle f t = Some (Inr (f', t')) \<Longrightarrow> proj t' = proj t"
  shows "ud2_loop handle ip f n s = Some (Inr s') \<Longrightarrow> proj s' = proj s"
proof (induction n arbitrary: s)
  case (Suc n)
  then obtain r s1 where s1: "trap_run handle ip f s = Some (Inr (r, s1))" "ud2_loop handle ip f n s1 = Some (Inr s')"
    by (auto simp: and_then_def split: option.splits sum.splits if_splits)
  have "proj s1 = proj s" by (rule trap_run_keeps [where proj = proj, OF _ s1(1)]) (rule assms)
  then show ?case using Suc.IH [OF s1(2)] by simp
qed simp

locale ud2_handler =
  fixes handle :: "'f \<Rightarrow> 's \<Rightarrow> ('s, 'f \<times> 's) run"
    and ip :: "'f \<Rightarrow> u64"
    and is_ud :: "'f \<Rightarrow> bool"
    and ready :: "'s \<Rightarrow> bool"
    and count :: "'s \<Rightarrow> u32"
    and others :: "'s \<Rightarrow> 'k"
  assumes handle_ud: "is_ud f \<Longrightarrow> ready s \<Longrightarrow>
      \<exists>f' s'. handle f s = Some (Inr (f', s')) \<and> ip f' = ip f + 2 \<and> ready s' \<and>
        count s' = count s + 1 \<and> others s' = others s"
begin

lemma ud2_loop_counts:
  assumes "is_ud f" "ready s"
  shows "\<exists>s'. ud2_loop handle ip f n s = Some (Inr s') \<and> ready s' \<and>
    count s' = count s + of_nat n \<and> others s' = others s"
  using assms(2)
proof (induction n arbitrary: s)
  case (Suc n)
  obtain f' s1 where h: "handle f s = Some (Inr (f', s1))" "ip f' = ip f + 2" "ready s1"
    "count s1 = count s + 1" "others s1 = others s"
    using handle_ud [OF assms(1) Suc.prems] by blast
  have "trap_run handle ip f s = Some (Inr (ip f + 2, s1))"
    by (subst trap_run.simps) (simp add: h)
  then show ?case using Suc.IH [OF h(3)] h by (auto simp: algebra_simps)
qed simp

end

end
