(* ===== verification/PEnclave.thy ===== *)
theory PEnclave
  imports Signal Mprotect Exceptions
begin

text \<open>
  The P-Enclave of \<open>server/exception/exception_p_enclave/Enclave/Enclave.cpp\<close>: the
  exception handler, \<open>dump_trapframe\<close>, and \<open>ecall_exception\<close>, the benchmark that
  write-protects a buffer, takes a page fault on each of its pages and then a \<open>#UD\<close> per
  repetition.

  Exceptions are delivered through the interrupt descriptor table that
  \<open>init_exception\<close> writes, to the registered handler, and the faulting instruction is
  executed again.
\<close>

section \<open>State\<close>

text \<open>The functions \<open>g_handler\<close> may point to.\<close>

datatype c_fun = Exception_handler

record penclave = mmu +
  idt_mem :: memory
  idt_reg :: idtr
  g_handler :: "c_fun option"
  g_intr_count :: u32
  g_pf_count :: u32
  g_ud_count :: u32
  injected :: "(u32 \<times> u64) list"
  out :: "event list"
  rdtscs :: nat

text \<open>
  What the linker, the loader and the processor provide: the stub addresses, the
  addresses of \<open>idt\<close> and \<open>test_buf\<close> and the initial contents of \<open>idt\<close>, the value of
  the time stamp counter (EDX and EAX) at its n-th reading, and the frames the processor
  builds at a store into the buffer and at the \<open>ud2\<close>.
\<close>

record env =
  entries :: "nat \<Rightarrow> u64"
  idt_addr :: u64
  idt0 :: "gatedesc list"
  test_buf :: u64
  tsc :: "nat \<Rightarrow> u32 \<times> u32"
  store_frame :: trapframe
  ud_frame :: trapframe

definition BUF_SIZE :: nat where "BUF_SIZE = 128 * 2 ^ 20"

text \<open>\<open>printf_ocall\<close> hands the formatted text to the App: an event.\<close>

definition printf_ocall :: "string \<Rightarrow> arg list \<Rightarrow> penclave \<Rightarrow> penclave" where
  "printf_ocall fmt args s = s\<lparr>out := out s @ [Print fmt args]\<rparr>"

definition rdtscp :: "env \<Rightarrow> penclave \<Rightarrow> u64 \<times> penclave" where
  "rdtscp E s =
     (let (hi, lo) = tsc E (rdtscs s)
      in (push_bit 32 (ucast hi) OR ucast lo, s\<lparr>rdtscs := rdtscs s + 1\<rparr>))"

section \<open>The handler\<close>

definition dump_trapframe :: "trapframe \<Rightarrow> penclave \<Rightarrow> penclave" where
  "dump_trapframe tf s =
     fold (\<lambda>(fmt, args). printf_ocall fmt (map AWord args))
       [(''RAX=%016lx RBX=%016lx RCX=%016lx RDX=%016lx'' @ nl, [tf_rax tf, tf_rbx tf, tf_rcx tf, tf_rdx tf]),
        (''RSI=%016lx RDI=%016lx RBP=%016lx RSP=%016lx'' @ nl, [tf_rsi tf, tf_rdi tf, tf_rbp tf, tf_rsp tf]),
        (''R8 =%016lx R9 =%016lx R10=%016lx R11=%016lx'' @ nl, [tf_r8 tf, tf_r9 tf, tf_r10 tf, tf_r11 tf]),
        (''R12=%016lx R13=%016lx R14=%016lx R15=%016lx'' @ nl, [tf_r12 tf, tf_r13 tf, tf_r14 tf, tf_r15 tf]),
        (''RIP=%016lx RFL=%016lx CS=%04lx SS=%04lx'' @ nl, [tf_rip tf, tf_rflags tf, tf_cs tf, tf_ss tf]),
        (''vector=%08lx err=%08lx'' @ nl @ nl, [tf_vector tf, tf_err_code tf])] s"

text \<open>
  \<open>vec\<close> is a signed 32-bit integer; the counters wrap at 32 bits.  The page-fault case
  passes the address as the processor recorded it.
\<close>

definition exception_handler :: "trapframe \<Rightarrow> penclave \<Rightarrow> (penclave, trapframe \<times> penclave) run" where
  "exception_handler info s =
     (let vec = ucast (tf_vector info) :: u32
      in if vec = 0x6
         then Some (Inr (info\<lparr>tf_rip := tf_rip info + 2\<rparr>, s\<lparr>g_ud_count := g_ud_count s + 1\<rparr>))
         else if vec = 0xE
         then let s = s\<lparr>g_pf_count := g_pf_count s + 1\<rparr>; fault_vaddr = read_cr2 s
              in (case mprotect s fault_vaddr PGSIZE (PTE_P OR PTE_W) of
                    None \<Rightarrow> None
                  | Some Aborted \<Rightarrow> Some (Inl s)
                  | Some (Ret (ret, s')) \<Rightarrow>
                      if ret \<noteq> 0
                      then Some (Inl (dump_trapframe info
                             (printf_ocall (''ERROR: page fault mprotect returns: %d'' @ nl) [AInt ret] s')))
                      else Some (Inr (info, s')))
         else if 32 \<le> sint vec
         then Some (Inr (info, s\<lparr>g_intr_count := g_intr_count s + 1,
                           injected := injected s @ [(vec, tf_err_code info)]\<rparr>))
         else Some (Inl (dump_trapframe info
                (printf_ocall (''ERROR: unexcept exception: %lld %llx'' @ nl)
                   [AInt (sint vec), AWord (tf_err_code info)] s))))"

primrec call_fun :: "c_fun \<Rightarrow> trapframe \<Rightarrow> penclave \<Rightarrow> (penclave, trapframe \<times> penclave) run" where
  "call_fun Exception_handler = exception_handler"

definition handle_frame :: "trapframe \<Rightarrow> penclave \<Rightarrow> (penclave, trapframe \<times> penclave) run" where
  "handle_frame tf s =
     common_exception_handler (Some \<circ> Inr) (map_option call_fun (g_handler s)) tf s"

text \<open>The handler as the assembly path calls it; a run that aborts keeps no state.\<close>

definition as_c_handler :: "(trapframe \<Rightarrow> 's \<Rightarrow> ('s, trapframe \<times> 's) run) \<Rightarrow> 's c_handler" where
  "as_c_handler h tf s = (case h tf s of Some (Inr r) \<Rightarrow> Ret r | _ \<Rightarrow> Aborted)"

text \<open>
  Delivery of a vector: no usable gate is a shutdown; an address that is no stub's is
  outside the model.
\<close>

definition raise :: "env \<Rightarrow> nat \<Rightarrow> trapframe \<Rightarrow> penclave \<Rightarrow> (penclave, trapframe \<times> penclave) run" where
  "raise E v tf s =
     (case hw_vector (idt_mem s) (idt_reg s) v of
        None \<Rightarrow> Some (Inl s)
      | Some g \<Rightarrow>
          (case entry_label (entries E) (hw_offset g) of
             None \<Rightarrow> None
           | Some n \<Rightarrow> handle_frame (tf\<lparr>tf_vector := of_nat n\<rparr>) s))"

definition serve_fault :: "env \<Rightarrow> penclave \<Rightarrow> (penclave, penclave) run" where
  "serve_fault E s =
     and_then (raise E 14 (store_frame E) s)
       (\<lambda>(tf, s'). if tf_rip tf = tf_rip (store_frame E) then Some (Inr s') else None)"

section \<open>ecall\_exception\<close>

text \<open>\<open>for (int i = 0; i < BUF_SIZE; i += PGSIZE) test_buf[i] = b;\<close>\<close>

definition write_pages :: "env \<Rightarrow> nat \<Rightarrow> u8 \<Rightarrow> penclave \<Rightarrow> (penclave, penclave) run" where
  "write_pages E bufsz b =
     store_each mmu_store8 (serve_fault E) b (pages (test_buf E) ((bufsz + 4095) div 4096))"

definition setup_handler :: "env \<Rightarrow> penclave \<Rightarrow> penclave" where
  "setup_handler E s =
     (let s = printf_ocall (''Starting...'' @ nl) [] s;
          (m, r) = init_exception (entries E) (idt_addr E) (idt0 E) (idt_mem s);
          s = s\<lparr>idt_mem := m, idt_reg := r\<rparr>;
          s = s\<lparr>g_handler := sgx_register_fast_exception_handler Exception_handler\<rparr>;
          s = printf_ocall (''Register exception handler OK!'' @ nl) [] s;
          c = read_cr3 s;
          s = cache_cr3 c s;
          s = printf_ocall (''CR3 = 0x%llx'' @ nl) [AWord c] s
      in printf_ocall (''*CR3 = 0x%llx'' @ nl) [AWord (deref s (phys_to_virt c))] s)"

text \<open>The report of a timed loop; \<open>total_time\<close> is unsigned and may wrap.\<close>

definition report :: "u64 \<Rightarrow> nat \<Rightarrow> penclave \<Rightarrow> penclave" where
  "report total_time n s =
     printf_ocall (''Average time = %.3lf (cycles)'' @ nl @ nl)
       [ADbl (dbl_div (rnd (real (unat total_time))) (real n))]
       (printf_ocall (''Total Time = %lld (cycles)'' @ nl) [AWord total_time] s)"

definition protect_buffer :: "env \<Rightarrow> nat \<Rightarrow> penclave \<Rightarrow> (penclave, penclave) run" where
  "protect_buffer E bufsz s =
     (case mprotect s (test_buf E) (of_nat bufsz) PTE_P of
        None \<Rightarrow> None
      | Some Aborted \<Rightarrow> Some (Inl s)
      | Some (Ret (ret, s')) \<Rightarrow>
          if ret \<noteq> 0
          then Some (Inl (printf_ocall (''ERROR: mprotect returns: %d'' @ nl) [AInt ret] s'))
          else (case mmu_load8 s' (test_buf E) of
                  None \<Rightarrow> None
                | Some b \<Rightarrow> Some (Inr (printf_ocall (''read OK: %d'' @ nl) [AInt (uint b)] s'))))"

definition page_fault_test :: "env \<Rightarrow> nat \<Rightarrow> penclave \<Rightarrow> (penclave, penclave) run" where
  "page_fault_test E bufsz s =
     (let (time_begin, s) = rdtscp E s
      in and_then (write_pages E bufsz 0 s) (\<lambda>s.
           let (time_end, s) = rdtscp E s;
               s = printf_ocall (''write OK'' @ nl) [] s;
               s = printf_ocall (''Write Count = %d'' @ nl) [AInt (int (bufsz div 4096))] s
           in Some (Inr (report (time_end - time_begin - 60) (bufsz div 4096) s))))"

definition ud2_test :: "env \<Rightarrow> u32 \<Rightarrow> penclave \<Rightarrow> (penclave, penclave) run" where
  "ud2_test E nrepeats s =
     (let (time_begin, s) = rdtscp E s
      in and_then (ud2_loop (raise E 6) tf_rip (ud_frame E) (unat nrepeats) s) (\<lambda>s.
           let (time_end, s) = rdtscp E s;
               s = printf_ocall (''test #UD OK'' @ nl) [] s;
               s = printf_ocall (''Count = %d'' @ nl) [AInt (sint nrepeats)] s
           in Some (Inr (report (time_end - time_begin - 60) (unat nrepeats) s))))"

definition print_counts :: "penclave \<Rightarrow> penclave" where
  "print_counts s =
     printf_ocall (''#PF Count = %d'' @ nl @ nl) [AInt (sint (g_pf_count s))]
       (printf_ocall (''#UD Count = %d'' @ nl) [AInt (sint (g_ud_count s))]
         (printf_ocall (''Interrupt Count = %d'' @ nl) [AInt (sint (g_intr_count s))] s))"

text \<open>The size of the buffer is a parameter; the code's is \<open>BUF_SIZE\<close>.\<close>

definition ecall_exception_sized ::
  "env \<Rightarrow> nat \<Rightarrow> u32 \<Rightarrow> penclave \<Rightarrow> (penclave, sgx_status \<times> penclave) run" where
  "ecall_exception_sized E bufsz nrepeats s =
     and_then (write_pages E bufsz 0 (setup_handler E s)) (\<lambda>s.
     and_then (protect_buffer E bufsz s) (\<lambda>s.
     and_then (page_fault_test E bufsz s) (\<lambda>s.
     and_then (ud2_test E nrepeats s) (\<lambda>s.
       Some (Inr (SGX_SUCCESS, print_counts s))))))"

definition ecall_exception :: "env \<Rightarrow> u32 \<Rightarrow> penclave \<Rightarrow> (penclave, sgx_status \<times> penclave) run" where
  "ecall_exception E = ecall_exception_sized E BUF_SIZE"

end
