(* ===== verification/PEnclaveRun.thy ===== *)
theory PEnclaveRun
  imports PEnclave
begin

text \<open>
  The run of the P-Enclave: that a page fault taken through the handler leaves the page
  writable and the address space well formed, and from it the whole of \<open>ecall_exception\<close>.
\<close>

section \<open>Data pages\<close>

text \<open>
  The pages in use are present, writable at the upper levels, in frames below \<open>2 ^ 48\<close>
  that hold no page table entry of the walks.
\<close>

definition frames_ok :: "memory \<Rightarrow> u64 \<Rightarrow> u64 list \<Rightarrow> bool" where
  "frames_ok m c D \<longleftrightarrow>
     list_all (\<lambda>v. v < 0xfffffffffffff000 \<and> bit (leaf m c v) 0 \<and> upper_writable m c v \<and>
       hw_addr (leaf m c v) = PTE_ADDR (leaf m c v) \<and>
       list_all (\<lambda>a. vpn a \<noteq> vpn (PTE_ADDR (leaf m c v))) (tables m c D @ map (slot0 m c) D)) D"

definition space_ok :: "u64 \<Rightarrow> u64 list \<Rightarrow> 'a mmu_scheme \<Rightarrow> bool" where
  "space_ok c D s \<longleftrightarrow>
     cr3 s = c \<and> g_cached_cr3 s = c \<and> pt_ok (pmem s) c D \<and> frames_ok (pmem s) c D \<and> tlb_ok s D"

definition page_writable :: "u64 \<Rightarrow> 'a mmu_scheme \<Rightarrow> u64 \<Rightarrow> bool" where
  "page_writable c s v \<longleftrightarrow> bit (leaf (pmem s) c v) 1"

lemma frames_okD:
  assumes "frames_ok m c D" "v \<in> set D"
  shows "v < 0xfffffffffffff000" "bit (leaf m c v) 0" "upper_writable m c v"
    and "hw_addr (leaf m c v) = PTE_ADDR (leaf m c v)"
    and "u \<in> set D \<Longrightarrow> a \<in> {slot3 m c u, slot2 m c u, slot1 m c u, slot0 m c u} \<Longrightarrow>
      vpn a \<noteq> vpn (PTE_ADDR (leaf m c v))"
proof -
  have *: "v < 0xfffffffffffff000 \<and> bit (leaf m c v) 0 \<and> upper_writable m c v \<and>
       hw_addr (leaf m c v) = PTE_ADDR (leaf m c v) \<and>
       (\<forall>a\<in>set (tables m c D @ map (slot0 m c) D). vpn a \<noteq> vpn (PTE_ADDR (leaf m c v)))"
    using assms unfolding frames_ok_def list_all_iff by blast
  then show "v < 0xfffffffffffff000" "bit (leaf m c v) 0" "upper_writable m c v"
    "hw_addr (leaf m c v) = PTE_ADDR (leaf m c v)" by blast+
  assume "u \<in> set D" "a \<in> {slot3 m c u, slot2 m c u, slot1 m c u, slot0 m c u}"
  then have "a \<in> set (tables m c D @ map (slot0 m c) D)" by (auto simp: tables_def)
  then show "vpn a \<noteq> vpn (PTE_ADDR (leaf m c v))" using * by blast
qed

lemma mmu_lookup_page:
  assumes "space_ok c D s" "v \<in> set D"
  shows "mmu_lookup s v = Some (PTE_ADDR (leaf (pmem s) c v), page_writable c s v)"
proof -
  have s: "cr3 s = c" "pt_ok (pmem s) c D" "frames_ok (pmem s) c D" "tlb_ok s D"
    using assms(1) by (auto simp: space_ok_def)
  show ?thesis
    using pt_okD [OF s(2) assms(2)] frames_okD [OF s(3) assms(2)]
    by (simp add: mmu_lookup_coherent [OF s(4) assms(2)] hw_page_mapped s(1) Let_def page_writable_def)
qed

subsection \<open>Storing a byte in a data page\<close>

lemma slots_cong:
  assumes "read64 m' (slot3 m c u) = read64 m (slot3 m c u)"
    and "read64 m' (slot2 m c u) = read64 m (slot2 m c u)"
    and "read64 m' (slot1 m c u) = read64 m (slot1 m c u)"
    and "read64 m' (slot0 m c u) = read64 m (slot0 m c u)"
  shows "slot3 m' c u = slot3 m c u" "slot2 m' c u = slot2 m c u" "slot1 m' c u = slot1 m c u"
    and "slot0 m' c u = slot0 m c u" "mapped m' c u = mapped m c u" "leaf m' c u = leaf m c u"
    and "upper_writable m' c u = upper_writable m c u"
proof -
  show s3: "slot3 m' c u = slot3 m c u" by (simp add: slot3_def)
  show s2: "slot2 m' c u = slot2 m c u" by (simp add: slot2_def s3 assms)
  show s1: "slot1 m' c u = slot1 m c u" by (simp add: slot1_def s2 assms)
  show s0: "slot0 m' c u = slot0 m c u" by (simp add: slot0_def s1 assms)
  show "mapped m' c u = mapped m c u" by (simp add: mapped_def s3 s2 s1 assms)
  show "upper_writable m' c u = upper_writable m c u" by (simp add: upper_writable_def s3 s2 s1 assms)
  show "leaf m' c u = leaf m c u" by (simp add: leaf_def s0 assms)
qed

lemma cell_in_page:
  assumes "aligned8 a" "i < 8"
  shows "vpn (a + of_nat i) = vpn a"
proof (rule bit_word_eqI)
  have "a AND of_nat i = 0"
  proof (rule bit_word_eqI)
    fix n
    have "\<not> bit (of_nat i :: u64) n" if "3 \<le> n"
    proof -
      have "i < 2 ^ n" using assms(2) that power_increasing [of 3 n "2::nat"] by simp
      then have "\<not> bit i n" by (simp add: bit_iff_odd)
      then show ?thesis by (simp add: bit_simps)
    qed
    then show "bit (a AND of_nat i) n = bit (0 :: u64) n"
      using assms(1) by (cases "n < 3") (auto simp: bit_simps aligned8_bits)
  qed
  then have or: "a + of_nat i = a OR of_nat i" by (rule disjunctive_add_eq_or)
  fix n
  have "i < 2 ^ (n + 12)" using assms(2) power_increasing [of 3 "n + 12" "2::nat"] by simp
  then have "\<not> bit i (n + 12)" by (simp add: bit_iff_odd)
  then show "bit (vpn (a + of_nat i)) n = bit (vpn a) n"
    by (simp add: or vpn_def bit_simps add.commute)
qed

lemma read64_other_page:
  assumes "aligned8 a" "vpn a \<noteq> vpn p"
  shows "read64 (m(p := x)) a = read64 m a"
  using cell_in_page [OF assms(1)] assms(2) by (intro read64_cong) auto

text \<open>A memory that agrees on the entries of all walks is the same address space.\<close>

lemma space_cong:
  assumes "\<And>u. u \<in> set D \<Longrightarrow> read64 m' (slot3 m c u) = read64 m (slot3 m c u)"
    and "\<And>u. u \<in> set D \<Longrightarrow> read64 m' (slot2 m c u) = read64 m (slot2 m c u)"
    and "\<And>u. u \<in> set D \<Longrightarrow> read64 m' (slot1 m c u) = read64 m (slot1 m c u)"
    and "\<And>u. u \<in> set D \<Longrightarrow> read64 m' (slot0 m c u) = read64 m (slot0 m c u)"
  shows "pt_ok m' c D = pt_ok m c D" "frames_ok m' c D = frames_ok m c D"
    and "u \<in> set D \<Longrightarrow> leaf m' c u = leaf m c u"
    and "u \<in> set D \<Longrightarrow> upper_writable m' c u = upper_writable m c u"
proof -
  note same = slots_cong [OF assms]
  show "leaf m' c u = leaf m c u" "upper_writable m' c u = upper_writable m c u" if "u \<in> set D"
    using that by (simp_all add: same)
  have t: "tables m' c D = tables m c D" "map (slot0 m' c) D = map (slot0 m c) D"
    unfolding tables_def by (intro arg_cong [of _ _ concat] map_cong refl, simp add: same)+
  have "list_all (mapped m' c) D = list_all (mapped m c) D"
    by (rule list.pred_cong) (simp_all add: same)
  then show "pt_ok m' c D = pt_ok m c D" by (simp only: pt_ok_def t)
  show "frames_ok m' c D = frames_ok m c D"
    unfolding frames_ok_def t by (rule list.pred_cong) (simp_all add: same)
qed

lemma page_offset_aligned: "v AND 0xfff = 0 \<Longrightarrow> page_offset v = 0"
  by (simp add: page_offset_def)

lemma frame_write_reads:
  assumes "pt_ok m c D" "frames_ok m c D" "v \<in> set D" "u \<in> set D"
    and "a \<in> {slot3 m c u, slot2 m c u, slot1 m c u, slot0 m c u}"
  shows "read64 (m(PTE_ADDR (leaf m c v) := b)) a = read64 m a"
  using assms(5) frames_okD(5) [OF assms(2,3,4,5)] pt_okD(1) [OF assms(1,3)]
  by (intro read64_other_page) (auto simp: aligned8_slots)

text \<open>The contract of the fault service, first half: a store to a writable page is done.\<close>

lemma store_writable:
  assumes "space_ok c D s" "v \<in> set D" "page_writable c s v"
  shows "\<exists>m t. mmu_store8 s v b = Done (s\<lparr>pmem := m, tlb := t\<rparr>) \<and>
    space_ok c D (s\<lparr>pmem := m, tlb := t\<rparr>) \<and>
    (\<forall>u\<in>set D. page_writable c (s\<lparr>pmem := m, tlb := t\<rparr>) u = page_writable c s u)"
proof -
  have s: "cr3 s = c" "g_cached_cr3 s = c" "pt_ok (pmem s) c D" "frames_ok (pmem s) c D" "tlb_ok s D"
    using assms(1) by (auto simp: space_ok_def)
  note ok = pt_okD [OF s(3) assms(2)] and fr = frames_okD [OF s(4) assms(2)]
  let ?f = "PTE_ADDR (leaf (pmem s) c v)"
  let ?m = "(pmem s)(?f := b)" and ?t = "(tlb s)(vpn v := Some (?f, True))"
  note frame_write_reads [OF s(3,4) assms(2)]
  then have "read64 ?m (slot3 (pmem s) c u) = read64 (pmem s) (slot3 (pmem s) c u)"
    "read64 ?m (slot2 (pmem s) c u) = read64 (pmem s) (slot2 (pmem s) c u)"
    "read64 ?m (slot1 (pmem s) c u) = read64 (pmem s) (slot1 (pmem s) c u)"
    "read64 ?m (slot0 (pmem s) c u) = read64 (pmem s) (slot0 (pmem s) c u)" if "u \<in> set D" for u
    using that by blast+
  note same = space_cong [of D ?m "pmem s" c, OF this]
  have hw: "hw_page (s\<lparr>pmem := ?m, tlb := ?t\<rparr>) u = hw_page s u" if u: "u \<in> set D" for u
  proof -
    have "pt_ok ?m c D" using s(3) by (simp add: same)
    then show ?thesis
      using pt_okD(1,3) [OF s(3) u] pt_okD(3) [of ?m c D u] u
      by (simp add: hw_page_mapped s(1) same Let_def)
  qed
  have "hw_page s v = Some (?f, True)"
    using mmu_lookup_page [OF assms(1,2)] mmu_lookup_coherent [OF s(5) assms(2)] assms(3) by simp
  moreover have "vpn u = vpn v \<longleftrightarrow> u = v" if "u \<in> set D" for u
    using vpn_inj [OF pt_okD(2) [OF s(3) that] ok(2)] by blast
  ultimately have "tlb_ok (s\<lparr>pmem := ?m, tlb := ?t\<rparr>) D"
    using s(5) by (auto simp: tlb_ok_def list_all_iff hw)
  then have "space_ok c D (s\<lparr>pmem := ?m, tlb := ?t\<rparr>)"
    using s by (simp add: space_ok_def same)
  moreover have "mmu_store8 s v b = Done (s\<lparr>pmem := ?m, tlb := ?t\<rparr>)"
    using assms(3) by (simp add: mmu_store8_def mmu_lookup_page [OF assms(1,2)] page_offset_aligned [OF ok(2)])
  moreover have "\<forall>u\<in>set D. page_writable c (s\<lparr>pmem := ?m, tlb := ?t\<rparr>) u = page_writable c s u"
    by (simp add: page_writable_def same)
  ultimately show ?thesis by blast
qed

lemma store_faults:
  assumes "space_ok c D s" "v \<in> set D" "\<not> page_writable c s v"
  shows "mmu_store8 s v b = Fault (s\<lparr>cr2 := v, tlb := (tlb s)(vpn v := None)\<rparr>)"
  using assms(3) by (simp add: mmu_store8_def mmu_lookup_page [OF assms(1,2)])

text \<open>Second half: \<open>mprotect\<close> of the faulting page makes it writable.\<close>

lemma mprotect_one_page:
  assumes "space_ok c D s" "v \<in> set D"
  shows "mprotect s v PGSIZE flags = Some (Ret (0, set_leaf flags v s))"
proof -
  have s: "g_cached_cr3 s = c" "pt_ok (pmem s) c D" "frames_ok (pmem s) c D"
    using assms(1) by (auto simp: space_ok_def)
  have "v < 0xfffffffffffff000" using frames_okD(1) [OF s(3) assms(2)] .
  then have "unat v + unat PGSIZE < 2 ^ 64" by (simp add: PGSIZE_def word_less_nat_alt)
  moreover have "v mod PGSIZE = 0"
    using pt_okD(2) [OF s(2) assms(2)]
    by (simp add: PGSIZE_def addr_masks take_bit_eq_mask [symmetric] take_bit_eq_mod)
  moreover have "pages v (unat PGSIZE div 4096) = [v]" by (simp add: PGSIZE_def pages_Suc)
  ultimately show ?thesis
    using mprotect_run [of s D v PGSIZE flags] s assms(2) by (simp add: PGSIZE_def)
qed

lemma PTE_ADDR_flags:
  assumes "hw_addr fl = 0"
  shows "PTE_ADDR (PTE_ADDR e OR fl) = PTE_ADDR e"
proof -
  have "\<not> bit fl n" if "12 \<le> n" "n < 48" for n
    using arg_cong [OF assms, of "\<lambda>w. bit w n"] that by (simp add: bit_hw_addr)
  then show ?thesis by (intro bit_word_eqI) (auto simp: bit_PTE_ADDR bit_simps)
qed

lemma set_leaf_space:
  assumes "space_ok c D s" "v \<in> set D" "hw_addr fl = 0" "bit fl 0"
  shows "space_ok c D (set_leaf fl v s)"
    and "u \<in> set D \<Longrightarrow> page_writable c (set_leaf fl v s) u =
      (if u = v then bit fl 1 else page_writable c s u)"
proof -
  let ?fl = fl and ?s = "set_leaf fl v s"
  have s: "cr3 s = c" "g_cached_cr3 s = c" "pt_ok (pmem s) c D" "frames_ok (pmem s) c D" "tlb_ok s D"
    using assms(1) by (auto simp: space_ok_def)
  note fl = assms(3,4)
  have m: "pmem ?s = write64 (pmem s) (slot0 (pmem s) c v) (PTE_ADDR (leaf (pmem s) c v) OR ?fl)"
    by (simp add: pmem_set_leaf s)
  note slots = write_leaf_slots [OF s(3) assms(2), of _ "PTE_ADDR (leaf (pmem s) c v) OR ?fl", folded m]
  note lf = write_leaf [OF s(3) assms(2), of _ "PTE_ADDR (leaf (pmem s) c v) OR ?fl", folded m]
  have ok': "pt_ok (pmem ?s) c D"
    unfolding m using write_leaf_pt_ok [OF s(3) assms(2)] .
  have t: "tables (pmem ?s) c D = tables (pmem s) c D" "map (slot0 (pmem ?s) c) D = map (slot0 (pmem s) c) D"
    unfolding tables_def by (intro arg_cong [of _ _ concat] map_cong refl, simp add: slots)+
  have addr: "PTE_ADDR (leaf (pmem ?s) c u) = PTE_ADDR (leaf (pmem s) c u)"
    "hw_addr (leaf (pmem ?s) c u) = PTE_ADDR (leaf (pmem s) c u)" if u: "u \<in> set D" for u
  proof -
    show "PTE_ADDR (leaf (pmem ?s) c u) = PTE_ADDR (leaf (pmem s) c u)"
      by (simp add: lf [OF u] PTE_ADDR_flags [OF fl(1)])
    show "hw_addr (leaf (pmem ?s) c u) = PTE_ADDR (leaf (pmem s) c u)"
      using frames_okD(4) [OF s(4) u] by (simp add: lf [OF u] bit_hw_addr_flags [OF fl(1)])
  qed
  have bits: "bit (leaf (pmem ?s) c u) 0"
    "bit (leaf (pmem ?s) c u) (Suc 0) = (if u = v then bit fl (Suc 0) else bit (leaf (pmem s) c u) (Suc 0))"
    if u: "u \<in> set D" for u
    using frames_okD(2) [OF s(4) u] by (simp_all add: lf [OF u] bit_entry_flags fl)
  then have fr': "frames_ok (pmem ?s) c D"
    using s(4) by (simp add: frames_ok_def t list_all_iff addr slots)
  have hw: "hw_page ?s u = (if u = v then Some (PTE_ADDR (leaf (pmem s) c v), bit fl 1) else hw_page s u)"
    if u: "u \<in> set D" for u
    using pt_okD(1,3) [OF s(3) u] pt_okD(3) [OF ok' u] frames_okD(1-4) [OF s(4) u] addr [OF u]
    by (simp add: hw_page_mapped frame_simps s slots [OF u] Let_def bits [OF u])
  have "vpn u = vpn v \<longleftrightarrow> u = v" if "u \<in> set D" for u
    using vpn_inj [OF pt_okD(2) [OF s(3) that] pt_okD(2) [OF s(3) assms(2)]] by blast
  then have "tlb_ok ?s D"
    using s(5) by (auto simp: tlb_ok_def list_all_iff frame_simps hw)
  then show "space_ok c D ?s"
    using s ok' fr' by (simp add: space_ok_def frame_simps)
  show "u \<in> set D \<Longrightarrow> page_writable c ?s u = (if u = v then bit fl 1 else page_writable c s u)"
    by (auto simp: page_writable_def bits)
qed

lemma set_leaves_space_ok:
  assumes "space_ok c D s" "set vs \<subseteq> set D" "hw_addr fl = 0" "bit fl 0"
  shows "space_ok c D (set_leaves fl vs s) \<and> (\<forall>u\<in>set D. page_writable c (set_leaves fl vs s) u =
    (if u \<in> set vs then bit fl 1 else page_writable c s u))"
  using assms(1,2)
proof (induction vs arbitrary: s)
  case (Cons v vs)
  then show ?case
    using set_leaf_space [OF Cons.prems(1) _ assms(3,4), of v] Cons.IH [of "set_leaf fl v s"] by auto
qed simp

lemma flags_ok: "hw_addr (PTE_P OR PTE_W) = 0" "bit (PTE_P OR PTE_W) 0" "bit (PTE_P OR PTE_W) (Suc 0)"
  "hw_addr PTE_P = 0" "bit PTE_P 0" "\<not> bit PTE_P (Suc 0)"
  by (simp_all add: hw_addr_def PTE_P_def PTE_W_def bit_1_iff)

section \<open>The handler as a fault service\<close>

definition handler_ready :: "env \<Rightarrow> penclave \<Rightarrow> bool" where
  "handler_ready E s \<longleftrightarrow> g_handler s = Some Exception_handler \<and>
     list_all (\<lambda>v. Option.bind (hw_vector (idt_mem s) (idt_reg s) v)
       (\<lambda>g. entry_label (entries E) (hw_offset g)) = Some v) [6, 14]"

lemma raise_ready:
  assumes "handler_ready E s" "v \<in> {6, 14}"
  shows "raise E v tf s = exception_handler (tf\<lparr>tf_vector := of_nat v\<rparr>) s"
proof -
  obtain g where "hw_vector (idt_mem s) (idt_reg s) v = Some g" "entry_label (entries E) (hw_offset g) = Some v"
    using assms by (auto simp: handler_ready_def bind_eq_Some_conv)
  then show ?thesis
    using assms(1) by (simp add: raise_def handle_frame_def common_exception_handler_def handler_ready_def)
qed

definition fault_others :: "penclave \<Rightarrow> penclave" where
  "fault_others s = s\<lparr>pmem := \<lambda>_. 0, cr2 := 0, tlb := Map.empty, g_pf_count := 0\<rparr>"

lemma set_leaf_more:
  fixes s :: penclave
  shows "g_pf_count (set_leaf fl v s) = g_pf_count s" "fault_others (set_leaf fl v s) = fault_others s"
    "handler_ready E (set_leaf fl v s) = handler_ready E s"
  by (simp_all add: set_leaf_def Let_def invlpg_def assign_def fault_others_def handler_ready_def)

lemma serve_fault_page:
  assumes "space_ok c D s" "v \<in> set D" "handler_ready E s" "cr2 s = v"
  shows "serve_fault E s =
    Some (Inr (set_leaf (PTE_P OR PTE_W) v (s\<lparr>g_pf_count := g_pf_count s + 1\<rparr>)))"
proof -
  have "space_ok c D (s\<lparr>g_pf_count := g_pf_count s + 1\<rparr>)"
    using assms(1) by (auto simp: space_ok_def tlb_ok_def hw_page_def)
  note mp = mprotect_one_page [OF this assms(2), of "PTE_P OR PTE_W"]
  show ?thesis
    using assms(4) by (simp add: serve_fault_def raise_ready [OF assms(3)] exception_handler_def
      read_cr2_def mp)
qed

lemma space_ok_update:
  fixes s :: penclave
  shows "space_ok c D (s\<lparr>g_pf_count := n\<rparr>) = space_ok c D s"
    "page_writable c (s\<lparr>g_pf_count := n\<rparr>) u = page_writable c s u"
  by (simp_all add: space_ok_def tlb_ok_def hw_page_def page_writable_def)

lemma space_ok_fault:
  fixes s :: penclave
  assumes "space_ok c D s"
  shows "space_ok c D (s\<lparr>cr2 := x, tlb := (tlb s)(p := None)\<rparr>)"
  using assms by (auto simp: space_ok_def tlb_ok_def hw_page_def list_all_iff)

interpretation p_faults:
  fault_service mmu_store8 "serve_fault E" "\<lambda>s. space_ok c D s \<and> handler_ready E s" "set D"
    "page_writable c" g_pf_count fault_others
  for E c D
proof (unfold_locales, goal_cases)
  case (1 s v b)
  then obtain m t where m: "mmu_store8 s v b = Done (s\<lparr>pmem := m, tlb := t\<rparr>)"
    "space_ok c D (s\<lparr>pmem := m, tlb := t\<rparr>)"
    "\<forall>u\<in>set D. page_writable c (s\<lparr>pmem := m, tlb := t\<rparr>) u = page_writable c s u"
    using store_writable by blast
  moreover have "handler_ready E (s\<lparr>pmem := m, tlb := t\<rparr>)"
    using 1 by (simp add: handler_ready_def)
  ultimately show ?case by (auto simp: fault_others_def)
next
  case (2 s v b)
  let ?s1 = "s\<lparr>cr2 := v, tlb := (tlb s)(vpn v := None)\<rparr>"
  let ?s2 = "set_leaf (PTE_P OR PTE_W) v (?s1\<lparr>g_pf_count := g_pf_count ?s1 + 1\<rparr>)"
  have ok: "space_ok c D ?s1" "handler_ready E ?s1"
    using 2 space_ok_fault by (auto simp: handler_ready_def)
  have "serve_fault E ?s1 = Some (Inr ?s2)"
    using serve_fault_page [OF ok(1) 2(2) ok(2)] by simp
  moreover have "space_ok c D ?s2"
    using ok(1) 2(2) by (intro set_leaf_space flags_ok) (simp_all add: space_ok_update)
  moreover have "page_writable c ?s2 u = (page_writable c s u \<or> u = v)" if "u \<in> set D" for u
  proof -
    have "space_ok c D (?s1\<lparr>g_pf_count := g_pf_count ?s1 + 1\<rparr>)" using ok(1) by (simp add: space_ok_update)
    from set_leaf_space(2) [OF this 2(2) flags_ok(1,2) that] show ?thesis
      by (simp add: page_writable_def flags_ok)
  qed
  moreover have "handler_ready E ?s2" "g_pf_count ?s2 = g_pf_count s + 1" "fault_others ?s2 = fault_others s"
    using ok(2) by (simp_all add: set_leaf_more) (simp_all add: handler_ready_def fault_others_def)
  ultimately show ?case using store_faults [of c D s v b] 2 by blast
qed

section \<open>Setting up\<close>

definition link_ok :: "env \<Rightarrow> bool" where
  "link_ok E \<longleftrightarrow> length (idt0 E) = 256 \<and> inj_on (entries E) {..<256}"

lemma setup_handler_eq:
  "\<exists>m r ev. init_exception (entries E) (idt_addr E) (idt0 E) (idt_mem s) = (m, r) \<and>
     setup_handler E s = s\<lparr>idt_mem := m, idt_reg := r,
       g_handler := Some Exception_handler, g_cached_cr3 := cr3 s, out := ev\<rparr>"
  by (simp add: setup_handler_def Let_def printf_ocall_def read_cr3_def cache_cr3_def
    sgx_register_fast_exception_handler_def split: prod.split) blast

lemma setup_handler_ready:
  assumes "link_ok E"
  shows "handler_ready E (setup_handler E s)"
proof -
  obtain m r ev where m: "init_exception (entries E) (idt_addr E) (idt0 E) (idt_mem s) = (m, r)"
    "setup_handler E s = s\<lparr>idt_mem := m, idt_reg := r,
       g_handler := Some Exception_handler, g_cached_cr3 := cr3 s, out := ev\<rparr>"
    using setup_handler_eq by blast
  have l: "length (idt0 E) = 256" "inj_on (entries E) {..<256}"
    using assms by (simp_all add: link_ok_def)
  show ?thesis
    using hw_vector_init [OF m(1) l(1)] entry_label_inj [OF l(2)]
    by (simp add: handler_ready_def m(2))
qed

text \<open>The address space before the call: as \<open>space_ok\<close>, but CR3 need not be cached yet.\<close>

definition space_before :: "u64 list \<Rightarrow> 'a mmu_scheme \<Rightarrow> bool" where
  "space_before D s \<longleftrightarrow> pt_ok (pmem s) (cr3 s) D \<and> frames_ok (pmem s) (cr3 s) D \<and> tlb_ok s D"

lemma setup_handler_space:
  assumes "space_before D s"
  shows "space_ok (cr3 s) D (setup_handler E s)"
    and "page_writable c (setup_handler E s) u = page_writable c s u"
    and "g_pf_count (setup_handler E s) = g_pf_count s" "g_ud_count (setup_handler E s) = g_ud_count s"
    and "g_intr_count (setup_handler E s) = g_intr_count s" "injected (setup_handler E s) = injected s"
  using setup_handler_eq [of E s] assms
  by (auto simp: space_before_def space_ok_def tlb_ok_def hw_page_def page_writable_def)

section \<open>Printing and the clock leave the address space alone\<close>

definition core :: "penclave \<Rightarrow> penclave" where
  "core s = s\<lparr>out := [], rdtscs := 0\<rparr>"

lemma core_cong:
  assumes "core s' = core s"
  shows "space_ok c D s' = space_ok c D s" "handler_ready E s' = handler_ready E s"
    and "page_writable c s' u = page_writable c s u"
    and "g_pf_count s' = g_pf_count s" "g_ud_count s' = g_ud_count s"
    and "g_intr_count s' = g_intr_count s" "injected s' = injected s"
proof -
  have "pmem s' = pmem s" "cr3 s' = cr3 s" "g_cached_cr3 s' = g_cached_cr3 s" "tlb s' = tlb s"
    "g_handler s' = g_handler s" "idt_mem s' = idt_mem s" "idt_reg s' = idt_reg s"
    using assms by (auto simp: core_def dest: arg_cong [of _ _ pmem] arg_cong [of _ _ cr3]
      arg_cong [of _ _ g_cached_cr3] arg_cong [of _ _ tlb] arg_cong [of _ _ g_handler]
      arg_cong [of _ _ idt_mem] arg_cong [of _ _ idt_reg])
  then show "space_ok c D s' = space_ok c D s" "handler_ready E s' = handler_ready E s"
    "page_writable c s' u = page_writable c s u"
    by (simp_all add: space_ok_def handler_ready_def page_writable_def tlb_ok_def hw_page_def)
  show "g_pf_count s' = g_pf_count s" "g_ud_count s' = g_ud_count s"
    "g_intr_count s' = g_intr_count s" "injected s' = injected s"
    using arg_cong [OF assms, of g_pf_count] arg_cong [OF assms, of g_ud_count]
      arg_cong [OF assms, of g_intr_count] arg_cong [OF assms, of injected]
    by (simp_all add: core_def)
qed

lemma core_simps [simp]:
  "core (printf_ocall f a s) = core s" "core (report t n s) = core s" "core (print_counts s) = core s"
  "core (s\<lparr>rdtscs := n\<rparr>) = core s"
  by (simp_all add: core_def printf_ocall_def report_def print_counts_def)

section \<open>The parts of ecall\_exception\<close>

text \<open>The buffer: whole pages of the address space.\<close>

definition buffer_ok :: "env \<Rightarrow> nat \<Rightarrow> u64 list \<Rightarrow> bool" where
  "buffer_ok E n D \<longleftrightarrow> 0 < n \<and> test_buf E mod 4096 = 0 \<and> unat (test_buf E) + 4096 * n < 2 ^ 64 \<and>
     set (pages (test_buf E) n) \<subseteq> set D"

lemma buffer_okD:
  assumes "buffer_ok E n D"
  shows "0 < n" "test_buf E mod 4096 = 0" "unat (test_buf E) + 4096 * n < 2 ^ 64"
    "set (pages (test_buf E) n) \<subseteq> set D" "distinct (pages (test_buf E) n)" "test_buf E \<in> set D"
proof -
  show "0 < n" "test_buf E mod 4096 = 0" "unat (test_buf E) + 4096 * n < 2 ^ 64"
    "set (pages (test_buf E) n) \<subseteq> set D"
    using assms by (simp_all add: buffer_ok_def)
  then show "distinct (pages (test_buf E) n)" "test_buf E \<in> set D"
    by (auto intro: distinct_pages) (cases n; simp add: pages_Suc)
qed

lemma write_pages_ok:
  assumes "space_ok c D s" "handler_ready E s" "buffer_ok E n D"
  shows "\<exists>s'. write_pages E (4096 * n) b s = Some (Inr s') \<and>
    space_ok c D s' \<and> handler_ready E s' \<and> fault_others s' = fault_others s \<and>
    g_pf_count s' = g_pf_count s +
      of_nat (length (filter (\<lambda>v. \<not> page_writable c s v) (pages (test_buf E) n))) \<and>
    (\<forall>v\<in>set D. page_writable c s' v = (page_writable c s v \<or> v \<in> set (pages (test_buf E) n)))"
proof -
  have "(4096 * n + 4095) div 4096 = n" by simp
  then show ?thesis
    unfolding write_pages_def
    using p_faults.store_each_ok [of c D s E "pages (test_buf E) n" b] assms buffer_okD [OF assms(3)]
    by auto
qed

lemma set_leaves_more:
  fixes s :: penclave
  shows "g_pf_count (set_leaves fl vs s) = g_pf_count s" "fault_others (set_leaves fl vs s) = fault_others s"
    "handler_ready E (set_leaves fl vs s) = handler_ready E s"
  by (induction vs arbitrary: s) (simp_all add: set_leaf_more)

lemma protect_buffer_ok:
  assumes "space_ok c D s" "handler_ready E s" "buffer_ok E n D"
  shows "\<exists>s' ev. protect_buffer E (4096 * n) s = Some (Inr (s'\<lparr>out := ev\<rparr>)) \<and>
    space_ok c D s' \<and> handler_ready E s' \<and> fault_others s' = fault_others s \<and>
    g_pf_count s' = g_pf_count s \<and>
    (\<forall>v\<in>set D. page_writable c s' v = (page_writable c s v \<and> v \<notin> set (pages (test_buf E) n)))"
proof -
  note b = buffer_okD [OF assms(3)]
  let ?s = "set_leaves PTE_P (pages (test_buf E) n) s"
  have u: "unat (of_nat (4096 * n) :: u64) = 4096 * n"
    using unat_add_of_nat [of 0 "4096 * n"] b(3) by simp
  have s: "g_cached_cr3 s = c" "pt_ok (pmem s) c D" using assms(1) by (simp_all add: space_ok_def)
  have sp: "space_ok c D ?s" "\<forall>u\<in>set D. page_writable c ?s u =
    (if u \<in> set (pages (test_buf E) n) then False else page_writable c s u)"
    using set_leaves_space_ok [OF assms(1) b(4) flags_ok(4,5)] flags_ok(6) by auto
  have "(of_nat (4096 * n) :: u64) mod 4096 = 0"
    by (simp add: word_unat_eq_iff unat_mod_distrib u del: of_nat_mult)
  then have "mprotect s (test_buf E) (of_nat (4096 * n)) PTE_P = Some (Ret (0, ?s))"
    using mprotect_run [of s D "test_buf E" "of_nat (4096 * n)" PTE_P] s b u
    by (simp add: PGSIZE_def del: of_nat_mult)
  moreover have "mmu_lookup ?s (test_buf E) \<noteq> None"
    using mmu_lookup_page [OF sp(1) b(6)] by simp
  ultimately obtain ev where "protect_buffer E (4096 * n) s = Some (Inr (?s\<lparr>out := ev\<rparr>))"
    by (auto simp: protect_buffer_def mmu_load8_def printf_ocall_def simp del: of_nat_mult split: option.split)
  then show ?thesis
    by (intro exI [of _ ?s] exI [of _ ev]) (use sp assms(2) in \<open>auto simp: set_leaves_more\<close>)
qed

section \<open>The ud2 loop of the P-Enclave\<close>

definition ud_others :: "penclave \<Rightarrow> penclave" where
  "ud_others s = s\<lparr>g_ud_count := 0\<rparr>"

interpretation p_ud2:
  ud2_handler "raise E 6" tf_rip "\<lambda>_. True" "handler_ready E" g_ud_count ud_others
  for E
proof (unfold_locales, goal_cases)
  case (1 f s)
  then show ?case
    by (auto simp: raise_ready exception_handler_def ud_others_def handler_ready_def)
qed

lemma ud_others_cong:
  assumes "ud_others s' = ud_others s"
  shows "space_ok c D s' = space_ok c D s" "g_pf_count s' = g_pf_count s"
    and "g_intr_count s' = g_intr_count s" "injected s' = injected s"
proof -
  have "core (s'\<lparr>g_ud_count := 0\<rparr>) = core (s\<lparr>g_ud_count := 0\<rparr>)"
    using assms by (simp add: ud_others_def)
  note c = core_cong [OF this, simplified]
  have "space_ok c D (t\<lparr>g_ud_count := 0\<rparr>) = space_ok c D t" for t :: penclave
    by (simp add: space_ok_def tlb_ok_def hw_page_def)
  then show "space_ok c D s' = space_ok c D s" using c(1) [of c D] by blast
  show "g_pf_count s' = g_pf_count s" "g_intr_count s' = g_intr_count s" "injected s' = injected s"
    using c by simp_all
qed

lemma page_fault_test_ok:
  assumes "space_ok c D s" "handler_ready E s" "buffer_ok E n D"
    and "\<forall>v\<in>set (pages (test_buf E) n). \<not> page_writable c s v"
  shows "\<exists>s'. page_fault_test E (4096 * n) s = Some (Inr s') \<and> space_ok c D s' \<and> handler_ready E s' \<and>
    g_pf_count s' = g_pf_count s + of_nat n \<and> g_ud_count s' = g_ud_count s \<and>
    g_intr_count s' = g_intr_count s \<and> injected s' = injected s"
proof -
  obtain t s0 where r: "rdtscp E s = (t, s0)" by fastforce
  then have c0: "core s0 = core s" by (auto simp: rdtscp_def split: prod.splits)
  note same = core_cong [OF c0]
  have "filter (\<lambda>v. \<not> page_writable c s0 v) (pages (test_buf E) n) = pages (test_buf E) n"
    using assms(4) by (simp add: same)
  then obtain s1 where s1: "write_pages E (4096 * n) 0 s0 = Some (Inr s1)" "space_ok c D s1"
    "handler_ready E s1" "fault_others s1 = fault_others s0" "g_pf_count s1 = g_pf_count s0 + of_nat n"
    using write_pages_ok [of c D s0 E n 0] assms same by (auto simp: pages_def)
  obtain t' s2 where r': "rdtscp E s1 = (t', s2)" by fastforce
  then have "core s2 = core s1" by (auto simp: rdtscp_def split: prod.splits)
  then obtain s3 where s3: "page_fault_test E (4096 * n) s = Some (Inr s3)" "core s3 = core s1"
    by (simp add: page_fault_test_def r s1 r')
  have "g_ud_count s1 = g_ud_count s0" "g_intr_count s1 = g_intr_count s0" "injected s1 = injected s0"
    using arg_cong [OF s1(4), of g_ud_count] arg_cong [OF s1(4), of g_intr_count]
      arg_cong [OF s1(4), of injected] by (simp_all add: fault_others_def)
  then show ?thesis using s3(1) s1 core_cong [OF s3(2)] same by auto
qed

lemma ud2_test_ok:
  assumes "handler_ready E s" "space_ok c D s"
  shows "\<exists>s'. ud2_test E k s = Some (Inr s') \<and> g_ud_count s' = g_ud_count s + k \<and>
    g_pf_count s' = g_pf_count s \<and> g_intr_count s' = g_intr_count s \<and> injected s' = injected s"
proof -
  obtain t s0 where r: "rdtscp E s = (t, s0)" by fastforce
  then have c0: "core s0 = core s" by (auto simp: rdtscp_def split: prod.splits)
  note same = core_cong [OF c0]
  obtain s1 where s1: "ud2_loop (raise E 6) tf_rip (ud_frame E) (unat k) s0 = Some (Inr s1)"
    "g_ud_count s1 = g_ud_count s0 + k" "ud_others s1 = ud_others s0"
    using p_ud2.ud2_loop_counts [of E s0 "ud_frame E" "unat k"] assms(1) same(2) by auto
  obtain t' s2 where r': "rdtscp E s1 = (t', s2)" by fastforce
  then have "core s2 = core s1" by (auto simp: rdtscp_def split: prod.splits)
  then obtain s3 where s3: "ud2_test E k s = Some (Inr s3)" "core s3 = core s1"
    by (simp add: ud2_test_def r s1 r')
  then show ?thesis using s1 ud_others_cong [OF s1(3)] core_cong [OF s3(2)] same by auto
qed

section \<open>Properties\<close>

lemma ecall_exception_run:
  assumes "link_ok E" "space_before D s" "buffer_ok E n D"
  shows "\<exists>s'. ecall_exception_sized E (4096 * n) nrepeats s = Some (Inr (SGX_SUCCESS, s')) \<and>
    g_pf_count s' = g_pf_count s + of_nat n +
      of_nat (length (filter (\<lambda>v. \<not> page_writable (cr3 s) s v) (pages (test_buf E) n))) \<and>
    g_ud_count s' = g_ud_count s + nrepeats \<and>
    g_intr_count s' = g_intr_count s \<and> injected s' = injected s \<and>
    (\<exists>ev. out s' = ev @
       [Print (''Interrupt Count = %d'' @ nl) [AInt (sint (g_intr_count s'))],
        Print (''#UD Count = %d'' @ nl) [AInt (sint (g_ud_count s'))],
        Print (''#PF Count = %d'' @ nl @ nl) [AInt (sint (g_pf_count s'))]])"
proof -
  let ?c = "cr3 s" and ?ps = "pages (test_buf E) n"
  note s0 = setup_handler_space [OF assms(2), where E = E] and r0 = setup_handler_ready [OF assms(1), of s]
  obtain s1 where s1: "write_pages E (4096 * n) 0 (setup_handler E s) = Some (Inr s1)"
    "space_ok ?c D s1" "handler_ready E s1" "fault_others s1 = fault_others (setup_handler E s)"
    "g_pf_count s1 = g_pf_count s + of_nat (length (filter (\<lambda>v. \<not> page_writable ?c s v) ?ps))"
    using write_pages_ok [OF s0(1) r0 assms(3), of 0] s0 by auto
  obtain s2 ev where s2: "protect_buffer E (4096 * n) s1 = Some (Inr (s2\<lparr>out := ev\<rparr>))"
    "space_ok ?c D s2" "handler_ready E s2" "fault_others s2 = fault_others s1"
    "g_pf_count s2 = g_pf_count s1" "\<forall>v\<in>set D. page_writable ?c s2 v \<longrightarrow> v \<notin> set ?ps"
    using protect_buffer_ok [OF s1(2,3) assms(3)] by auto
  have c2: "core (s2\<lparr>out := ev\<rparr>) = core s2" by (simp add: core_def)
  note same = core_cong [OF c2]
  obtain s3 where s3: "page_fault_test E (4096 * n) (s2\<lparr>out := ev\<rparr>) = Some (Inr s3)"
    "space_ok ?c D s3" "handler_ready E s3" "g_pf_count s3 = g_pf_count s2 + of_nat n"
    "g_ud_count s3 = g_ud_count s2" "g_intr_count s3 = g_intr_count s2" "injected s3 = injected s2"
    using page_fault_test_ok [of ?c D "s2\<lparr>out := ev\<rparr>" E n] s2 buffer_okD(4) [OF assms(3)] assms(3) same
    by auto
  obtain s4 where s4: "ud2_test E nrepeats s3 = Some (Inr s4)" "g_ud_count s4 = g_ud_count s3 + nrepeats"
    "g_pf_count s4 = g_pf_count s3" "g_intr_count s4 = g_intr_count s3" "injected s4 = injected s3"
    using ud2_test_ok [OF s3(3,2)] by blast
  have f: "fault_others s2 = fault_others (setup_handler E s)" using s2(4) s1(4) by simp
  have "g_ud_count s2 = g_ud_count s" "g_intr_count s2 = g_intr_count s" "injected s2 = injected s"
    using arg_cong [OF f, of g_ud_count] arg_cong [OF f, of g_intr_count] arg_cong [OF f, of injected] s0
    by (simp_all add: fault_others_def)
  moreover have "ecall_exception_sized E (4096 * n) nrepeats s = Some (Inr (SGX_SUCCESS, print_counts s4))"
    by (simp add: ecall_exception_sized_def s1 s2(1) s3 s4)
  moreover have "\<exists>ev. out (print_counts s4) = ev @
       [Print (''Interrupt Count = %d'' @ nl) [AInt (sint (g_intr_count (print_counts s4)))],
        Print (''#UD Count = %d'' @ nl) [AInt (sint (g_ud_count (print_counts s4)))],
        Print (''#PF Count = %d'' @ nl @ nl) [AInt (sint (g_pf_count (print_counts s4)))]]"
    by (simp add: print_counts_def printf_ocall_def)
  ultimately show ?thesis using s1 s2 s3 s4 core_cong [of "print_counts s4" s4] by auto
qed

text \<open>C1: from an address space whose buffer pages are mapped and present, \<open>ecall_exception\<close>
  terminates with \<open>SGX_SUCCESS\<close> after exactly one page fault per page of the buffer (and
  one per page that was not writable before), one \<open>#UD\<close> per repetition and no other
  interrupt.\<close>

theorem ecall_exception_counts:
  assumes "link_ok E" "space_before D s" "buffer_ok E n D"
  shows "\<exists>s'. ecall_exception_sized E (4096 * n) nrepeats s = Some (Inr (SGX_SUCCESS, s')) \<and>
    g_pf_count s' = g_pf_count s + of_nat n +
      of_nat (length (filter (\<lambda>v. \<not> page_writable (cr3 s) s v) (pages (test_buf E) n))) \<and>
    g_ud_count s' = g_ud_count s + nrepeats \<and>
    g_intr_count s' = g_intr_count s \<and> injected s' = injected s"
  using ecall_exception_run [OF assms] by blast

text \<open>The code's buffer has 32768 pages.\<close>

lemma ecall_exception_pages: "ecall_exception E = ecall_exception_sized E (4096 * 32768)"
  by (simp add: ecall_exception_def BUF_SIZE_def)

text \<open>The concrete address space, with a buffer of its two pages; the first starts read-only.\<close>

definition demo_env :: env where
  "demo_env = \<lparr>entries = demo_entries, idt_addr = 0x600000, idt0 = replicate 256 (SETGATE 0 0),
     test_buf = 0x400000, tsc = (\<lambda>n. (0, of_nat n)),
     store_frame = trapframe_of demo_cpu 14 2, ud_frame = trapframe_of demo_cpu 6 0\<rparr>"

definition demo_penclave :: penclave where
  "demo_penclave = mmu.extend demo_mmu \<lparr>idt_mem = \<lambda>_. 0, idt_reg = \<lparr>idt_limit = 0, idt_base = 0\<rparr>,
     g_handler = None, g_intr_count = 0, g_pf_count = 0, g_ud_count = 0, injected = [], out = [],
     rdtscs = 0\<rparr>"

lemma demo_penclave_simps [simp]:
  "pmem demo_penclave = demo_pt" "cr3 demo_penclave = 0x1000" "tlb demo_penclave = Map.empty"
  "g_pf_count demo_penclave = 0" "g_ud_count demo_penclave = 0" "g_intr_count demo_penclave = 0"
  "out demo_penclave = []"
  by (simp_all add: demo_penclave_def demo_mmu_def mmu.defs)

lemma demo_leaf: "leaf demo_pt 0x1000 0x400000 = 0x9005" "leaf demo_pt 0x1000 0x401000 = 0xa007"
  by (simp_all add: leaf_def demo_slots demo_pt_cells)

lemma demo_space: "space_before [0x400000, 0x401000] demo_penclave"
proof -
  have "upper_writable demo_pt 0x1000 0x400000" "upper_writable demo_pt 0x1000 0x401000"
    by (simp_all add: upper_writable_def demo_slots demo_pt_cells)
  then have "frames_ok demo_pt 0x1000 [0x400000, 0x401000]"
    by (simp add: frames_ok_def demo_leaf hw_addr_def PTE_ADDR_def tables_def demo_slots vpn_def)
  then show ?thesis by (simp add: space_before_def demo_pt_ok tlb_ok_def)
qed

lemma demo_link: "link_ok demo_env"
  by (simp add: link_ok_def demo_env_def inj_demo_entries)

lemma demo_buffer: "buffer_ok demo_env 2 [0x400000, 0x401000]"
  by (simp add: buffer_ok_def demo_env_def demo_pages)

theorem ecall_exception_counts_witness:
  "\<exists>s'. ecall_exception_sized demo_env 8192 5 demo_penclave = Some (Inr (SGX_SUCCESS, s')) \<and>
     g_pf_count s' = 3 \<and> g_ud_count s' = 5"
proof -
  have "pages (test_buf demo_env) 2 = [0x400000, 0x401000]" by (simp add: demo_env_def demo_pages)
  then show ?thesis
    using ecall_exception_counts [OF demo_link demo_space demo_buffer, of 5]
    by (auto simp: page_writable_def demo_leaf)
qed

section \<open>The handler alone\<close>

text \<open>Fields \<open>mprotect\<close> leaves alone, in any state.\<close>

lemma mprotect_page_fields:
  "mprotect_page s v fl = Ret (r, s') \<Longrightarrow>
   cr2 s' = cr2 s \<and> cr3 s' = cr3 s \<and> g_cached_cr3 s' = g_cached_cr3 s \<and> mmu.more s' = mmu.more s"
  by (auto simp: mprotect_page_def bind_res_Ret_iff invlpg_def assign_def split: if_splits)

definition same_fields :: "'a mmu_scheme \<Rightarrow> 'a mmu_scheme res \<Rightarrow> bool" where
  "same_fields s r \<longleftrightarrow> (case r of Aborted \<Rightarrow> True | Ret s' \<Rightarrow>
     cr2 s' = cr2 s \<and> cr3 s' = cr3 s \<and> g_cached_cr3 s' = g_cached_cr3 s \<and> mmu.more s' = mmu.more s)"

lemma mprotect_loop_fields:
  fixes s :: "'a mmu_scheme"
  shows "mprotect_loop s a b fl = Some r \<Longrightarrow> same_fields s r"
proof (rule mprotect_loop.raw_induct [where P = "\<lambda>s a b fl r. same_fields s r"])
  fix loop and s :: "'a mmu_scheme" and a b fl r
  assume IH: "\<And>(s :: 'a mmu_scheme) a b fl y. loop s a b fl = Some y \<Longrightarrow> same_fields s y"
    and body: "(if a < b then case mprotect_page s a fl of Aborted \<Rightarrow> Some Aborted
        | Ret r \<Rightarrow> loop (snd r) (a + PGSIZE) b fl else Some (Ret s)) = Some r"
  show "same_fields s r"
  proof (cases "a < b")
    case True
    show ?thesis
    proof (cases "mprotect_page s a fl")
      case Aborted
      then show ?thesis using body True by (auto simp: same_fields_def)
    next
      case (Ret p)
      then show ?thesis
        using IH [of "snd p" "a + PGSIZE" b fl r] body True
          mprotect_page_fields [of s a fl "fst p" "snd p"]
        by (auto simp: same_fields_def split: res.splits)
    qed
  next
    case False
    then show ?thesis using body by (auto simp: same_fields_def)
  qed
qed

lemma mprotect_fields:
  assumes "mprotect s a l fl = Some (Ret (r, s'))"
  shows "cr2 s' = cr2 s" "cr3 s' = cr3 s" "g_cached_cr3 s' = g_cached_cr3 s" "mmu.more s' = mmu.more s"
proof -
  have "s' = s \<or> mprotect_loop s a (a + l) fl = Some (Ret s')"
    using assms by (cases "mprotect_loop s a (a + l) fl")
      (auto simp: mprotect_def split: if_splits, metis (no_types) Pair_inject res.exhaust res.inject res.map res.distinct(1))
  then show "cr2 s' = cr2 s" "cr3 s' = cr3 s" "g_cached_cr3 s' = g_cached_cr3 s" "mmu.more s' = mmu.more s"
    using mprotect_loop_fields [of s a "a + l" fl "Ret s'"] by (auto simp: same_fields_def)
qed

text \<open>The fields of the P-Enclave's own part of the state.\<close>

lemma more_fields:
  fixes s s' :: penclave
  assumes "mmu.more s' = mmu.more s"
  shows "g_pf_count s' = g_pf_count s" "g_ud_count s' = g_ud_count s"
    "g_intr_count s' = g_intr_count s" "injected s' = injected s" "out s' = out s"
    "g_handler s' = g_handler s" "idt_mem s' = idt_mem s" "idt_reg s' = idt_reg s"
    and "rdtscs s' = rdtscs s"
  using assms by (cases s; cases s'; simp)+

lemma dump_fields [simp]:
  "g_pf_count (dump_trapframe tf s) = g_pf_count s" "g_ud_count (dump_trapframe tf s) = g_ud_count s"
  "g_intr_count (dump_trapframe tf s) = g_intr_count s" "injected (dump_trapframe tf s) = injected s"
  by (simp_all add: dump_trapframe_def printf_ocall_def)

lemma printf_fields [simp]:
  "g_pf_count (printf_ocall f a s) = g_pf_count s" "g_ud_count (printf_ocall f a s) = g_ud_count s"
  "g_intr_count (printf_ocall f a s) = g_intr_count s" "injected (printf_ocall f a s) = injected s"
  by (simp_all add: printf_ocall_def)

lemma page_fault_cases:
  assumes "ucast (tf_vector tf) = (0xE :: u32)"
  obtains s' where "exception_handler tf s = Some (Inl s')" "g_pf_count s' = g_pf_count s + 1"
      "g_ud_count s' = g_ud_count s" "g_intr_count s' = g_intr_count s" "injected s' = injected s"
  | s' where "exception_handler tf s = Some (Inr (tf, s'))" "cr2 s mod PGSIZE = 0"
      "cr3 s' = cr3 s" "g_cached_cr3 s' = g_cached_cr3 s"
      "mmu.more s' = mmu.more (s\<lparr>g_pf_count := g_pf_count s + 1\<rparr>)"
proof -
  let ?s = "s\<lparr>g_pf_count := g_pf_count s + 1\<rparr>"
  let ?mp = "mprotect ?s (cr2 s) PGSIZE (PTE_P OR PTE_W)"
  have h: "exception_handler tf s = (case ?mp of None \<Rightarrow> None | Some Aborted \<Rightarrow> Some (Inl ?s)
      | Some (Ret (ret, s')) \<Rightarrow> if ret \<noteq> 0
          then Some (Inl (dump_trapframe tf
                 (printf_ocall (''ERROR: page fault mprotect returns: %d'' @ nl) [AInt ret] s')))
          else Some (Inr (tf, s')))"
    by (simp add: exception_handler_def assms read_cr2_def Let_def)
  obtain r where r: "?mp = Some r" using mprotect_returns by blast
  show ?thesis
  proof (cases r)
    case Aborted
    then show ?thesis using that(1) [of ?s] h r by simp
  next
    case (Ret p)
    obtain ret s' where p: "p = (ret, s')" by fastforce
    note f = mprotect_fields [OF r [unfolded Ret p]]
    show ?thesis
    proof (cases "ret = 0")
      case True
      then have "cr2 s mod PGSIZE = 0"
        using r by (auto simp: mprotect_def Ret p split: if_splits)
      then show ?thesis using that(2) [of s'] h r f True by (simp add: Ret p)
    next
      case False
      then show ?thesis
        using that(1) h r more_fields [OF f(4)] by (simp add: Ret p)
    qed
  qed
qed

text \<open>C14: the handler ends in every state for every frame.  When it returns, exactly one of the
  three counters has gone up by one, an interrupt was handed to the monitor exactly when
  the interrupt counter moved, nothing was printed, and of the frame only the instruction
  pointer may have changed, by the length of \<open>ud2\<close> and only for a \<open>#UD\<close>; when it aborts, no
  interrupt was handed on.\<close>

theorem exception_handler_accounts:
  "case exception_handler tf s of
     None \<Rightarrow> False
   | Some (Inl s') \<Rightarrow> g_ud_count s' = g_ud_count s \<and> g_intr_count s' = g_intr_count s \<and>
       injected s' = injected s
   | Some (Inr (tf', s')) \<Rightarrow>
       (g_ud_count s' - g_ud_count s, g_pf_count s' - g_pf_count s, g_intr_count s' - g_intr_count s)
         \<in> {(1, 0, 0), (0, 1, 0), (0, 0, 1)} \<and>
       injected s' = injected s @
         (if g_intr_count s' = g_intr_count s then []
          else [(ucast (tf_vector tf), tf_err_code tf)]) \<and>
       out s' = out s \<and>
       tf' = tf\<lparr>tf_rip := tf_rip tf + (if g_ud_count s' = g_ud_count s then 0 else 2)\<rparr>"
proof -
  let ?v = "ucast (tf_vector tf) :: u32"
  have same: "tf\<lparr>tf_rip := tf_rip tf\<rparr> = tf" by simp
  consider "?v = 6" | "?v = 0xE" | "?v \<noteq> 6" "?v \<noteq> 0xE" "32 \<le> sint ?v"
    | "?v \<noteq> 6" "?v \<noteq> 0xE" "\<not> 32 \<le> sint ?v" by blast
  then show ?thesis
  proof cases
    case 2
    then show ?thesis
    proof (cases rule: page_fault_cases [of _ s])
      case (2 s')
      have "g_pf_count s' = g_pf_count s + 1" "g_ud_count s' = g_ud_count s" "out s' = out s"
        "g_intr_count s' = g_intr_count s" "injected s' = injected s"
        using more_fields [OF 2(5)] by simp_all
      then show ?thesis by (simp add: 2(1) same)
    qed simp
  qed (simp_all add: exception_handler_def Let_def)
qed

section \<open>A page fault through the assembly path\<close>

text \<open>C4: a store to a read-only page of the address space traps through stub, common entry and
  handler; the interrupted code resumes with every register, flag and segment it had, and
  the store it executes again is done.\<close>

theorem page_fault_resumes:
  assumes "space_ok c D s" "handler_ready E s" "v \<in> set D" "\<not> page_writable c s v"
    and "mmu_store8 s v b = Fault (world cpu)" "has_err = stub_expects_err 14"
  shows "\<exists>m s' s''. trap (as_c_handler handle_frame) ab has_err err sel target 14 cpu =
      Ret (cpu\<lparr>stk := m, world := s'\<rparr>) \<and>
    mmu_store8 s' v b = Done s'' \<and> g_pf_count s'' = g_pf_count s + 1 \<and> space_ok c D s''"
proof -
  let ?s1 = "s\<lparr>cr2 := v, tlb := (tlb s)(vpn v := None)\<rparr>"
  let ?s1' = "?s1\<lparr>g_pf_count := g_pf_count ?s1 + 1\<rparr>"
  let ?s2 = "set_leaf (PTE_P OR PTE_W) v ?s1'"
  let ?tf = "trapframe_of cpu 14 (seen_err 14 err)"
  have w: "world cpu = ?s1" using assms(5) store_faults [OF assms(1,3,4), of b] by simp
  have ok: "space_ok c D ?s1'" using space_ok_fault [OF assms(1)] by (simp add: space_ok_update)
  have "handle_frame ?tf ?s1 = exception_handler ?tf ?s1"
    using assms(2) by (simp add: handle_frame_def common_exception_handler_def handler_ready_def)
  also have "\<dots> = Some (Inr (?tf, ?s2))"
    using mprotect_one_page [OF ok assms(3), of "PTE_P OR PTE_W"]
    by (simp add: exception_handler_def trapframe_of_def read_cr2_def Let_def)
  finally have "as_c_handler handle_frame ?tf (world cpu) = Ret (?tf, ?s2)"
    by (simp add: as_c_handler_def w)
  then obtain m where m:
    "trap (as_c_handler handle_frame) ab has_err err sel target 14 cpu = Ret (cpu\<lparr>stk := m, world := ?s2\<rparr>)"
    using trap_same_frame [OF assms(6), of "as_c_handler handle_frame" cpu err ?s2] by blast
  have "space_ok c D ?s2" "page_writable c ?s2 v"
    using set_leaf_space [OF ok assms(3) flags_ok(1,2)] assms(3) flags_ok(3) by auto
  then obtain m' t where "mmu_store8 ?s2 v b = Done (?s2\<lparr>pmem := m', tlb := t\<rparr>)"
    "space_ok c D (?s2\<lparr>pmem := m', tlb := t\<rparr>)"
    using store_writable [OF _ assms(3)] by blast
  then show ?thesis
    using m by (intro exI [of _ m] exI [of _ ?s2] exI [of _ "?s2\<lparr>pmem := m', tlb := t\<rparr>"] conjI)
      (simp_all add: set_leaf_more)
qed

definition demo_ready :: penclave where
  "demo_ready = setup_handler demo_env demo_penclave"

lemma demo_ready_ok: "space_ok 0x1000 [0x400000, 0x401000] demo_ready" "handler_ready demo_env demo_ready"
  "\<not> page_writable 0x1000 demo_ready 0x400000" "g_pf_count demo_ready = 0"
  using setup_handler_space [OF demo_space, where E = demo_env] setup_handler_ready [OF demo_link]
  by (simp_all add: demo_ready_def page_writable_def demo_leaf)

definition demo_penclave_cpu :: "penclave \<Rightarrow> penclave cpu" where
  "demo_penclave_cpu s = \<lparr>gpr = gpr demo_cpu, rip = 0x400000, rflags = 0x202, seg_cs = 8,
     seg_ss = 16, stk = \<lambda>_. 0, world = s\<rparr>"

theorem page_fault_resumes_witness:
  "\<exists>w m s' s''. mmu_store8 demo_ready 0x400000 7 = Fault w \<and>
     trap (as_c_handler handle_frame) demo_abi True 2 8 0x4010e0 14 (demo_penclave_cpu w) =
       Ret (demo_penclave_cpu w\<lparr>stk := m, world := s'\<rparr>) \<and>
     mmu_store8 s' 0x400000 7 = Done s'' \<and> g_pf_count s'' = 1"
proof -
  have v: "0x400000 \<in> set [0x400000, 0x401000 :: u64]" by simp
  have e: "True = stub_expects_err 14" by (simp add: stub_expects_err_def)
  obtain w where w: "mmu_store8 demo_ready 0x400000 7 = Fault w"
    using store_faults [OF demo_ready_ok(1) v demo_ready_ok(3)] by blast
  then have "mmu_store8 demo_ready 0x400000 7 = Fault (world (demo_penclave_cpu w))"
    by (simp add: demo_penclave_cpu_def)
  from page_fault_resumes [OF demo_ready_ok(1,2) v demo_ready_ok(3) this e, of demo_abi 2 8 "0x4010e0"]
  show ?thesis using w by (auto simp: demo_ready_ok(4))
qed

section \<open>Faults the handler does not repair\<close>

lemma vpn_bits: "vpn u = vpn v \<longleftrightarrow> (\<forall>n\<ge>12. bit u n = bit v n)"
proof
  assume *: "vpn u = vpn v"
  show "\<forall>n\<ge>12. bit u n = bit v n"
  proof (intro allI impI)
    fix n :: nat assume "12 \<le> n"
    then show "bit u n = bit v n"
      using arg_cong [OF *, of "\<lambda>w. bit w (n - 12)"] by (simp add: vpn_def bit_simps)
  qed
next
  assume "\<forall>n\<ge>12. bit u n = bit v n"
  then show "vpn u = vpn v" by (intro bit_word_eqI) (simp add: vpn_def bit_simps)
qed

lemma hw_walk_vpn:
  assumes "vpn u = vpn v"
  shows "hw_walk m l t w u = hw_walk m l t w v"
proof (induction l arbitrary: t w)
  case 0
  have "drop_bit 12 u = drop_bit 12 v" using assms by (simp add: vpn_def)
  then show ?case by (simp add: hw_walk.simps)
next
  case (Suc l)
  note b = assms [unfolded vpn_bits]
  have "drop_bit (12 + 9 * Suc l) u = drop_bit (12 + 9 * Suc l) v"
    by (rule bit_word_eqI) (simp add: bit_simps b)
  moreover have "u AND mask (12 + 9 * Suc l) AND NOT 0xfff = v AND mask (12 + 9 * Suc l) AND NOT 0xfff"
    by (rule bit_word_eqI) (use b in \<open>auto simp: bit_simps addr_masks not_less\<close>)
  ultimately show ?case by (simp only: hw_walk.simps Suc.IH)
qed

lemma small_offset:
  fixes off :: u64
  assumes "off < 4096"
  shows "take_bit 12 off = off" "12 \<le> n \<Longrightarrow> \<not> bit off n"
proof -
  show t: "take_bit 12 off = off"
    using assms by (simp add: take_bit_eq_mod word_unat_eq_iff unat_mod_distrib word_less_nat_alt)
  show "12 \<le> n \<Longrightarrow> \<not> bit off n" by (subst t [symmetric]) (simp add: bit_simps)
qed

lemma page_plus_offset:
  fixes v off :: u64
  assumes "v AND 0xfff = 0" "off < 4096"
  shows "v + off = v OR off" "vpn (v + off) = vpn v"
proof -
  have "v AND off = 0"
  proof (rule bit_word_eqI)
    fix n show "bit (v AND off) n = bit (0 :: u64) n"
      using page_low_bits [OF assms(1), of n] small_offset(2) [OF assms(2), of n]
      by (cases "n < 12") (simp_all add: bit_simps)
  qed
  then show or: "v + off = v OR off" by (rule disjunctive_add_eq_or)
  show "vpn (v + off) = vpn v" by (simp add: or vpn_bits bit_simps small_offset(2) [OF assms(2)])
qed

lemma mmu_lookup_vpn: "vpn u = vpn v \<Longrightarrow> mmu_lookup s u = mmu_lookup s v"
  using hw_walk_vpn [of u v] by (simp add: mmu_lookup_def hw_page_def cong: option.case_cong)

text \<open>C29: a store to a read-only page anywhere but at its first byte ends the enclave: the
  handler passes the address of the fault itself to \<open>mprotect\<close>, which refuses it, prints
  the error and the frame, and aborts.\<close>

theorem unaligned_fault_aborts:
  assumes "space_ok c D s" "handler_ready E s" "v \<in> set D" "\<not> page_writable c s v"
    and "0 < off" "off < 4096"
  shows "\<exists>s'. store_retry mmu_store8 (serve_fault E) (v + off) b s = Some (Inl s') \<and>
    g_pf_count s' = g_pf_count s + 1 \<and> length (out s') = length (out s) + 7 \<and>
    out s' ! length (out s) = Print (''ERROR: page fault mprotect returns: %d'' @ nl) [AInt (- 1)]"
proof -
  have ok: "pt_ok (pmem s) c D" using assms(1) by (simp add: space_ok_def)
  have al: "v AND 0xfff = 0" using pt_okD(2) [OF ok assms(3)] .
  note vp = page_plus_offset(2) [OF al assms(6)]
  let ?s1 = "s\<lparr>cr2 := v + off, tlb := (tlb s)(vpn v := None)\<rparr>"
  have f: "mmu_store8 s (v + off) b = Fault ?s1"
    using mmu_lookup_page [OF assms(1,3)] assms(4) by (simp add: mmu_store8_def mmu_lookup_vpn [OF vp] vp)
  have "take_bit 12 v = 0" using al by (simp add: addr_masks take_bit_eq_mask)
  then have "take_bit 12 (v + off) = off"
    by (simp add: page_plus_offset(1) [OF al assms(6)] small_offset(1) [OF assms(6)])
  then have "(v + off) mod PGSIZE \<noteq> 0" using assms(5) by (auto simp: PGSIZE_def take_bit_eq_mod)
  then have "exception_handler tf ?s1 = Some (Inl (dump_trapframe tf (printf_ocall
      (''ERROR: page fault mprotect returns: %d'' @ nl) [AInt (- 1)] (?s1\<lparr>g_pf_count := g_pf_count s + 1\<rparr>))))"
    if "ucast (tf_vector tf) = (0xE :: u32)" for tf
    using that by (simp add: exception_handler_def Let_def mprotect_def read_cr2_def)
  moreover have "handler_ready E ?s1" using assms(2) by (simp add: handler_ready_def)
  ultimately have "serve_fault E ?s1 = Some (Inl (dump_trapframe ((store_frame E)\<lparr>tf_vector := 14\<rparr>) (printf_ocall
      (''ERROR: page fault mprotect returns: %d'' @ nl) [AInt (- 1)] (?s1\<lparr>g_pf_count := g_pf_count s + 1\<rparr>))))"
    by (simp add: serve_fault_def raise_ready)
  then show ?thesis
    by (subst store_retry.simps) (simp add: f, simp add: dump_trapframe_def printf_ocall_def nth_append)
qed

theorem unaligned_fault_aborts_witness:
  "\<exists>s'. store_retry mmu_store8 (serve_fault demo_env) 0x400010 7 demo_ready = Some (Inl s') \<and>
     g_pf_count s' = 1"
proof -
  have v: "0x400000 \<in> set [0x400000, 0x401000 :: u64]" by simp
  show ?thesis
    using unaligned_fault_aborts [OF demo_ready_ok(1,2) v demo_ready_ok(3), of "0x10" 7]
    by (auto simp: demo_ready_ok(4))
qed

lemma get_entry_cong:
  assumes "pmem t = pmem s" "g_cached_cr3 t = g_cached_cr3 s"
  shows "get_entry t v = get_entry s v"
proof -
  have "deref t = deref s" by (intro ext) (simp add: deref_def assms(1))
  then show ?thesis unfolding get_entry_def assms(2) by (rule ssubst) (rule refl)
qed

text \<open>C30: a store to a page that has no entry never returns: \<open>mprotect_page\<close> fails, \<open>mprotect\<close>
  reports success all the same, and the store faults again.\<close>

theorem unmapped_store_never_returns:
  assumes "handler_ready E s" "v mod PGSIZE = 0" "v < v + PGSIZE"
    and "mmu_lookup s v = None" "get_entry s v = Ret 0"
  shows "store_retry mmu_store8 (serve_fault E) v b s = None"
proof -
  define stuck where "stuck = (\<lambda>t. handler_ready E t \<and> tlb t (vpn v) = None \<and>
    pmem t = pmem s \<and> cr3 t = cr3 s \<and> g_cached_cr3 t = g_cached_cr3 s)"
  have faults: "\<exists>t1 t2. mmu_store8 t v b = Fault t1 \<and> serve_fault E t1 = Some (Inr t2) \<and> stuck t2"
    if t: "stuck t" for t
  proof -
    let ?t1 = "t\<lparr>cr2 := v, tlb := (tlb t)(vpn v := None)\<rparr>"
    let ?t2 = "?t1\<lparr>g_pf_count := g_pf_count t + 1\<rparr>"
    have "mmu_lookup t v = None"
      using t assms(4) by (auto simp: stuck_def mmu_lookup_def hw_page_def split: option.splits)
    then have f: "mmu_store8 t v b = Fault ?t1" by (simp add: mmu_store8_def)
    have "get_entry ?t2 v = Ret 0"
      using t assms(5) get_entry_cong [of ?t2 s v] by (simp add: stuck_def)
    moreover have "\<not> v + 4096 < v + 4096" by simp
    ultimately have "mprotect ?t2 v PGSIZE (PTE_P OR PTE_W) = Some (Ret (0, ?t2))"
      using assms(2,3) mprotect_loop_step [of v "v + 4096" ?t2 "PTE_P OR PTE_W"]
      by (simp add: mprotect_def mprotect_page_def PGSIZE_def mprotect_loop_done)
    moreover have "handler_ready E ?t1" using t by (simp add: stuck_def handler_ready_def)
    ultimately have "serve_fault E ?t1 = Some (Inr ?t2)"
      by (simp add: serve_fault_def raise_ready exception_handler_def read_cr2_def)
    moreover have "stuck ?t2" using t by (simp add: stuck_def handler_ready_def)
    ultimately show ?thesis using f by blast
  qed
  have "stuck s"
    using assms(1,4) by (auto simp: stuck_def mmu_lookup_def split: option.splits)
  then show ?thesis using store_retry_diverges [of stuck mmu_store8 v b "serve_fault E"] faults by blast
qed

theorem unmapped_store_never_returns_witness:
  "store_retry mmu_store8 (serve_fault demo_env) 0x600000 7 demo_ready = None"
proof -
  obtain m r ev where eq: "demo_ready = demo_penclave\<lparr>idt_mem := m, idt_reg := r,
      g_handler := Some Exception_handler, g_cached_cr3 := cr3 demo_penclave, out := ev\<rparr>"
    using setup_handler_eq [of demo_env demo_penclave] by (auto simp: demo_ready_def)
  have z: "read64 demo_pt 0x3018 = 0"
    by (simp add: demo_pt_def disj8_def byte_mem.rd_wr_disj)
  then have "get_entry demo_ready 0x600000 = Ret 0"
    by (simp add: eq get_entry_def Let_def idx_defs demo_pt_cells next_table_def
      PTE_P_def PTE_PS_def PTE_ADDR_def phys_to_virt_def deref_def PHYS_OFFSET_def)
  moreover have "mmu_lookup demo_ready 0x600000 = None"
    by (simp add: eq mmu_lookup_def hw_page_def hw_walk_3 hw_walk_2 hw_walk_1 hw_addr_def Let_def idx_defs
      demo_pt_cells z)
  ultimately show ?thesis
    by (intro unmapped_store_never_returns [OF demo_ready_ok(2)]) (simp_all add: PGSIZE_def)
qed

end
