(* ===== verification/SdkEnclaves.thy ===== *)
theory SdkEnclaves
  imports Exceptions
begin

text \<open>
  The GU-Enclave and the SGX enclave of \<open>server/exception\<close>
  (\<open>exception_gu_enclave/Enclave/Enclave.cpp\<close> with \<open>mm.h\<close>, and
  \<open>exception_sgx/Enclave/Enclave.cpp\<close>).  Both register a handler with the SDK, take one
  \<open>#UD\<close> per repetition and unregister; the GU-Enclave first writes a buffer, protects it
  by a hypercall and writes it again.

  Not under \<open>src/\<close>, and so parameters: the SDK's registration (its result, 0 for NULL),
  the clock, and the monitor, which serves stores, loads and hypercalls.  The SDK's
  documented dispatch is modelled: it runs the handler on the context of the exception and
  resumes the enclave with the context the handler left when the handler returns
  \<open>EXCEPTION_CONTINUE_EXECUTION\<close>, and aborts the enclave otherwise.
\<close>

section \<open>Context and state\<close>

record sgx_exception_info =
  exception_vector :: u32
  ctx_rip :: u64

record 'm sdk_enclave =
  sdk_ud_count :: u32
  sdk_out :: "event list"
  sdk_rdtscs :: nat
  registered :: bool
  monitor :: 'm

definition EXCEPTION_CONTINUE_EXECUTION :: u32 where "EXCEPTION_CONTINUE_EXECUTION = 0xFFFFFFFF"

definition sdk_printf :: "string \<Rightarrow> arg list \<Rightarrow> 'm sdk_enclave \<Rightarrow> 'm sdk_enclave" where
  "sdk_printf fmt args s = s\<lparr>sdk_out := sdk_out s @ [Print fmt args]\<rparr>"

definition sgx_dispatch ::
  "(sgx_exception_info \<Rightarrow> 'm sdk_enclave \<Rightarrow> u32 \<times> sgx_exception_info \<times> 'm sdk_enclave) \<Rightarrow>
   sgx_exception_info \<Rightarrow> 'm sdk_enclave \<Rightarrow> ('m sdk_enclave, sgx_exception_info \<times> 'm sdk_enclave) run" where
  "sgx_dispatch h info s =
     (if \<not> registered s then Some (Inl s)
      else let (r, info', s') = h info s
           in if r = EXCEPTION_CONTINUE_EXECUTION then Some (Inr (info', s')) else Some (Inl s'))"

section \<open>The handlers\<close>

definition gu_exception_handler ::
  "sgx_exception_info \<Rightarrow> 'm sdk_enclave \<Rightarrow> u32 \<times> sgx_exception_info \<times> 'm sdk_enclave" where
  "gu_exception_handler info s =
     (let vec = exception_vector info
      in if vec = 0x6
         then (EXCEPTION_CONTINUE_EXECUTION, info\<lparr>ctx_rip := ctx_rip info + 2\<rparr>,
               s\<lparr>sdk_ud_count := sdk_ud_count s + 1\<rparr>)
         else (EXCEPTION_CONTINUE_EXECUTION, info,
               sdk_printf (''ERROR: unexcept exception: %lld @ %016llx'' @ nl)
                 [AInt (sint vec), AWord (ctx_rip info)] s))"

definition sgx_exception_handler ::
  "sgx_exception_info \<Rightarrow> 'm sdk_enclave \<Rightarrow> u32 \<times> sgx_exception_info \<times> 'm sdk_enclave" where
  "sgx_exception_handler info s =
     (let vec = exception_vector info
      in if vec = 0x6
         then (EXCEPTION_CONTINUE_EXECUTION, info\<lparr>ctx_rip := ctx_rip info + 2\<rparr>,
               s\<lparr>sdk_ud_count := sdk_ud_count s + 1\<rparr>)
         else (EXCEPTION_CONTINUE_EXECUTION, info,
               sdk_printf (''ERROR: unexcept exception: %lld @ %016llx'' @ nl)
                 [AInt (sint vec), AWord (ctx_rip info)] s))"

section \<open>The hypercall of mm.h\<close>

definition FLAG_R :: u64 where "FLAG_R = push_bit 0 1"
definition FLAG_W :: u64 where "FLAG_W = push_bit 1 1"
definition FLAG_X :: u64 where "FLAG_X = push_bit 2 1"
definition FLAG_U :: u64 where "FLAG_U = push_bit 9 1"

text \<open>
  The monitor: a store returns the new state, a load the byte (\<open>None\<close> if the access never
  completes), a hypercall takes RAX, RDI, RSI and RCX and returns RAX.
\<close>

record 'm services =
  store8 :: "'m \<Rightarrow> u64 \<Rightarrow> u8 \<Rightarrow> 'm option"
  load8 :: "'m \<Rightarrow> u64 \<Rightarrow> u8 option"
  vmmcall :: "'m \<Rightarrow> u64 \<Rightarrow> u64 \<Rightarrow> u64 \<Rightarrow> u64 \<Rightarrow> u64 \<times> 'm"

definition gu_mprotect ::
  "'m services \<Rightarrow> u64 \<Rightarrow> u64 \<Rightarrow> u64 \<Rightarrow> 'm sdk_enclave \<Rightarrow> u32 \<times> 'm sdk_enclave" where
  "gu_mprotect M addr len flags s =
     (let (rax, m) = vmmcall M (monitor s) 0x80006666 addr len flags
      in (ucast rax, s\<lparr>monitor := m\<rparr>))"

section \<open>ecall\_exception\<close>

record sdk_env =
  reg_result :: u64
  sdk_tsc :: "nat \<Rightarrow> u64"
  sdk_test_buf :: u64
  sdk_ud_info :: sgx_exception_info

definition sdk_rdtscp :: "sdk_env \<Rightarrow> 'm sdk_enclave \<Rightarrow> u64 \<times> 'm sdk_enclave" where
  "sdk_rdtscp E s = (sdk_tsc E (sdk_rdtscs s), s\<lparr>sdk_rdtscs := sdk_rdtscs s + 1\<rparr>)"

primrec gu_write :: "'m services \<Rightarrow> u8 \<Rightarrow> u64 list \<Rightarrow> 'm \<Rightarrow> 'm option" where
  "gu_write M b [] m = Some m"
| "gu_write M b (a # as) m = Option.bind (store8 M m a b) (gu_write M b as)"

text \<open>The byte at every 4096th index of \<open>test_buf\<close>.\<close>

definition gu_write_buf ::
  "'m services \<Rightarrow> sdk_env \<Rightarrow> nat \<Rightarrow> u8 \<Rightarrow> 'm sdk_enclave \<Rightarrow> ('m sdk_enclave, 'm sdk_enclave) run" where
  "gu_write_buf M E bufsz b s =
     map_option (\<lambda>m. Inr (s\<lparr>monitor := m\<rparr>))
       (gu_write M b (map (\<lambda>i. sdk_test_buf E + 4096 * of_nat i) [0..<(bufsz + 4095) div 4096]) (monitor s))"

definition sdk_report :: "u64 \<Rightarrow> nat \<Rightarrow> 'm sdk_enclave \<Rightarrow> 'm sdk_enclave" where
  "sdk_report total_time n s =
     sdk_printf (''Average time = %.3lf (cycles)'' @ nl @ nl)
       [ADbl (dbl_div (rnd (real (unat total_time))) (real n))]
       (sdk_printf (''Total Time = %lld (cycles)'' @ nl) [AWord total_time] s)"

definition gu_protect_test ::
  "'m services \<Rightarrow> sdk_env \<Rightarrow> nat \<Rightarrow> 'm sdk_enclave \<Rightarrow> ('m sdk_enclave, 'm sdk_enclave) run" where
  "gu_protect_test M E bufsz s =
     and_then (gu_write_buf M E bufsz 0 s) (\<lambda>s.
       let (ret, s) = gu_mprotect M (sdk_test_buf E) (of_nat bufsz) (FLAG_R OR FLAG_U) s
       in if ret \<noteq> 0
          then Some (Inl (sdk_printf (''ERROR: mprotect returns: %d'' @ nl) [AInt (sint ret)] s))
          else (case load8 M (monitor s) (sdk_test_buf E) of
            None \<Rightarrow> None
          | Some x \<Rightarrow>
              let s = sdk_printf (''read OK: %d'' @ nl) [AInt (uint x)] s;
                  (time_begin, s) = sdk_rdtscp E s
              in and_then (gu_write_buf M E bufsz 1 s) (\<lambda>s.
                   let (time_end, s) = sdk_rdtscp E s;
                       s = sdk_printf (''write OK'' @ nl) [] s;
                       s = sdk_printf (''Write Count = %d'' @ nl) [AInt (int (bufsz div 4096))] s
                   in Some (Inr (sdk_report (time_end - time_begin - 60) (bufsz div 4096) s)))))"

text \<open>The timed \<open>ud2\<close> loop; \<open>overhead\<close> is the constant each enclave subtracts.\<close>

definition sdk_ud2_test ::
  "(sgx_exception_info \<Rightarrow> 'm sdk_enclave \<Rightarrow> u32 \<times> sgx_exception_info \<times> 'm sdk_enclave) \<Rightarrow>
   sdk_env \<Rightarrow> u64 \<Rightarrow> u32 \<Rightarrow> 'm sdk_enclave \<Rightarrow> ('m sdk_enclave, 'm sdk_enclave) run" where
  "sdk_ud2_test h E overhead nrepeats s =
     (let (time_begin, s) = sdk_rdtscp E s
      in and_then (ud2_loop (sgx_dispatch h) ctx_rip (sdk_ud_info E) (unat nrepeats) s) (\<lambda>s.
           let (time_end, s) = sdk_rdtscp E s;
               s = sdk_printf (''test #UD OK'' @ nl) [] s;
               s = sdk_printf (''Count = %d'' @ nl) [AInt (sint nrepeats)] s
           in Some (Inr (sdk_report (time_end - time_begin - overhead) (unat nrepeats) s))))"

definition gu_ecall_exception ::
  "'m services \<Rightarrow> sdk_env \<Rightarrow> nat \<Rightarrow> u32 \<Rightarrow> 'm sdk_enclave \<Rightarrow> ('m sdk_enclave, sgx_status \<times> 'm sdk_enclave) run" where
  "gu_ecall_exception M E bufsz nrepeats s =
     (let s = sdk_printf (''Starting...'' @ nl) [] s
      in if reg_result E = 0 then Some (Inr (SGX_ERROR_UNEXPECTED, s))
         else let s = s\<lparr>registered := True\<rparr>;
                  s = sdk_printf (''Register exception handler OK!'' @ nl) [] s
              in and_then (gu_protect_test M E bufsz s) (\<lambda>s.
                 and_then (sdk_ud2_test gu_exception_handler E 60 nrepeats s) (\<lambda>s.
                   let s = sdk_printf (''#UD Count = %d'' @ nl) [AInt (sint (sdk_ud_count s))] s
                   in Some (Inr (SGX_SUCCESS, s\<lparr>registered := False\<rparr>)))))"

definition sgx_ecall_exception ::
  "sdk_env \<Rightarrow> u32 \<Rightarrow> 'm sdk_enclave \<Rightarrow> ('m sdk_enclave, sgx_status \<times> 'm sdk_enclave) run" where
  "sgx_ecall_exception E nrepeats s =
     (if reg_result E = 0 then Some (Inr (SGX_ERROR_UNEXPECTED, s))
      else and_then (sdk_ud2_test sgx_exception_handler E 12432 nrepeats (s\<lparr>registered := True\<rparr>)) (\<lambda>s.
             Some (Inr (SGX_SUCCESS, s\<lparr>registered := False\<rparr>))))"

section \<open>The handlers meet the contract of the ud2 loop\<close>

definition sdk_others :: "'m sdk_enclave \<Rightarrow> 'm sdk_enclave" where
  "sdk_others s = s\<lparr>sdk_ud_count := 0\<rparr>"

lemma handlers_agree: "sgx_exception_handler = gu_exception_handler"
  by (intro ext) (simp add: sgx_exception_handler_def gu_exception_handler_def)

interpretation gu_ud2:
  ud2_handler "sgx_dispatch gu_exception_handler" ctx_rip "\<lambda>f. exception_vector f = 6"
    registered sdk_ud_count sdk_others
  by unfold_locales (auto simp: sgx_dispatch_def gu_exception_handler_def sdk_others_def)

interpretation sgx_ud2:
  ud2_handler "sgx_dispatch sgx_exception_handler" ctx_rip "\<lambda>f. exception_vector f = 6"
    registered sdk_ud_count sdk_others
  by (simp only: handlers_agree) (rule gu_ud2.ud2_handler_axioms)

lemma sdk_othersD:
  assumes "sdk_others s' = sdk_others s"
  shows "sdk_out s' = sdk_out s" "sdk_rdtscs s' = sdk_rdtscs s" "registered s' = registered s"
    "monitor s' = monitor s"
  using arg_cong [OF assms, of sdk_out] arg_cong [OF assms, of sdk_rdtscs]
    arg_cong [OF assms, of registered] arg_cong [OF assms, of monitor]
  by (simp_all add: sdk_others_def)

text \<open>The lines printed after a loop that read the clock for the \<open>n\<close>-th time first.\<close>

definition ud2_lines :: "sdk_env \<Rightarrow> u64 \<Rightarrow> u32 \<Rightarrow> nat \<Rightarrow> event list" where
  "ud2_lines E ov k n =
     (let total_time = sdk_tsc E (n + 1) - sdk_tsc E n - ov
      in [Print (''test #UD OK'' @ nl) [], Print (''Count = %d'' @ nl) [AInt (sint k)],
          Print (''Total Time = %lld (cycles)'' @ nl) [AWord total_time],
          Print (''Average time = %.3lf (cycles)'' @ nl @ nl)
            [ADbl (dbl_div (rnd (real (unat total_time))) (real (unat k)))]])"

text \<open>The timed loop: one exception per repetition, two readings of the clock, the report.\<close>

lemma sdk_ud2_test_ok:
  assumes "h \<in> {gu_exception_handler, sgx_exception_handler}"
    and "exception_vector (sdk_ud_info E) = 6" "registered s"
  shows "\<exists>s'. sdk_ud2_test h E ov k s = Some (Inr s') \<and> sdk_ud_count s' = sdk_ud_count s + k \<and>
    registered s' \<and> monitor s' = monitor s \<and> sdk_rdtscs s' = sdk_rdtscs s + 2 \<and>
    sdk_out s' = sdk_out s @ ud2_lines E ov k (sdk_rdtscs s)"
proof -
  let ?s = "s\<lparr>sdk_rdtscs := sdk_rdtscs s + 1\<rparr>"
  obtain s1 where s1: "ud2_loop (sgx_dispatch h) ctx_rip (sdk_ud_info E) (unat k) ?s = Some (Inr s1)"
    "sdk_ud_count s1 = sdk_ud_count s + k" "sdk_others s1 = sdk_others ?s"
    using gu_ud2.ud2_loop_counts [of "sdk_ud_info E" ?s "unat k"] assms by (auto simp: handlers_agree)
  then show ?thesis
    using sdk_othersD [OF s1(3)] assms(3)
    by (simp add: sdk_ud2_test_def sdk_rdtscp_def sdk_report_def sdk_printf_def
      ud2_lines_def Let_def)
qed

section \<open>Properties\<close>

text \<open>A handler registered with the SDK ends the SGX benchmark with \<open>SGX_SUCCESS\<close> after one
  \<open>#UD\<close> per repetition, with the report of the cycles as the only output; without one the
  call fails at once and nothing is counted.\<close>

theorem sgx_ecall_exception_result:
  assumes "exception_vector (sdk_ud_info E) = 6"
  shows "\<exists>r s'. sgx_ecall_exception E k s = Some (Inr (r, s')) \<and>
    (if reg_result E = 0 then r = SGX_ERROR_UNEXPECTED \<and> s' = s
     else r = SGX_SUCCESS \<and> sdk_ud_count s' = sdk_ud_count s + k \<and> \<not> registered s' \<and>
       monitor s' = monitor s \<and>
       sdk_out s' = sdk_out s @ ud2_lines E 12432 k (sdk_rdtscs s))"
proof (cases "reg_result E = 0")
  case False
  obtain s1 where s1: "sdk_ud2_test sgx_exception_handler E 12432 k (s\<lparr>registered := True\<rparr>) = Some (Inr s1)"
    "sdk_ud_count s1 = sdk_ud_count s + k" "monitor s1 = monitor s"
    "sdk_out s1 = sdk_out s @ ud2_lines E 12432 k (sdk_rdtscs s)"
    using sdk_ud2_test_ok [of sgx_exception_handler E "s\<lparr>registered := True\<rparr>" 12432 k] assms by auto
  show ?thesis using False by (simp add: sgx_ecall_exception_def s1)
qed (simp add: sgx_ecall_exception_def)

definition demo_sdk_env :: sdk_env where
  "demo_sdk_env = \<lparr>reg_result = 0x1000, sdk_tsc = (\<lambda>n. 100000 * of_nat n), sdk_test_buf = 0x10000,
     sdk_ud_info = \<lparr>exception_vector = 6, ctx_rip = 0x400000\<rparr>\<rparr>"

definition demo_sdk_state :: "'m \<Rightarrow> 'm sdk_enclave" where
  "demo_sdk_state m = \<lparr>sdk_ud_count = 0, sdk_out = [], sdk_rdtscs = 0, registered = False, monitor = m\<rparr>"

theorem sgx_ecall_exception_result_witness:
  "\<exists>s'. sgx_ecall_exception demo_sdk_env 7 (demo_sdk_state ()) = Some (Inr (SGX_SUCCESS, s')) \<and>
     sdk_ud_count s' = 7 \<and>
     sdk_out s' ! 2 = Print (''Total Time = %lld (cycles)'' @ nl) [AWord 87568]"
  using sgx_ecall_exception_result [of demo_sdk_env 7 "demo_sdk_state ()"]
  by (auto simp: demo_sdk_env_def demo_sdk_state_def ud2_lines_def)

text \<open>
  The monitor's part of the GU-Enclave's run: stores and loads of the buffer complete, the
  protection hypercall returns 0, and both keep an invariant of the monitor.
\<close>

definition services_ok :: "'m services \<Rightarrow> ('m \<Rightarrow> bool) \<Rightarrow> (u64 \<Rightarrow> bool) \<Rightarrow> bool" where
  "services_ok M minv buf_addr \<longleftrightarrow>
     (\<forall>m a b. minv m \<longrightarrow> buf_addr a \<longrightarrow> (\<exists>m'. store8 M m a b = Some m' \<and> minv m')) \<and>
     (\<forall>m a. minv m \<longrightarrow> buf_addr a \<longrightarrow> load8 M m a \<noteq> None) \<and>
     (\<forall>m a l f. minv m \<longrightarrow> buf_addr a \<longrightarrow>
        ucast (fst (vmmcall M m 0x80006666 a l f)) = (0 :: u32) \<and> minv (snd (vmmcall M m 0x80006666 a l f)))"

lemma services_okD:
  assumes "services_ok M minv buf_addr" "minv m" "buf_addr a"
  shows "\<exists>m'. store8 M m a b = Some m' \<and> minv m'" "\<exists>x. load8 M m a = Some x"
    and "ucast (fst (vmmcall M m 0x80006666 a l f)) = (0 :: u32)" "minv (snd (vmmcall M m 0x80006666 a l f))"
  using assms unfolding services_ok_def by blast+

lemma gu_write_ok:
  assumes "services_ok M minv buf_addr" "minv m" "\<forall>a\<in>set as. buf_addr a"
  shows "\<exists>m'. gu_write M b as m = Some m' \<and> minv m'"
  using assms(2,3)
proof (induction as arbitrary: m)
  case (Cons a as)
  then obtain m' where "store8 M m a b = Some m'" "minv m'"
    using services_okD(1) [OF assms(1), of m a b] by auto
  then show ?case using Cons.IH [of m'] Cons.prems by auto
qed simp

definition gu_pages :: "sdk_env \<Rightarrow> nat \<Rightarrow> u64 list" where
  "gu_pages E bufsz = map (\<lambda>i. sdk_test_buf E + 4096 * of_nat i) [0..<(bufsz + 4095) div 4096]"

lemma gu_protect_test_ok:
  assumes "services_ok M minv buf_addr" "minv (monitor s)" "\<forall>a\<in>set (gu_pages E bufsz). buf_addr a"
    and "buf_addr (sdk_test_buf E)"
  shows "\<exists>s'. gu_protect_test M E bufsz s = Some (Inr s') \<and> sdk_ud_count s' = sdk_ud_count s \<and>
    registered s' = registered s"
proof -
  note p = gu_pages_def [of E bufsz, symmetric]
  obtain m1 where m1: "gu_write M 0 (gu_pages E bufsz) (monitor s) = Some m1" "minv m1"
    using gu_write_ok [OF assms(1,2,3)] by blast
  obtain rax m2 where m2: "vmmcall M m1 0x80006666 (sdk_test_buf E) (of_nat bufsz) (FLAG_R OR FLAG_U) = (rax, m2)"
    by fastforce
  then have r: "(ucast rax :: u32) = 0" "minv m2"
    using services_okD(3,4) [OF assms(1) m1(2) assms(4), of "of_nat bufsz" "FLAG_R OR FLAG_U"] by simp_all
  obtain x where x: "load8 M m2 (sdk_test_buf E) = Some x"
    using services_okD(2) [OF assms(1) r(2) assms(4)] by blast
  obtain m3 where m3: "gu_write M 1 (gu_pages E bufsz) m2 = Some m3" "minv m3"
    using gu_write_ok [OF assms(1) r(2) assms(3)] by blast
  show ?thesis
    by (simp add: gu_protect_test_def gu_write_buf_def p m1 gu_mprotect_def m2 r x m3 sdk_rdtscp_def
      sdk_report_def sdk_printf_def)
qed

text \<open>With a monitor that completes the accesses to the buffer and accepts the protection
  hypercall, the GU-Enclave's benchmark ends with \<open>SGX_SUCCESS\<close> after one \<open>#UD\<close> per
  repetition, unregisters its handler and prints the count last; without a registered handler it
  fails before it touches the buffer.\<close>

lemma gu_ecall_exception_run:
  assumes "services_ok M minv buf_addr" "minv (monitor s)" "\<forall>a\<in>set (gu_pages E bufsz). buf_addr a"
    and "buf_addr (sdk_test_buf E)" "exception_vector (sdk_ud_info E) = 6"
  shows "\<exists>r s'. gu_ecall_exception M E bufsz k s = Some (Inr (r, s')) \<and>
    (if reg_result E = 0 then r = SGX_ERROR_UNEXPECTED \<and> monitor s' = monitor s
     else r = SGX_SUCCESS \<and> sdk_ud_count s' = sdk_ud_count s + k \<and> \<not> registered s' \<and>
       last (sdk_out s') = Print (''#UD Count = %d'' @ nl) [AInt (sint (sdk_ud_count s + k))])"
proof (cases "reg_result E = 0")
  case True
  then show ?thesis by (simp add: gu_ecall_exception_def sdk_printf_def)
next
  case False
  define s0 where "s0 = sdk_printf (''Register exception handler OK!'' @ nl) []
    ((sdk_printf (''Starting...'' @ nl) [] s)\<lparr>registered := True\<rparr>)"
  have s0: "minv (monitor s0)" "registered s0" "sdk_ud_count s0 = sdk_ud_count s"
    using assms(2) by (simp_all add: s0_def sdk_printf_def)
  obtain s1 where s1: "gu_protect_test M E bufsz s0 = Some (Inr s1)" "sdk_ud_count s1 = sdk_ud_count s"
    "registered s1"
    using gu_protect_test_ok [OF assms(1) s0(1) assms(3,4)] s0 by auto
  obtain s2 where s2: "sdk_ud2_test gu_exception_handler E 60 k s1 = Some (Inr s2)"
    "sdk_ud_count s2 = sdk_ud_count s + k"
    using sdk_ud2_test_ok [of gu_exception_handler E s1 60 k] s1 assms(5) by auto
  have "gu_ecall_exception M E bufsz k s = Some (Inr (SGX_SUCCESS,
      (sdk_printf (''#UD Count = %d'' @ nl) [AInt (sint (sdk_ud_count s2))] s2)\<lparr>registered := False\<rparr>))"
    using False by (simp only: gu_ecall_exception_def Let_def s0_def [symmetric] if_False s1 s2 and_then_simps)
  then show ?thesis using False s2(2) by (simp add: sdk_printf_def)
qed

text \<open>A monitor that keeps the bytes written and accepts every hypercall.\<close>

definition demo_services :: "memory services" where
  "demo_services = \<lparr>store8 = \<lambda>m a b. Some (m(a := b)), load8 = \<lambda>m a. Some (m a),
     vmmcall = \<lambda>m rax rdi rsi rcx. (0, m)\<rparr>"

text \<open>
  In both enclaves an instruction that raises anything but \<open>#UD\<close> never gets past: the
  handler prints, reports that execution may continue and leaves the instruction pointer,
  and the instruction faults again.
\<close>

lemma unexpected_exception_livelock:
  assumes "exception_vector info \<noteq> 6" "registered s"
    and "h \<in> {gu_exception_handler, sgx_exception_handler}"
  shows "trap_run (sgx_dispatch h) ctx_rip info s = None"
proof (rule trap_run_diverges [where stuck = "\<lambda>f t. exception_vector f \<noteq> 6 \<and> registered t"])
  fix f :: sgx_exception_info and t :: "'a sdk_enclave"
  assume "exception_vector f \<noteq> 6 \<and> registered t"
  then show "\<exists>f' t'. sgx_dispatch h f t = Some (Inr (f', t')) \<and> ctx_rip f' = ctx_rip f \<and>
      exception_vector f' \<noteq> 6 \<and> registered t'"
    using assms(3) by (auto simp: sgx_dispatch_def handlers_agree gu_exception_handler_def sdk_printf_def)
qed (use assms in simp)

lemma ud_trap_run:
  assumes "exception_vector info = 6" "registered s"
    and "h \<in> {gu_exception_handler, sgx_exception_handler}"
  shows "trap_run (sgx_dispatch h) ctx_rip info s =
    Some (Inr (ctx_rip info + 2, s\<lparr>sdk_ud_count := sdk_ud_count s + 1\<rparr>))"
  using assms by (subst trap_run.simps) (auto simp: sgx_dispatch_def handlers_agree gu_exception_handler_def)

text \<open>C31: an instruction of the GU-Enclave or the SGX enclave that traps while the handler is
  registered gets past exactly if the exception is \<open>#UD\<close>, and then two bytes further with
  the counter one higher.  On any other exception the handler prints its report, counts
  nothing and has the SDK resume the enclave at the same instruction with the same context, so
  it traps for ever; that the report calls it an ERROR does not end the enclave.\<close>

theorem unexpected_exception_repeats:
  assumes "h \<in> {gu_exception_handler, sgx_exception_handler}" "registered s"
  shows "trap_run (sgx_dispatch h) ctx_rip info s =
      (if exception_vector info = 6
       then Some (Inr (ctx_rip info + 2, s\<lparr>sdk_ud_count := sdk_ud_count s + 1\<rparr>))
       else None) \<and>
    (exception_vector info \<noteq> 6 \<longrightarrow>
      sgx_dispatch h info s = Some (Inr (info,
        s\<lparr>sdk_out := sdk_out s @ [Print (''ERROR: unexcept exception: %lld @ %016llx'' @ nl)
             [AInt (sint (exception_vector info)), AWord (ctx_rip info)]]\<rparr>)))"
  using unexpected_exception_livelock [OF _ assms(2,1)] ud_trap_run [OF _ assms(2,1)] assms
  by (auto simp: sgx_dispatch_def handlers_agree gu_exception_handler_def sdk_printf_def)

theorem unexpected_exception_repeats_witness:
  "trap_run (sgx_dispatch gu_exception_handler) ctx_rip \<lparr>exception_vector = 0, ctx_rip = 0x400000\<rparr>
     ((demo_sdk_state ())\<lparr>registered := True\<rparr>) = None \<and>
   (\<exists>s'. trap_run (sgx_dispatch sgx_exception_handler) ctx_rip \<lparr>exception_vector = 6, ctx_rip = 0x400000\<rparr>
     ((demo_sdk_state ())\<lparr>registered := True\<rparr>) = Some (Inr (0x400002, s')) \<and> sdk_ud_count s' = 1)"
proof -
  let ?s = "(demo_sdk_state ())\<lparr>registered := True\<rparr>"
  show ?thesis
    using unexpected_exception_repeats [of gu_exception_handler ?s "\<lparr>exception_vector = 0, ctx_rip = 0x400000\<rparr>"]
      unexpected_exception_repeats [of sgx_exception_handler ?s "\<lparr>exception_vector = 6, ctx_rip = 0x400000\<rparr>"]
    by (simp add: demo_sdk_state_def)
qed

end
