(* ===== verification/Printf.thy ===== *)
theory Printf
  imports Prelude
begin

text \<open>
  The text that the C library's \<open>printf\<close> family produces for the conversions the program uses:
  \<open>%d %ld %lld %x %X %lx %llx %s %f %lf\<close> with a zero flag, a width (also \<open>*\<close>) and a precision.
  A call is typed by the conversions of its format; a typed call has a text, and its length is
  bounded by the conversions.  The typing is by width: \<open>l\<close> and \<open>ll\<close> are both 64 bits on x86-64 and a
  signed conversion reads an unsigned argument of its width, so mixing these (as the code does
  when it prints a \<open>uint64_t\<close> by \<open>%ld\<close>) is typed here and read as the signed value of the word.

  From the library's headers, and so parameters (\<open>libc\<close>): the numbers of the status codes and the
  text of a NaN.  The library rounds a decimal fraction correctly: to nearest, ties to even.
\<close>

section \<open>Conversion specifications\<close>

datatype conv = Int_conv | Long_conv | Double_conv | String_conv

fun arg_conv :: "arg \<Rightarrow> conv" where
  "arg_conv (AInt i) = Int_conv"
| "arg_conv (AStatus st) = Int_conv"
| "arg_conv (ALong i) = Long_conv"
| "arg_conv (AWord w) = Long_conv"
| "arg_conv (ADbl d) = Double_conv"
| "arg_conv (AStr s) = String_conv"

text \<open>
  A specification: the zero flag, whether the text goes to the left, the width so far, the
  precision if there is one, and whether an \<open>l\<close> or \<open>ll\<close> (a 64-bit integer) was read.
\<close>

record spec =
  fl_zero :: bool
  fl_left :: bool
  fl_width :: nat
  fl_prec :: "nat option"
  fl_long :: bool

definition no_spec :: spec where
  "no_spec = \<lparr>fl_zero = False, fl_left = False, fl_width = 0, fl_prec = None, fl_long = False\<rparr>"

definition digit :: "char \<Rightarrow> nat" where "digit c = of_char c - 48"

definition read_digit :: "char \<Rightarrow> spec \<Rightarrow> spec" where
  "read_digit c p =
     (case fl_prec p of
        Some n \<Rightarrow> p\<lparr>fl_prec := Some (10 * n + digit c)\<rparr>
      | None \<Rightarrow> if c = CHR ''0'' \<and> fl_width p = 0 then p\<lparr>fl_zero := True\<rparr> else p\<lparr>fl_width := 10 * fl_width p + digit c\<rparr>)"

section \<open>Numbers\<close>

record libc =
  status_num :: "sgx_status \<Rightarrow> u32"
  nan_text :: string

definition show_int :: "int \<Rightarrow> string" where
  "show_int i = (if i < 0 then CHR ''-'' # dec (nat (- i)) else dec (nat i))"

definition hex_digit :: "char list \<Rightarrow> nat \<Rightarrow> char" where
  "hex_digit ds n = ds ! n"

definition lower_hex :: string where "lower_hex = ''0123456789abcdef''"
definition upper_hex :: string where "upper_hex = ''0123456789ABCDEF''"

fun hex :: "string \<Rightarrow> nat \<Rightarrow> string" where
  "hex ds n = (if n < 16 then [hex_digit ds n] else hex ds (n div 16) @ [hex_digit ds (n mod 16)])"

declare hex.simps [simp del]

text \<open>Padding to a width: on the right, with zeros after the sign, or with spaces before it.\<close>

definition pad :: "bool \<Rightarrow> bool \<Rightarrow> nat \<Rightarrow> string \<Rightarrow> string" where
  "pad l z w s =
     (let n = w - length s
      in if l then s @ replicate n CHR '' ''
         else if z then if s \<noteq> [] \<and> hd s = CHR ''-'' then CHR ''-'' # replicate n CHR ''0'' @ tl s
                        else replicate n CHR ''0'' @ s
         else replicate n CHR '' '' @ s)"

definition show_dbl :: "libc \<Rightarrow> nat \<Rightarrow> dbl \<Rightarrow> string" where
  "show_dbl C p d =
     (case d of
        NaN \<Rightarrow> nan_text C
      | Inf neg \<Rightarrow> if neg then ''-inf'' else ''inf''
      | Fin x \<Rightarrow>
          let n = nat (round_even (\<bar>x\<bar> * 10 ^ p))
          in (if x < 0 then ''-'' else []) @ dec (n div 10 ^ p) @
             (if p = 0 then [] else CHR ''.'' # pad False True p (dec (n mod 10 ^ p))))"

text \<open>The value of an integer argument as a signed and as an unsigned number of its width.\<close>

fun int_arg :: "libc \<Rightarrow> arg \<Rightarrow> int" where
  "int_arg C (AInt i) = sint (word_of_int i :: u32)"
| "int_arg C (AStatus st) = sint (status_num C st)"
| "int_arg C (ALong i) = sint (word_of_int i :: u64)"
| "int_arg C (AWord w) = sint w"
| "int_arg C _ = 0"

fun nat_arg :: "libc \<Rightarrow> arg \<Rightarrow> nat" where
  "nat_arg C (AInt i) = unat (word_of_int i :: u32)"
| "nat_arg C (AStatus st) = unat (status_num C st)"
| "nat_arg C (ALong i) = unat (word_of_int i :: u64)"
| "nat_arg C (AWord w) = unat w"
| "nat_arg C _ = 0"

text \<open>The text of one argument under a conversion character; \<open>None\<close> if its type is another.\<close>

definition show_conv :: "libc \<Rightarrow> spec \<Rightarrow> char \<Rightarrow> arg \<Rightarrow> string option" where
  "show_conv C p c a =
     (let int_conv = (if fl_long p then Long_conv else Int_conv)
      in if c = CHR ''d'' \<and> arg_conv a = int_conv then Some (pad (fl_left p) (fl_zero p) (fl_width p) (show_int (int_arg C a)))
         else if c = CHR ''x'' \<and> arg_conv a = int_conv then Some (pad (fl_left p) (fl_zero p) (fl_width p) (hex lower_hex (nat_arg C a)))
         else if c = CHR ''X'' \<and> arg_conv a = int_conv then Some (pad (fl_left p) (fl_zero p) (fl_width p) (hex upper_hex (nat_arg C a)))
         else if c = CHR ''f''
           then (case a of ADbl d \<Rightarrow> Some (pad (fl_left p) (fl_zero p) (fl_width p) (show_dbl C (case fl_prec p of None \<Rightarrow> 6 | Some n \<Rightarrow> n) d))
                 | _ \<Rightarrow> None)
         else if c = CHR ''s'' \<and> \<not> fl_long p
           then (case a of AStr s \<Rightarrow> Some (pad (fl_left p) False (fl_width p) s) | _ \<Rightarrow> None)
         else None)"

section \<open>Formats\<close>

text \<open>
  The text of a format and its arguments.  \<open>None\<close> is a format outside this syntax, an argument
  missing or of the wrong type (undefined behaviour), or left over, which the program has
  none of.  A negative \<open>*\<close> puts the text to the left.
\<close>

fun text_of :: "libc \<Rightarrow> string \<Rightarrow> arg list \<Rightarrow> string option"
  and text_spec :: "libc \<Rightarrow> spec \<Rightarrow> string \<Rightarrow> arg list \<Rightarrow> string option" where
  "text_of C [] args = (if args = [] then Some [] else None)"
| "text_of C (c # cs) args =
     (if c = CHR ''%'' then text_spec C no_spec cs args else map_option (Cons c) (text_of C cs args))"
| "text_spec C p [] args = None"
| "text_spec C p (c # cs) args =
     (if c \<in> set ''0123456789'' then text_spec C (read_digit c p) cs args
      else if c = CHR ''.'' then text_spec C (p\<lparr>fl_prec := Some 0\<rparr>) cs args
      else if c = CHR ''*''
        then (case args of [] \<Rightarrow> None
              | a # args \<Rightarrow> let i = int_arg C a
                  in if arg_conv a = Int_conv
                     then text_spec C (p\<lparr>fl_left := fl_left p \<or> i < 0, fl_width := nat \<bar>i\<bar>\<rparr>) cs args else None)
      else if c = CHR ''l'' then text_spec C (p\<lparr>fl_long := True\<rparr>) cs args
      else (case args of [] \<Rightarrow> None
            | a # args \<Rightarrow> Option.bind (show_conv C p c a)
                (\<lambda>t. map_option ((@) t) (text_of C cs args))))"

section \<open>Typing\<close>

text \<open>The conversions of a format, in order; \<open>*\<close> takes an \<open>int\<close>.\<close>

fun conversions :: "string \<Rightarrow> conv list option"
  and directive :: "bool \<Rightarrow> string \<Rightarrow> conv list option" where
  "conversions [] = Some []"
| "conversions (c # cs) = (if c = CHR ''%'' then directive False cs else conversions cs)"
| "directive w [] = None"
| "directive w (c # cs) =
     (if c \<in> set ''0123456789.'' then directive w cs
      else if c = CHR ''*'' then map_option (Cons Int_conv) (directive w cs)
      else if c = CHR ''l'' then directive True cs
      else if c \<in> set ''dxX'' then map_option (Cons (if w then Long_conv else Int_conv)) (conversions cs)
      else if c = CHR ''f'' then map_option (Cons Double_conv) (conversions cs)
      else if c = CHR ''s'' \<and> \<not> w then map_option (Cons String_conv) (conversions cs)
      else None)"

lemma long_read_digit [simp]: "fl_long (read_digit c p) = fl_long p"
  by (simp add: read_digit_def split: option.split)

lemma arg_conv_cases:
  "arg_conv a = Double_conv \<longleftrightarrow> (\<exists>d. a = ADbl d)" "arg_conv a = String_conv \<longleftrightarrow> (\<exists>s. a = AStr s)"
  by (cases a; simp)+

lemma show_conv_typed:
  "show_conv C p c a \<noteq> None \<longleftrightarrow>
    (if c \<in> set ''dxX'' then arg_conv a = (if fl_long p then Long_conv else Int_conv)
     else if c = CHR ''f'' then arg_conv a = Double_conv
     else c = CHR ''s'' \<and> \<not> fl_long p \<and> arg_conv a = String_conv)"
  by (cases a) (auto simp: show_conv_def)

text \<open>One character of a specification, by its class.\<close>

lemma spec_digit:
  assumes "c \<in> set ''0123456789''"
  shows "text_spec C p (c # cs) args = text_spec C (read_digit c p) cs args" "directive w (c # cs) = directive w cs"
proof -
  have "c \<in> set ''0123456789.''" using assms by auto
  then show "directive w (c # cs) = directive w cs" by (simp only: directive.simps if_True)
  show "text_spec C p (c # cs) args = text_spec C (read_digit c p) cs args"
    using assms by (simp only: text_spec.simps if_True)
qed

lemma spec_other:
  assumes "c \<notin> set ''0123456789.*l''"
  shows "text_spec C p (c # cs) (a # as) = Option.bind (show_conv C p c a) (\<lambda>t. map_option ((@) t) (text_of C cs as))"
    and "text_spec C p (c # cs) [] = None"
    and "directive w (c # cs) =
      (if c \<in> set ''dxX'' then map_option (Cons (if w then Long_conv else Int_conv)) (conversions cs)
       else if c = CHR ''f'' then map_option (Cons Double_conv) (conversions cs)
       else if c = CHR ''s'' \<and> \<not> w then map_option (Cons String_conv) (conversions cs)
       else None)"
proof -
  have n: "c \<notin> set ''0123456789''" "c \<notin> set ''0123456789.''" "c \<noteq> CHR ''.''" "c \<noteq> CHR ''*''" "c \<noteq> CHR ''l''"
    using assms by auto
  then show "text_spec C p (c # cs) (a # as) =
      Option.bind (show_conv C p c a) (\<lambda>t. map_option ((@) t) (text_of C cs as))"
    "text_spec C p (c # cs) [] = None"
    by (simp_all only: text_spec.simps if_False list.case)
  show "directive w (c # cs) =
      (if c \<in> set ''dxX'' then map_option (Cons (if w then Long_conv else Int_conv)) (conversions cs)
       else if c = CHR ''f'' then map_option (Cons Double_conv) (conversions cs)
       else if c = CHR ''s'' \<and> \<not> w then map_option (Cons String_conv) (conversions cs)
       else None)"
    using n by (simp only: directive.simps if_False)
qed

text \<open>A call of \<open>printf\<close> has a text exactly if it is well-typed.\<close>

lemma text_of_iff:
  "text_of C cs args \<noteq> None \<longleftrightarrow> conversions cs = Some (map arg_conv args)"
  "text_spec C p cs args \<noteq> None \<longleftrightarrow> directive (fl_long p) cs = Some (map arg_conv args)"
proof (induction C cs args and C p cs args rule: text_of_text_spec.induct)
  case (2 C c cs args)
  then show ?case by (cases "c = CHR ''%''") (simp_all add: no_spec_def)
next
  case (4 C p c cs args)
  consider "c \<in> set ''0123456789''" | "c = CHR ''.''" | "c = CHR ''*''" | "c = CHR ''l''"
    | "c \<notin> set ''0123456789.*l''" by auto
  then show ?case
  proof cases
    case 1
    show ?thesis using 4(1) [OF 1] by (simp only: spec_digit [OF 1] long_read_digit)
  next
    case 2
    then show ?thesis using 4(2) by simp
  next
    case 3
    show ?thesis
    proof (cases args)
      case (Cons a as)
      then show ?thesis using 3 4(3) [OF _ _ 3 Cons refl] by (cases "arg_conv a = Int_conv") (simp_all add: Let_def)
    qed (simp add: 3)
  next
    case 4
    then show ?thesis using "4.IH"(4) by simp
  next
    case 5
    show ?thesis
    proof (cases args)
      case (Cons a as)
      show ?thesis
      proof (cases "show_conv C p c a")
        case None
        then have "\<not> (if c \<in> set ''dxX'' then arg_conv a = (if fl_long p then Long_conv else Int_conv)
            else if c = CHR ''f'' then arg_conv a = Double_conv
            else c = CHR ''s'' \<and> \<not> fl_long p \<and> arg_conv a = String_conv)"
          using show_conv_typed [of C p c a] by simp
        then show ?thesis unfolding Cons spec_other [OF 5] None by (auto split: if_splits)
      next
        case (Some t)
        then have "if c \<in> set ''dxX'' then arg_conv a = (if fl_long p then Long_conv else Int_conv)
            else if c = CHR ''f'' then arg_conv a = Double_conv
            else c = CHR ''s'' \<and> \<not> fl_long p \<and> arg_conv a = String_conv"
          using show_conv_typed [of C p c a] by simp
        then show ?thesis using 4(5) [OF _ _ _ _ Cons] 5
          unfolding Cons spec_other [OF 5] Some by (auto split: if_splits)
      qed
    qed (simp only: spec_other [OF 5], auto split: if_splits)
  qed
qed auto

section \<open>Output\<close>

fun event_ok :: "event \<Rightarrow> bool" where
  "event_ok (Print fmt args) \<longleftrightarrow> conversions fmt = Some (map arg_conv args)"
| "event_ok (Fprint f fmt args) \<longleftrightarrow> conversions fmt = Some (map arg_conv args)"
| "event_ok ev \<longleftrightarrow> True"

definition output_ok :: "event list \<Rightarrow> bool" where
  "output_ok ev \<longleftrightarrow> (\<forall>e\<in>set ev. event_ok e)"

lemma output_ok_simps [simp]:
  "output_ok []" "output_ok (e # ev) \<longleftrightarrow> event_ok e \<and> output_ok ev"
  "output_ok (a @ b) \<longleftrightarrow> output_ok a \<and> output_ok b"
  by (auto simp: output_ok_def)

lemma conversions_nl [simp]: "conversions nl = Some []"
  by (simp add: nl_def)

lemma conversions_append_nl [simp]: "conversions (cs @ nl) = conversions cs"
  "directive lng (cs @ nl) = directive lng cs"
  by (induction cs and lng cs rule: conversions_directive.induct)
    (simp_all add: nl_def)

lemma text_of_typed: "conversions fmt = Some (map arg_conv args) \<Longrightarrow> \<exists>t. text_of C fmt args = Some t"
  using text_of_iff(1) [of C fmt args] by simp

section \<open>Lengths\<close>

lemma length_dec: "n < 10 ^ k \<Longrightarrow> 0 < k \<Longrightarrow> length (dec n) \<le> k"
proof (induction n arbitrary: k rule: dec.induct)
  case (1 n)
  show ?case
  proof (cases "n < 10")
    case False
    obtain j where "k = Suc j" using 1(3) by (cases k) auto
    moreover from this have "0 < j" using False 1(2) by (cases j) auto
    ultimately have j: "k = Suc j" "0 < j" by simp_all
    then have "n div 10 < 10 ^ j" using 1(2) by (simp add: less_mult_imp_div_less mult.commute)
    then show ?thesis using 1(1) [OF False _ j(2)] False j(1) by (subst dec.simps) simp
  qed (use 1 in \<open>simp add: dec.simps\<close>)
qed

lemma length_hex: "n < 16 ^ k \<Longrightarrow> 0 < k \<Longrightarrow> length (hex ds n) \<le> k"
proof (induction ds n arbitrary: k rule: hex.induct)
  case (1 ds n)
  show ?case
  proof (cases "n < 16")
    case False
    obtain j where "k = Suc j" using 1(3) by (cases k) auto
    moreover from this have "0 < j" using False 1(2) by (cases j) auto
    ultimately have j: "k = Suc j" "0 < j" by simp_all
    then have "n div 16 < 16 ^ j" using 1(2) by (simp add: less_mult_imp_div_less mult.commute)
    then show ?thesis using 1(1) [OF False _ j(2)] False j(1) by (subst hex.simps) simp
  qed (use 1 in \<open>simp add: hex.simps\<close>)
qed

lemma length_pad: "length (pad l z w s) = max w (length s)"
  by (cases s) (auto simp: pad_def Let_def)

lemma length_show_int:
  assumes "\<bar>i\<bar> < 10 ^ k" "0 < k"
  shows "length (show_int i) \<le> Suc k"
proof -
  have "nat \<bar>i\<bar> < 10 ^ k" using assms(1) by (simp add: nat_less_iff)
  then show ?thesis using length_dec [of "nat \<bar>i\<bar>" k] assms(2) by (auto simp: show_int_def)
qed

text \<open>How long the text of an argument can be, whatever the conversion, up to six decimals.\<close>

fun dbl_small :: "dbl \<Rightarrow> bool" where
  "dbl_small (Fin x) \<longleftrightarrow> \<bar>x\<bar> \<le> 2 ^ 64"
| "dbl_small d \<longleftrightarrow> True"

lemma length_show_dbl:
  assumes "dbl_small d" "length (nan_text C) \<le> 4" "p \<le> 6"
  shows "length (show_dbl C p d) \<le> 28"
proof (cases d)
  case (Fin x)
  let ?n = "nat (round_even (\<bar>x\<bar> * 10 ^ p))"
  have "\<bar>x\<bar> * 10 ^ p \<le> 2 ^ 64 * 10 ^ p" using assms(1) Fin by (intro mult_right_mono) simp_all
  then have "\<bar>x\<bar> * 10 ^ p \<le> real_of_int (2 ^ 64 * 10 ^ p)" by (simp only: of_int_mult of_int_power of_int_numeral)
  from round_even_mono [OF this] have "round_even (\<bar>x\<bar> * 10 ^ p) \<le> 2 ^ 64 * 10 ^ p"
    by (simp only: round_even_of_int)
  then have "?n \<le> nat (2 ^ 64 * 10 ^ p)" by (rule nat_mono)
  also have "\<dots> = 2 ^ 64 * 10 ^ p" by (simp only: nat_mult_distrib nat_power_eq nat_numeral zero_le_numeral zero_le_power)
  finally have "?n div 10 ^ p \<le> (2 ^ 64 * 10 ^ p) div 10 ^ p" by (rule div_le_mono)
  also have "\<dots> = 2 ^ 64" by (rule nonzero_mult_div_cancel_right) simp
  finally have "?n div 10 ^ p < 10 ^ 20" by simp
  then have a: "length (dec (?n div 10 ^ p)) \<le> 20" by (intro length_dec) simp_all
  have b: "length (dec (?n mod 10 ^ p)) \<le> p" if "p \<noteq> 0" using that by (intro length_dec) simp_all
  then show ?thesis using a b assms(3) by (auto simp: show_dbl_def Fin Let_def length_pad)
qed (use assms(2) in \<open>auto simp: show_dbl_def\<close>)

end
