(* ===== verification/Transcripts.thy ===== *)
theory Transcripts
  imports PEnclaveRun SdkEnclaves Printf
begin

text \<open>
  What the enclaves of \<open>server/exception\<close> print in a run that succeeds, line by line, and as the
  text that reaches the App: \<open>printf_ocall\<close> formats into a buffer of \<open>BUFSIZ\<close> characters and
  hands the buffer out.  \<open>BUFSIZ\<close> is the C library's, at least 256.
\<close>

section \<open>printf\_ocall's buffer\<close>

text \<open>At most \<open>BUFSIZ - 1\<close> characters; \<open>None\<close> is a call with undefined behaviour.\<close>

fun enclave_text :: "libc \<Rightarrow> nat \<Rightarrow> event \<Rightarrow> string option" where
  "enclave_text C bufsiz (Print fmt args) = map_option (take (bufsiz - 1)) (text_of C fmt args)"
| "enclave_text C bufsiz ev = None"

text \<open>A line that is well-typed and fits any buffer.\<close>

fun line_ok :: "libc \<Rightarrow> event \<Rightarrow> bool" where
  "line_ok C (Print fmt args) \<longleftrightarrow> (\<exists>t. text_of C fmt args = Some t \<and> length t < 256)"
| "line_ok C ev \<longleftrightarrow> False"

lemma line_ok_text:
  "line_ok C (Print fmt args) \<Longrightarrow> 256 \<le> bufsiz \<Longrightarrow> enclave_text C bufsiz (Print fmt args) = text_of C fmt args"
  by auto

section \<open>The lengths of the lines\<close>

lemma length_int_arg:
  "length (show_int (int_arg C (AInt i))) \<le> 11" "length (show_int (sint (w :: u64))) \<le> 20"
proof -
  have "\<bar>sint (word_of_int i :: u32)\<bar> \<le> 2 ^ 31"
    using sint_range_size [of "word_of_int i :: u32"] by (auto simp: word_size)
  then show "length (show_int (int_arg C (AInt i))) \<le> 11"
    using length_show_int [of "sint (word_of_int i :: u32)" 10] by simp
  have "\<bar>sint (w :: u64)\<bar> \<le> 2 ^ 63" using sint_range_size [of w] by (auto simp: word_size)
  then show "length (show_int (sint w)) \<le> 20" using length_show_int [of "sint w" 19] by simp
qed

lemma length_hex_word: "length (hex ds (unat (w :: u64))) \<le> 16"
  using length_hex [of "unat w" 16 ds] unsigned_less [of w, where 'a = nat] by simp

text \<open>The average of a report: a quotient of an unsigned 64-bit integer.\<close>

lemma dbl_small_average: "dbl_small (dbl_div (rnd (real (unat (t :: u64)))) (real n))"
proof (cases "n = 0")
  case False
  let ?a = "rnd (real (unat t))"
  have r: "rnd (2 ^ 64) = 2 ^ 64"
    by (rule rnd_representable) (unfold representable_def, rule exI [of _ 1], rule exI [of _ 64], simp)
  have t: "real (unat t) \<le> 2 ^ 64"
    using unsigned_less [of t, where 'a = nat] of_nat_le_iff [of "unat t" "2 ^ 64", where 'a = real] by simp
  moreover have "0 \<le> real (unat t)" by (rule of_nat_0_le_iff)
  ultimately have a: "0 \<le> ?a" "?a \<le> 2 ^ 64" using rnd_mono_real [OF t] rnd_nonneg [of "real (unat t)"] r by (simp_all only: simp_thms)
  have "?a / real n \<le> ?a / 1" using a False by (intro divide_left_mono) simp_all
  then have "0 \<le> ?a / real n" "?a / real n \<le> 2 ^ 64" using a by simp_all
  then have "0 \<le> rnd (?a / real n)" "rnd (?a / real n) \<le> 2 ^ 64"
    using rnd_mono_real [of "?a / real n" "2 ^ 64"] rnd_nonneg r by simp_all
  then show ?thesis using False by (auto simp: dbl_div_def to_dbl_def)
qed (simp add: dbl_div_def)

lemma length_average:
  "length (nan_text C) \<le> 4 \<Longrightarrow>
    length (show_dbl C 3 (dbl_div (rnd (real (unat (t :: u64)))) (real n))) \<le> 28"
  using length_show_dbl [OF dbl_small_average] by simp

lemma pad_none [simp]: "pad False False 0 s = s"
  by (simp add: pad_def)

lemma nl_char: "nl = [CHR 0x0A]" by (simp add: nl_def)

text \<open>The lines with one number.\<close>

lemma text_append:
  assumes "\<forall>c\<in>set cs. c \<noteq> CHR ''%''"
  shows "text_of C (cs @ fmt) args = map_option ((@) cs) (text_of C fmt args)"
  using assms
proof (induction cs)
  case (Cons c cs)
  then show ?case by (cases "text_of C fmt args") (simp_all only: append_Cons text_of.simps, simp_all)
qed (cases "text_of C fmt args", simp_all)

lemma text_nl [simp]: "text_of C nl [] = Some nl"
  by (simp add: nl_def)

lemma text_conv:
  assumes "c \<notin> set ''0123456789.*l''"
  shows "text_of C (CHR ''%'' # c # fmt) (a # as) =
      Option.bind (show_conv C no_spec c a) (\<lambda>t. map_option ((@) t) (text_of C fmt as))"
  by (simp only: text_of.simps if_True refl spec_other [OF assms])

lemma text_spec_long: "text_spec C p (CHR ''l'' # fmt) as = text_spec C (p\<lparr>fl_long := True\<rparr>) fmt as"
  by simp


lemma text_percent: "text_of C (CHR ''%'' # fmt) as = text_spec C no_spec fmt as"
  by (simp only: text_of.simps if_True refl)

lemma show_conv_simps:
  "show_conv C p (CHR ''d'') (AInt i) =
     (if fl_long p then None else Some (pad (fl_left p) (fl_zero p) (fl_width p) (show_int (int_arg C (AInt i)))))"
  "show_conv C p (CHR ''d'') (ALong i) =
     (if fl_long p then Some (pad (fl_left p) (fl_zero p) (fl_width p) (show_int (int_arg C (ALong i)))) else None)"
  "show_conv C p (CHR ''d'') (AWord w) =
     (if fl_long p then Some (pad (fl_left p) (fl_zero p) (fl_width p) (show_int (sint w))) else None)"
  "show_conv C p (CHR ''x'') (AWord w) =
     (if fl_long p then Some (pad (fl_left p) (fl_zero p) (fl_width p) (hex lower_hex (unat w))) else None)"
  "show_conv C p (CHR ''f'') (ADbl d) =
     Some (pad (fl_left p) (fl_zero p) (fl_width p) (show_dbl C (case fl_prec p of None \<Rightarrow> 6 | Some n \<Rightarrow> n) d))"
  "show_conv C p (CHR ''s'') (AStr s) = (if fl_long p then None else Some (pad (fl_left p) False (fl_width p) s))"
  by (simp_all add: show_conv_def)

lemma spec_ends:
  "text_spec C p (CHR ''d'' # cs) (a # as) = Option.bind (show_conv C p (CHR ''d'') a) (\<lambda>t. map_option ((@) t) (text_of C cs as))"
  "text_spec C p (CHR ''x'' # cs) (a # as) = Option.bind (show_conv C p (CHR ''x'') a) (\<lambda>t. map_option ((@) t) (text_of C cs as))"
  "text_spec C p (CHR ''f'' # cs) (a # as) = Option.bind (show_conv C p (CHR ''f'') a) (\<lambda>t. map_option ((@) t) (text_of C cs as))"
  "text_spec C p (CHR ''s'' # cs) (a # as) = Option.bind (show_conv C p (CHR ''s'') a) (\<lambda>t. map_option ((@) t) (text_of C cs as))"
  by (rule spec_other(1); simp)+

lemma spec_digits:
  "text_spec C p (CHR ''0'' # cs) as = text_spec C (read_digit (CHR ''0'') p) cs as"
  "text_spec C p (CHR ''3'' # cs) as = text_spec C (read_digit (CHR ''3'') p) cs as"
  "text_spec C p (CHR ''6'' # cs) as = text_spec C (read_digit (CHR ''6'') p) cs as"
  "text_spec C p (CHR ''.'' # cs) as = text_spec C (p\<lparr>fl_prec := Some 0\<rparr>) cs as"
  by (rule spec_digit(1); simp)+ simp

lemmas spec_steps = text_percent text_spec_long spec_ends spec_digits no_spec_def

lemma text_convs:
  "text_of C (''%d'' @ fmt) (AInt i # as) =
     map_option ((@) (show_int (int_arg C (AInt i)))) (text_of C fmt as)"
  "text_of C (''%ld'' @ fmt) (ALong i # as) =
     map_option ((@) (show_int (int_arg C (ALong i)))) (text_of C fmt as)"
  "text_of C (''%lld'' @ fmt) (ALong i # as) =
     map_option ((@) (show_int (int_arg C (ALong i)))) (text_of C fmt as)"
  "text_of C (''%lld'' @ fmt) (AWord w # as) =
     map_option ((@) (show_int (sint w))) (text_of C fmt as)"
  "text_of C (''%llx'' @ fmt) (AWord w # as) =
     map_option ((@) (hex lower_hex (unat w))) (text_of C fmt as)"
  "text_of C (''%06ld'' @ fmt) (ALong i # as) =
     map_option ((@) (pad False True 6 (show_int (int_arg C (ALong i))))) (text_of C fmt as)"
  "text_of C (''%.3lf'' @ fmt) (ADbl d # as) =
     map_option ((@) (show_dbl C 3 d)) (text_of C fmt as)"
  "text_of C (''%s'' @ fmt) (AStr s # as) = map_option ((@) s) (text_of C fmt as)"
  by (simp_all only: append.simps spec_steps)
    (simp_all add: show_conv_simps read_digit_def digit_def)

declare text_of.simps(2) [simp del] text_spec.simps [simp del]

text \<open>A line with one conversion, between texts without a percent sign.\<close>

definition plain :: "string \<Rightarrow> bool" where "plain cs \<longleftrightarrow> CHR ''%'' \<notin> set cs"

lemma text_plain: "plain cs \<Longrightarrow> text_of C cs [] = Some cs"
  using text_append [of cs C "[]" "[]"] by (auto simp: plain_def)

lemma one_conv:
  assumes "plain cs" "plain ds" "text_of C (f @ ds) [a] = map_option ((@) t) (text_of C ds [])"
  shows "text_of C (cs @ f @ ds) [a] = Some (cs @ t @ ds)"
proof -
  have "text_of C (cs @ f @ ds) [a] = map_option ((@) cs) (text_of C (f @ ds) [a])"
    using assms(1) by (intro text_append) (auto simp: plain_def)
  then show ?thesis by (simp only: assms(3) text_plain [OF assms(2)] option.map)
qed

lemmas line_d = one_conv [OF _ _ text_convs(1)]
lemmas line_word = one_conv [OF _ _ text_convs(4)]
lemmas line_hex = one_conv [OF _ _ text_convs(5)]
lemmas line_dbl = one_conv [OF _ _ text_convs(7)]

lemma plain_nl: "plain nl" "plain (nl @ nl)"
  by (simp_all add: plain_def nl_def)

text \<open>The lines of the three enclaves.\<close>

lemma line_texts:
  "text_of C (''CR3 = 0x%llx'' @ nl) [AWord w] = Some (''CR3 = 0x'' @ hex lower_hex (unat w) @ nl)"
  "text_of C (''*CR3 = 0x%llx'' @ nl) [AWord w] = Some (''*CR3 = 0x'' @ hex lower_hex (unat w) @ nl)"
  "text_of C (''read OK: %d'' @ nl) [AInt i] = Some (''read OK: '' @ show_int (int_arg C (AInt i)) @ nl)"
  "text_of C (''Write Count = %d'' @ nl) [AInt i] = Some (''Write Count = '' @ show_int (int_arg C (AInt i)) @ nl)"
  "text_of C (''Count = %d'' @ nl) [AInt i] = Some (''Count = '' @ show_int (int_arg C (AInt i)) @ nl)"
  "text_of C (''Total Time = %lld (cycles)'' @ nl) [AWord w] = Some (''Total Time = '' @ show_int (sint w) @ '' (cycles)'' @ nl)"
  "text_of C (''Average time = %.3lf (cycles)'' @ nl @ nl) [ADbl d] =
     Some (''Average time = '' @ show_dbl C 3 d @ '' (cycles)'' @ nl @ nl)"
  "text_of C (''Interrupt Count = %d'' @ nl) [AInt i] = Some (''Interrupt Count = '' @ show_int (int_arg C (AInt i)) @ nl)"
  "text_of C (''#UD Count = %d'' @ nl) [AInt i] = Some (''#UD Count = '' @ show_int (int_arg C (AInt i)) @ nl)"
  "text_of C (''#PF Count = %d'' @ nl @ nl) [AInt i] =
     Some (''#PF Count = '' @ show_int (int_arg C (AInt i)) @ nl @ nl)"
  "text_of C (''N = %d'' @ nl) [AInt i] = Some (''N = '' @ show_int (int_arg C (AInt i)) @ nl)"
  using line_hex [of "''CR3 = 0x''" nl C w] line_hex [of "''*CR3 = 0x''" nl C w]
    line_d [of "''read OK: ''" nl C i] line_d [of "''Write Count = ''" nl C i] line_d [of "''Count = ''" nl C i]
    line_word [of "''Total Time = ''" "'' (cycles)'' @ nl" C w]
    line_dbl [of "''Average time = ''" "'' (cycles)'' @ nl @ nl" C d]
    line_d [of "''Interrupt Count = ''" nl C i] line_d [of "''#UD Count = ''" nl C i]
    line_d [of "''#PF Count = ''" "nl @ nl" C i] line_d [of "''N = ''" nl C i]
  by (simp_all add: plain_def nl_def)

section \<open>The P-Enclave\<close>

text \<open>
  What a run prints: the values of CR3 and of the root entry, the byte read back, the size of
  the buffer, the two times, the repetitions and the final counters.
\<close>

definition report_lines :: "u64 \<Rightarrow> nat \<Rightarrow> event list" where
  "report_lines t n =
     [Print (''Total Time = %lld (cycles)'' @ nl) [AWord t],
      Print (''Average time = %.3lf (cycles)'' @ nl @ nl) [ADbl (dbl_div (rnd (real (unat t))) (real n))]]"

definition setup_lines :: "u64 \<Rightarrow> u64 \<Rightarrow> event list" where
  "setup_lines c rte =
     [Print (''Starting...'' @ nl) [], Print (''Register exception handler OK!'' @ nl) [],
      Print (''CR3 = 0x%llx'' @ nl) [AWord c], Print (''*CR3 = 0x%llx'' @ nl) [AWord rte]]"

definition write_lines :: "nat \<Rightarrow> u64 \<Rightarrow> event list" where
  "write_lines n t = [Print (''write OK'' @ nl) [], Print (''Write Count = %d'' @ nl) [AInt (int n)]] @ report_lines t n"

definition ud_lines :: "u32 \<Rightarrow> u64 \<Rightarrow> event list" where
  "ud_lines k t = [Print (''test #UD OK'' @ nl) [], Print (''Count = %d'' @ nl) [AInt (sint k)]] @ report_lines t (unat k)"

definition count_lines :: "u32 \<Rightarrow> u32 \<Rightarrow> u32 \<Rightarrow> event list" where
  "count_lines i u p =
     [Print (''Interrupt Count = %d'' @ nl) [AInt (sint i)], Print (''#UD Count = %d'' @ nl) [AInt (sint u)],
      Print (''#PF Count = %d'' @ nl @ nl) [AInt (sint p)]]"

definition p_transcript :: "u64 \<Rightarrow> u64 \<Rightarrow> u8 \<Rightarrow> nat \<Rightarrow> u64 \<Rightarrow> u32 \<Rightarrow> u64 \<Rightarrow> penclave \<Rightarrow> event list" where
  "p_transcript c rte b n t1 k t2 s =
     setup_lines c rte @ [Print (''read OK: %d'' @ nl) [AInt (uint b)]] @ write_lines n t1 @ ud_lines k t2 @
     count_lines (g_intr_count s) (g_ud_count s) (g_pf_count s)"

text \<open>The lines printed so far and the number of readings of the clock.\<close>

definition p_log :: "penclave \<Rightarrow> event list \<times> nat" where "p_log s = (out s, rdtscs s)"

lemma handler_out:
  assumes "exception_handler tf s = Some (Inr (tf', s'))"
  shows "p_log s' = p_log s"
proof (cases "ucast (tf_vector tf) = (0xE :: u32)")
  case True
  then show ?thesis
  proof (cases rule: page_fault_cases [of _ s])
    case (2 t)
    then have "s' = t" using assms by simp
    then show ?thesis using more_fields(5,9) [OF 2(5)] by (simp add: p_log_def)
  qed (use assms in simp)
next
  case False
  then show ?thesis using assms by (auto simp: exception_handler_def Let_def p_log_def split: if_splits)
qed

lemma raise_out: "raise E v tf s = Some (Inr (tf', s')) \<Longrightarrow> p_log s' = p_log s"
proof -
  have "call_fun h = exception_handler" for h by (cases h) simp
  moreover assume "raise E v tf s = Some (Inr (tf', s'))"
  ultimately show ?thesis
    by (auto simp: raise_def handle_frame_def common_exception_handler_def map_option_case
      split: option.splits dest: handler_out)
qed

lemma store_out:
  fixes s :: penclave
  shows "mmu_store8 s v b = Done s' \<Longrightarrow> p_log s' = p_log s" "mmu_store8 s v b = Fault s' \<Longrightarrow> p_log s' = p_log s"
  by (auto simp: p_log_def mmu_store8_def split: option.splits if_splits prod.splits bool.splits)

lemma write_pages_out: "write_pages E n b s = Some (Inr s') \<Longrightarrow> p_log s' = p_log s"
  unfolding write_pages_def
proof (rule store_each_keeps [where proj = p_log])
  fix t v t1 t2
  assume f: "mmu_store8 t v b = Fault t1" "serve_fault E t1 = Some (Inr t2)"
  from f(2) have "p_log t2 = p_log t1"
    by (auto simp: serve_fault_def and_then_def split: option.splits sum.splits if_splits dest: raise_out)
  then show "p_log t2 = p_log t" using store_out(2) [OF f(1)] by simp
qed (auto dest: store_out)

lemma ud2_out: "ud2_loop (raise E 6) tf_rip f n s = Some (Inr s') \<Longrightarrow> p_log s' = p_log s"
  by (rule ud2_loop_keeps [where proj = p_log]) (auto dest: raise_out)

text \<open>The clock as 64 bits, and the cycles between a reading and the next less an overhead.\<close>

definition p_clock :: "env \<Rightarrow> nat \<Rightarrow> u64" where
  "p_clock E i = push_bit 32 (ucast (fst (tsc E i))) OR ucast (snd (tsc E i))"

definition timed :: "(nat \<Rightarrow> u64) \<Rightarrow> nat \<Rightarrow> u64 \<Rightarrow> u64" where
  "timed clock i overhead = clock (Suc i) - clock i - overhead"

lemma report_out: "p_log (report t n s) = (out s @ report_lines t n, rdtscs s)"
  by (simp add: report_def report_lines_def printf_ocall_def p_log_def)

lemma printf_p_log: "p_log (printf_ocall fmt args s) = (out s @ [Print fmt args], rdtscs s)"
  by (simp add: printf_ocall_def p_log_def)

lemma protect_buffer_out:
  assumes "protect_buffer E n s = Some (Inr s')"
  shows "\<exists>b. p_log s' = (out s @ [Print (''read OK: %d'' @ nl) [AInt (uint (b :: u8))]], rdtscs s)"
proof -
  obtain t and b :: u8 where t: "mprotect s (test_buf E) (of_nat n) PTE_P = Some (Ret (0, t))"
    "s' = printf_ocall (''read OK: %d'' @ nl) [AInt (uint b)] t"
    using assms by (auto simp: protect_buffer_def split: option.splits res.splits if_splits)
  then show ?thesis using more_fields(5,9) [OF mprotect_fields(4) [OF t(1)]] by (auto simp: printf_p_log)
qed

lemma rdtscp_eq: "rdtscp E s = (p_clock E (rdtscs s), s\<lparr>rdtscs := rdtscs s + 1\<rparr>)"
  by (simp add: rdtscp_def p_clock_def case_prod_unfold Let_def)

lemma page_fault_test_out:
  assumes "page_fault_test E n s = Some (Inr s')"
  shows "p_log s' = (out s @ write_lines (n div 4096) (timed (p_clock E) (rdtscs s) 60), rdtscs s + 2)"
proof -
  let ?s0 = "s\<lparr>rdtscs := rdtscs s + 1\<rparr>"
  obtain s1 where s1: "write_pages E n 0 ?s0 = Some (Inr s1)"
    "s' = report (p_clock E (rdtscs s1) - p_clock E (rdtscs s) - 60) (n div 4096)
       (printf_ocall (''Write Count = %d'' @ nl) [AInt (int (n div 4096))]
         (printf_ocall (''write OK'' @ nl) [] (s1\<lparr>rdtscs := rdtscs s1 + 1\<rparr>)))"
    using assms by (auto simp: page_fault_test_def rdtscp_eq and_then_Inr Let_def)
  have "out s1 = out s" "rdtscs s1 = rdtscs s + 1"
    using write_pages_out [OF s1(1)] by (simp_all add: p_log_def)
  then show ?thesis by (simp add: s1(2) report_out write_lines_def printf_ocall_def timed_def)
qed

lemma ud2_test_out:
  assumes "ud2_test E k s = Some (Inr s')"
  shows "p_log s' = (out s @ ud_lines k (timed (p_clock E) (rdtscs s) 60), rdtscs s + 2)"
proof -
  let ?s0 = "s\<lparr>rdtscs := rdtscs s + 1\<rparr>"
  obtain s1 where s1: "ud2_loop (raise E 6) tf_rip (ud_frame E) (unat k) ?s0 = Some (Inr s1)"
    "s' = report (p_clock E (rdtscs s1) - p_clock E (rdtscs s) - 60) (unat k)
       (printf_ocall (''Count = %d'' @ nl) [AInt (sint k)]
         (printf_ocall (''test #UD OK'' @ nl) [] (s1\<lparr>rdtscs := rdtscs s1 + 1\<rparr>)))"
    using assms by (auto simp: ud2_test_def rdtscp_eq and_then_Inr Let_def)
  have "out s1 = out s" "rdtscs s1 = rdtscs s + 1"
    using ud2_out [OF s1(1)] by (simp_all add: p_log_def)
  then show ?thesis by (simp add: s1(2) report_out ud_lines_def printf_ocall_def timed_def)
qed

lemma setup_out:
  "p_log (setup_handler E s) = (out s @ setup_lines (cr3 s) (deref s (phys_to_virt (cr3 s))), rdtscs s)"
  by (simp add: setup_handler_def printf_ocall_def setup_lines_def Let_def case_prod_unfold cache_cr3_def
    read_cr3_def deref_def p_log_def)

lemma ecall_transcript:
  assumes "ecall_exception_sized E n k s = Some (Inr (st, s'))"
  shows "\<exists>b. out s' =
    out s @ p_transcript (cr3 s) (deref s (phys_to_virt (cr3 s))) b (n div 4096)
      (timed (p_clock E) (rdtscs s) 60) k (timed (p_clock E) (rdtscs s + 2) 60) s'"
proof -
  obtain s1 s2 s3 s4 where r: "write_pages E n 0 (setup_handler E s) = Some (Inr s1)"
    "protect_buffer E n s1 = Some (Inr s2)" "page_fault_test E n s2 = Some (Inr s3)"
    "ud2_test E k s3 = Some (Inr s4)" "s' = print_counts s4"
    using assms by (auto simp: ecall_exception_sized_def and_then_Inr)
  obtain b where b: "p_log s2 = (out s1 @ [Print (''read OK: %d'' @ nl) [AInt (uint (b :: u8))]], rdtscs s1)"
    using protect_buffer_out [OF r(2)] by blast
  note l = p_log_def [of s1] p_log_def [of s2] p_log_def [of s3] p_log_def [of s4] p_log_def [of "setup_handler E s"]
  have "rdtscs s1 = rdtscs s" "rdtscs s2 = rdtscs s" "rdtscs s3 = rdtscs s + 2"
    using setup_out [of E s] write_pages_out [OF r(1)] b page_fault_test_out [OF r(3)] by (simp_all add: l)
  moreover have "out s' = out s4 @ count_lines (g_intr_count s') (g_ud_count s') (g_pf_count s')"
    by (simp add: r(5) print_counts_def count_lines_def printf_ocall_def)
  ultimately have "out s' = out s @ p_transcript (cr3 s) (deref s (phys_to_virt (cr3 s))) b (n div 4096)
      (timed (p_clock E) (rdtscs s) 60) k (timed (p_clock E) (rdtscs s + 2) 60) s'"
    using setup_out [of E s] write_pages_out [OF r(1)] b page_fault_test_out [OF r(3)] ud2_test_out [OF r(4)]
    by (simp add: p_transcript_def l)
  then show ?thesis by blast
qed

section \<open>The GU-Enclave and the SGX enclave\<close>

definition gu_transcript :: "u8 \<Rightarrow> nat \<Rightarrow> u64 \<Rightarrow> u32 \<Rightarrow> u64 \<Rightarrow> u32 \<Rightarrow> event list" where
  "gu_transcript b n t1 k t2 u =
     [Print (''Starting...'' @ nl) [], Print (''Register exception handler OK!'' @ nl) [],
      Print (''read OK: %d'' @ nl) [AInt (uint b)]] @ write_lines n t1 @ ud_lines k t2 @
     [Print (''#UD Count = %d'' @ nl) [AInt (sint u)]]"

lemma sdk_report_out: "sdk_out (sdk_report t n s) = sdk_out s @ report_lines t n"
  by (simp add: sdk_report_def report_lines_def sdk_printf_def)

lemma sdk_trap_out:
  assumes "h \<in> {gu_exception_handler, sgx_exception_handler}" "registered s"
    and "trap_run (sgx_dispatch h) ctx_rip info s = Some (Inr (r, s'))"
  shows "sdk_out s' = sdk_out s \<and> sdk_rdtscs s' = sdk_rdtscs s \<and> registered s'"
proof (cases "exception_vector info = 6")
  case True
  have "h = gu_exception_handler" using assms(1) by (auto simp: handlers_agree)
  then show ?thesis
    using assms(2,3) True by (subst (asm) trap_run.simps) (auto simp: sgx_dispatch_def gu_exception_handler_def)
next
  case False
  then show ?thesis using unexpected_exception_livelock [OF False assms(2,1)] assms(3) by simp
qed

lemma sdk_ud2_loop_out:
  assumes "h \<in> {gu_exception_handler, sgx_exception_handler}"
  shows "registered s \<Longrightarrow> ud2_loop (sgx_dispatch h) ctx_rip info n s = Some (Inr s') \<Longrightarrow>
    sdk_out s' = sdk_out s \<and> sdk_rdtscs s' = sdk_rdtscs s"
proof (induction n arbitrary: s)
  case (Suc n)
  then obtain r s1 where "trap_run (sgx_dispatch h) ctx_rip info s = Some (Inr (r, s1))"
    "ud2_loop (sgx_dispatch h) ctx_rip info n s1 = Some (Inr s')"
    by (auto simp: and_then_Inr split: if_splits)
  then show ?case using sdk_trap_out [OF assms Suc.prems(1)] Suc.IH [of s1] by simp
qed simp

lemma sdk_ud2_test_out:
  assumes "h \<in> {gu_exception_handler, sgx_exception_handler}" "registered s"
    and "sdk_ud2_test h E ov k s = Some (Inr s')"
  shows "sdk_out s' = sdk_out s @ ud_lines k (timed (sdk_tsc E) (sdk_rdtscs s) ov)"
proof -
  obtain s1 where s1: "ud2_loop (sgx_dispatch h) ctx_rip (sdk_ud_info E) (unat k) (snd (sdk_rdtscp E s)) = Some (Inr s1)"
    "s' = sdk_report (fst (sdk_rdtscp E s1) - fst (sdk_rdtscp E s) - ov) (unat k)
       (sdk_printf (''Count = %d'' @ nl) [AInt (sint k)] (sdk_printf (''test #UD OK'' @ nl) [] (snd (sdk_rdtscp E s1))))"
    using assms(3) by (auto simp: sdk_ud2_test_def and_then_Inr Let_def case_prod_unfold)
  have "registered (snd (sdk_rdtscp E s))" using assms(2) by (simp add: sdk_rdtscp_def)
  from sdk_ud2_loop_out [OF assms(1) this s1(1)]
  have "sdk_out s1 = sdk_out s" "sdk_rdtscs s1 = sdk_rdtscs s + 1" by (simp_all add: sdk_rdtscp_def)
  then show ?thesis by (simp add: s1(2) sdk_report_out sdk_printf_def sdk_rdtscp_def ud_lines_def timed_def)
qed

lemma gu_protect_test_out:
  assumes "gu_protect_test M E n s = Some (Inr s')"
  shows "\<exists>b. sdk_out s' = sdk_out s @ [Print (''read OK: %d'' @ nl) [AInt (uint (b :: u8))]] @
      write_lines (n div 4096) (timed (sdk_tsc E) (sdk_rdtscs s) 60) \<and>
    sdk_rdtscs s' = sdk_rdtscs s + 2 \<and> registered s' = registered s"
proof -
  have w: "sdk_out t' = sdk_out t \<and> sdk_rdtscs t' = sdk_rdtscs t \<and> registered t' = registered t"
    if "gu_write_buf M E n b t = Some (Inr t')" for b t t'
    using that by (auto simp: gu_write_buf_def)
  obtain s1 where s1: "gu_write_buf M E n 0 s = Some (Inr s1)"
    using assms unfolding gu_protect_test_def and_then_Inr by (elim exE conjE) (rule that)
  obtain ret m where m: "gu_mprotect M (sdk_test_buf E) (of_nat n) (FLAG_R OR FLAG_U) s1 = (ret, m)" by fastforce
  then have f: "sdk_out m = sdk_out s1" "sdk_rdtscs m = sdk_rdtscs s1" "registered m = registered s1"
    by (auto simp: gu_mprotect_def case_prod_unfold Let_def)
  have r: "ret = 0" using assms by (simp add: gu_protect_test_def s1 m split: if_splits)
  then obtain x where x: "load8 M (monitor m) (sdk_test_buf E) = Some x"
    using assms by (auto simp: gu_protect_test_def s1 m split: option.splits)
  let ?r = "sdk_printf (''read OK: %d'' @ nl) [AInt (uint x)] m"
  define t where "t = ?r\<lparr>sdk_rdtscs := sdk_rdtscs s + 1\<rparr>"
  have t: "sdk_out t = sdk_out s @ [Print (''read OK: %d'' @ nl) [AInt (uint x)]]"
    "sdk_rdtscs t = sdk_rdtscs s + 1" "registered t = registered s" "sdk_rdtscs ?r = sdk_rdtscs s"
    using w [OF s1] f by (simp_all add: t_def sdk_printf_def)
  obtain s4 where s4: "gu_write_buf M E n 1 t = Some (Inr s4)"
    "s' = sdk_report (sdk_tsc E (sdk_rdtscs s4) - sdk_tsc E (sdk_rdtscs s) - 60) (n div 4096)
       (sdk_printf (''Write Count = %d'' @ nl) [AInt (int (n div 4096))]
         (sdk_printf (''write OK'' @ nl) [] (s4\<lparr>sdk_rdtscs := sdk_rdtscs s4 + 1\<rparr>)))"
    using assms
    by (simp only: gu_protect_test_def s1 m r x and_then_simps Let_def prod.case option.case if_False simp_thms
      and_then_Inr sdk_rdtscp_def option.inject sum.inject t(4) t_def [symmetric]) blast
  show ?thesis
    using w [OF s4(1)] t
    by (intro exI [of _ x]) (simp add: s4(2) sdk_report_out sdk_printf_def write_lines_def timed_def sdk_report_def
      report_lines_def)
qed

lemma gu_ecall_transcript:
  assumes "gu_ecall_exception M E n k s = Some (Inr (SGX_SUCCESS, s'))"
  shows "\<exists>b. sdk_out s' = sdk_out s @ gu_transcript b (n div 4096) (timed (sdk_tsc E) (sdk_rdtscs s) 60) k
    (timed (sdk_tsc E) (sdk_rdtscs s + 2) 60) (sdk_ud_count s')"
proof -
  define s0 where "s0 = sdk_printf (''Register exception handler OK!'' @ nl) []
    ((sdk_printf (''Starting...'' @ nl) [] s)\<lparr>registered := True\<rparr>)"
  obtain s1 s2 where r: "gu_protect_test M E n s0 = Some (Inr s1)"
    "sdk_ud2_test gu_exception_handler E 60 k s1 = Some (Inr s2)"
    "s' = (sdk_printf (''#UD Count = %d'' @ nl) [AInt (sint (sdk_ud_count s2))] s2)\<lparr>registered := False\<rparr>"
    using assms by (auto simp: gu_ecall_exception_def and_then_Inr Let_def s0_def split: if_splits)
  have s0: "registered s0" "sdk_rdtscs s0 = sdk_rdtscs s" by (simp_all add: s0_def sdk_printf_def)
  obtain b where p: "sdk_out s1 = sdk_out s0 @ [Print (''read OK: %d'' @ nl) [AInt (uint (b :: u8))]] @
      write_lines (n div 4096) (timed (sdk_tsc E) (sdk_rdtscs s) 60)" "sdk_rdtscs s1 = sdk_rdtscs s + 2" "registered s1"
    using gu_protect_test_out [OF r(1)] s0 by auto
  have t2: "sdk_out s2 = sdk_out s1 @ ud_lines k (timed (sdk_tsc E) (sdk_rdtscs s + 2) 60)"
    using sdk_ud2_test_out [OF _ p(3) r(2)] p(2) by auto
  have "sdk_out s' = sdk_out s2 @ [Print (''#UD Count = %d'' @ nl) [AInt (sint (sdk_ud_count s'))]]"
    by (simp add: r(3) sdk_printf_def)
  moreover have "sdk_out s0 = sdk_out s @ [Print (''Starting...'' @ nl) [], Print (''Register exception handler OK!'' @ nl) []]"
    by (simp add: s0_def sdk_printf_def)
  ultimately show ?thesis
    using p(1) t2 by (intro exI [of _ b]) (simp add: gu_transcript_def)
qed

lemma sgx_ecall_transcript:
  assumes "sgx_ecall_exception E k s = Some (Inr (SGX_SUCCESS, s'))"
  shows "sdk_out s' = sdk_out s @ ud_lines k (timed (sdk_tsc E) (sdk_rdtscs s) 12432)"
proof -
  obtain s1 where "sdk_ud2_test sgx_exception_handler E 12432 k (s\<lparr>registered := True\<rparr>) = Some (Inr s1)"
    "s' = s1\<lparr>registered := False\<rparr>"
    using assms by (auto simp: sgx_ecall_exception_def and_then_Inr split: if_splits)
  then show ?thesis using sdk_ud2_test_out [of sgx_exception_handler "s\<lparr>registered := True\<rparr>" E 12432 k s1] by auto
qed

section \<open>Every line fits\<close>

lemma line_oks:
  assumes "length (nan_text C) \<le> 4"
  shows "\<forall>e\<in>set (report_lines t n). line_ok C e" "\<forall>e\<in>set (setup_lines c rte). line_ok C e"
    and "\<forall>e\<in>set (count_lines i u p). line_ok C e"
    and "line_ok C (Print (''read OK: %d'' @ nl) [AInt j])"
    and "line_ok C (Print (''Write Count = %d'' @ nl) [AInt j])" "line_ok C (Print (''Count = %d'' @ nl) [AInt j])"
    and "line_ok C (Print (''write OK'' @ nl) [])" "line_ok C (Print (''test #UD OK'' @ nl) [])"
    and "line_ok C (Print (''Register exception handler OK!'' @ nl) [])" "line_ok C (Print (''Starting...'' @ nl) [])"
proof -
  note [simp] = line_texts [unfolded append.simps]
  have int: "length (show_int (int_arg C (AInt i))) \<le> 11" for i by (rule length_int_arg)
  show "\<forall>e\<in>set (report_lines t n). line_ok C e"
    using length_int_arg(2) [of t] length_average [OF assms, of t n] by (simp add: report_lines_def) (simp add: nl_def)
  show "\<forall>e\<in>set (setup_lines c rte). line_ok C e"
    using length_hex_word [of lower_hex c] length_hex_word [of lower_hex rte]
    by (simp add: setup_lines_def text_plain plain_def plain_nl [unfolded plain_def]) (simp add: nl_def)
  show "\<forall>e\<in>set (count_lines i u p). line_ok C e"
    using int [of "sint i"] int [of "sint u"] int [of "sint p"] by (simp add: count_lines_def) (simp add: nl_def)
  show "line_ok C (Print (''read OK: %d'' @ nl) [AInt j])" "line_ok C (Print (''Write Count = %d'' @ nl) [AInt j])"
    "line_ok C (Print (''Count = %d'' @ nl) [AInt j])"
    using int [of j] by simp_all (simp_all add: nl_def)
qed (simp_all add: text_plain plain_def nl_def)

lemma p_transcript_ok:
  assumes "length (nan_text C) \<le> 4"
  shows "\<forall>e\<in>set (p_transcript c rte b n t1 k t2 s). line_ok C e"
  unfolding p_transcript_def write_lines_def ud_lines_def set_append ball_Un
  using line_oks [OF assms] by simp

lemma sdk_transcripts_ok:
  assumes "length (nan_text C) \<le> 4"
  shows "\<forall>e\<in>set (gu_transcript b n t1 k t2 u). line_ok C e" "\<forall>e\<in>set (ud_lines k t). line_ok C e"
proof -
  have "line_ok C (Print (''#UD Count = %d'' @ nl) [AInt (sint u)])"
    using line_oks(3) [OF assms, of 0 u 0] by (simp only: count_lines_def list.set ball_simps)
  then show "\<forall>e\<in>set (gu_transcript b n t1 k t2 u). line_ok C e" "\<forall>e\<in>set (ud_lines k t). line_ok C e"
    unfolding gu_transcript_def write_lines_def ud_lines_def set_append ball_Un
    using line_oks [OF assms] by simp_all
qed

text \<open>Every line reaches the App whole.\<close>

definition delivered :: "libc \<Rightarrow> nat \<Rightarrow> event list \<Rightarrow> bool" where
  "delivered C bufsiz ev \<longleftrightarrow>
     (\<forall>e\<in>set ev. \<exists>fmt args t. e = Print fmt args \<and> text_of C fmt args = Some t \<and> enclave_text C bufsiz e = Some t)"

lemma line_ok_delivered: "256 \<le> bufsiz \<Longrightarrow> \<forall>e\<in>set ev. line_ok C e \<Longrightarrow> delivered C bufsiz ev"
  unfolding delivered_def
proof
  fix e assume b: "256 \<le> bufsiz" and "\<forall>e\<in>set ev. line_ok C e" and "e \<in> set ev"
  then have "line_ok C e" by blast
  then show "\<exists>fmt args t. e = Print fmt args \<and> text_of C fmt args = Some t \<and> enclave_text C bufsiz e = Some t"
    using b by (cases e) auto
qed

text \<open>C18: with the C library's guarantee that \<open>BUFSIZ\<close> is at least 256, no output of a run of any of
  the three enclaves that succeeds is cut off: every line it prints (16 in the P-Enclave, 12 in
  the GU-Enclave, 4 in the SGX enclave) is well-typed and fits the buffer of \<open>printf_ocall\<close>,
  whatever the times and averages.\<close>

theorem enclave_output_delivered:
  assumes "256 \<le> bufsiz" "length (nan_text C) \<le> 4"
  shows "(ecall_exception_sized E n k s = Some (Inr (SGX_SUCCESS, s')) \<longrightarrow>
      (\<exists>ev. out s' = out s @ ev \<and> length ev = 16 \<and> delivered C bufsiz ev)) \<and>
    (gu_ecall_exception M G n k g = Some (Inr (SGX_SUCCESS, g')) \<longrightarrow>
      (\<exists>ev. sdk_out g' = sdk_out g @ ev \<and> length ev = 12 \<and> delivered C bufsiz ev)) \<and>
    (sgx_ecall_exception G k g = Some (Inr (SGX_SUCCESS, g')) \<longrightarrow>
      (\<exists>ev. sdk_out g' = sdk_out g @ ev \<and> length ev = 4 \<and> delivered C bufsiz ev))"
proof (intro conjI impI)
  assume "ecall_exception_sized E n k s = Some (Inr (SGX_SUCCESS, s'))"
  from ecall_transcript [OF this] show "\<exists>ev. out s' = out s @ ev \<and> length ev = 16 \<and> delivered C bufsiz ev"
    using line_ok_delivered [OF assms(1) p_transcript_ok [OF assms(2)]]
    by (fastforce simp: p_transcript_def setup_lines_def write_lines_def ud_lines_def count_lines_def report_lines_def)
next
  assume "gu_ecall_exception M G n k g = Some (Inr (SGX_SUCCESS, g'))"
  from gu_ecall_transcript [OF this] show "\<exists>ev. sdk_out g' = sdk_out g @ ev \<and> length ev = 12 \<and> delivered C bufsiz ev"
    using line_ok_delivered [OF assms(1) sdk_transcripts_ok(1) [OF assms(2)]]
    by (fastforce simp: gu_transcript_def write_lines_def ud_lines_def report_lines_def)
next
  assume "sgx_ecall_exception G k g = Some (Inr (SGX_SUCCESS, g'))"
  from sgx_ecall_transcript [OF this] show "\<exists>ev. sdk_out g' = sdk_out g @ ev \<and> length ev = 4 \<and> delivered C bufsiz ev"
    using line_ok_delivered [OF assms(1) sdk_transcripts_ok(2) [OF assms(2)]]
    by (fastforce simp: ud_lines_def report_lines_def)
qed

definition demo_libc :: libc where
  "demo_libc = \<lparr>status_num = \<lambda>_. 1, nan_text = ''-nan''\<rparr>"

theorem enclave_output_delivered_witness:
  "\<exists>s' g' ev. ecall_exception_sized demo_env (4096 * 2) 5 demo_penclave = Some (Inr (SGX_SUCCESS, s')) \<and>
     out s' = ev \<and> length ev = 16 \<and> delivered demo_libc 1024 ev \<and>
     sgx_ecall_exception demo_sdk_env 7 (demo_sdk_state ()) = Some (Inr (SGX_SUCCESS, g')) \<and>
     length (sdk_out g') = 4 \<and> delivered demo_libc 1024 (sdk_out g')"
proof -
  obtain s' where s': "ecall_exception_sized demo_env (4096 * 2) 5 demo_penclave = Some (Inr (SGX_SUCCESS, s'))"
    using ecall_exception_run [OF demo_link demo_space demo_buffer, of 5] by blast
  obtain g' where g': "sgx_ecall_exception demo_sdk_env 7 (demo_sdk_state ()) = Some (Inr (SGX_SUCCESS, g'))"
    using sdk_ud2_test_ok [of sgx_exception_handler demo_sdk_env "(demo_sdk_state ())\<lparr>registered := True\<rparr>" 12432 7]
    by (auto simp: sgx_ecall_exception_def demo_sdk_env_def)
  have "out demo_penclave = []" "sdk_out (demo_sdk_state ()) = []"
    by (simp_all add: demo_sdk_state_def)
  moreover have "(256 :: nat) \<le> 1024" "length (nan_text demo_libc) \<le> 4" by (simp_all add: demo_libc_def)
  from enclave_output_delivered [OF this, of demo_env "4096 * 2" 5 demo_penclave s' undefined demo_sdk_env
      "demo_sdk_state ()" g']
    enclave_output_delivered [OF this, of demo_env 0 7 demo_penclave s' undefined demo_sdk_env "demo_sdk_state ()" g']
  have "\<exists>ev. out s' = out demo_penclave @ ev \<and> length ev = 16 \<and> delivered demo_libc 1024 ev"
    "\<exists>ev. sdk_out g' = sdk_out (demo_sdk_state ()) @ ev \<and> length ev = 4 \<and> delivered demo_libc 1024 ev"
    using s' g' by blast+
  ultimately show ?thesis using s' g' by auto
qed

end
