(* ===== verification/PEnclaveMemory.thy ===== *)
theory PEnclaveMemory
  imports Transcripts
begin

text \<open>
  What a run of the P-Enclave does to memory, byte by byte: the faults, the handler and
  \<open>mprotect\<close> change the entries of the buffer's pages, and the loops write the first byte of
  every page.  The memory meant is that of the paging model: tables and pages reached through
  them.  The descriptor table, the globals of the enclave and its stack are components of their
  own, so the lemmas about "every other byte" do not speak of them; the property at the end
  speaks of the buffer only.
\<close>

section \<open>The layout of the address space\<close>

text \<open>
  Where the entries are (\<open>slot\<close>) and which frames they name (\<open>frame\<close>) is the same throughout
  a run; physical memory outside the entries of the pages \<open>P\<close> is data.
\<close>

definition layout :: "(u64 \<Rightarrow> u64) \<Rightarrow> (u64 \<Rightarrow> u64) \<Rightarrow> u64 \<Rightarrow> u64 list \<Rightarrow> 'a mmu_scheme \<Rightarrow> bool" where
  "layout slot frame c D s \<longleftrightarrow>
     (\<forall>u\<in>set D. slot0 (pmem s) c u = slot u \<and> PTE_ADDR (leaf (pmem s) c u) = frame u)"

definition data_of :: "(u64 \<Rightarrow> u64) \<Rightarrow> u64 set \<Rightarrow> u64 set" where
  "data_of slot P = {p. \<forall>u\<in>P. 8 \<le> unat (p - slot u)}"

definition p_inv ::
  "env \<Rightarrow> u64 \<Rightarrow> u64 list \<Rightarrow> u64 set \<Rightarrow> (u64 \<Rightarrow> u64) \<Rightarrow> (u64 \<Rightarrow> u64) \<Rightarrow> penclave \<Rightarrow> bool" where
  "p_inv E c D P slot frame s \<longleftrightarrow>
     P \<subseteq> set D \<and> space_ok c D s \<and> handler_ready E s \<and> layout slot frame c D s"

lemma store_writable_memory:
  fixes s :: "'a mmu_scheme"
  assumes "space_ok c D s" "v \<in> set D" "mmu_store8 s v b = Done s'"
  shows "pmem s' = (pmem s)(PTE_ADDR (leaf (pmem s) c v) := b)"
    and "u \<in> set D \<Longrightarrow> slot0 (pmem s') c u = slot0 (pmem s) c u \<and> leaf (pmem s') c u = leaf (pmem s) c u"
proof -
  have s: "pt_ok (pmem s) c D" "frames_ok (pmem s) c D" using assms(1) by (simp_all add: space_ok_def)
  show m: "pmem s' = (pmem s)(PTE_ADDR (leaf (pmem s) c v) := b)"
    using assms(3) mmu_lookup_page [OF assms(1,2)] page_offset_aligned [OF pt_okD(2) [OF s(1) assms(2)]]
    by (auto simp: mmu_store8_def split: if_splits bool.splits)
  assume u: "u \<in> set D"
  note frame_write_reads [OF s assms(2) u]
  from slots_cong(4,6) [OF this this this this]
  show "slot0 (pmem s') c u = slot0 (pmem s) c u \<and> leaf (pmem s') c u = leaf (pmem s) c u"
    unfolding m by simp
qed

lemma set_leaf_memory:
  assumes "space_ok c D s" "v \<in> set D" "u \<in> set D"
  shows "slot0 (pmem (set_leaf fl v s)) c u = slot0 (pmem s) c u"
    and "leaf (pmem (set_leaf fl v s)) c u = (if u = v then PTE_ADDR (leaf (pmem s) c v) OR fl else leaf (pmem s) c u)"
    and "8 \<le> unat (p - slot0 (pmem s) c v) \<Longrightarrow> pmem (set_leaf fl v s) p = pmem s p"
proof -
  have s: "g_cached_cr3 s = c" "pt_ok (pmem s) c D" using assms(1) by (simp_all add: space_ok_def)
  note m = pmem_set_leaf [of fl v s, unfolded s(1)]
  show "slot0 (pmem (set_leaf fl v s)) c u = slot0 (pmem s) c u"
    unfolding m by (rule write_leaf_slots(4) [OF s(2) assms(2,3)])
  show "leaf (pmem (set_leaf fl v s)) c u = (if u = v then PTE_ADDR (leaf (pmem s) c v) OR fl else leaf (pmem s) c u)"
    unfolding m by (rule write_leaf [OF s(2) assms(2,3)])
  show "8 \<le> unat (p - slot0 (pmem s) c v) \<Longrightarrow> pmem (set_leaf fl v s) p = pmem s p"
    unfolding m by (rule write64_other)
qed

lemma set_leaf_layout:
  assumes "space_ok c D s" "v \<in> set D" "hw_addr fl = 0"
  shows "layout slot frame c D (set_leaf fl v s) = layout slot frame c D s"
  using set_leaf_memory(1,2) [OF assms(1,2), of _ fl] PTE_ADDR_flags [OF assms(3)]
  by (auto simp: layout_def)

lemma layout_cong: "pmem s' = pmem s \<Longrightarrow> layout slot frame c D s' = layout slot frame c D s"
  by (simp add: layout_def)

interpretation p_memory:
  memory_service mmu_store8 "serve_fault E" "p_inv E c D P slot frame" P
    "page_writable c" g_pf_count fault_others pmem "\<lambda>s. leaf (pmem s) c" "data_of slot P" frame
    "\<lambda>u. frame u OR (PTE_P OR PTE_W)"
  for E c D P slot frame
proof (unfold_locales, goal_cases)
  case (1 s v b)
  then have i: "space_ok c D s \<and> handler_ready E s" "v \<in> set D" "P \<subseteq> set D" "layout slot frame c D s"
    by (auto simp: p_inv_def)
  obtain s' where s': "mmu_store8 s v b = Done s'" "space_ok c D s'" "handler_ready E s'" "g_pf_count s' = g_pf_count s"
    "fault_others s' = fault_others s" "\<forall>u\<in>set D. page_writable c s' u = page_writable c s u"
    using p_faults.store_done [OF i(1,2) 1(3), of b] by blast
  have "layout slot frame c D s'"
    using i(4) store_writable_memory(2) [OF conjunct1 [OF i(1)] i(2) s'(1)] by (simp add: layout_def)
  then show ?case using s' i(3) by (auto simp: p_inv_def)
next
  case (2 s v b)
  then have i: "space_ok c D s \<and> handler_ready E s" "v \<in> set D" "P \<subseteq> set D" "layout slot frame c D s"
    by (auto simp: p_inv_def)
  let ?s1 = "s\<lparr>cr2 := v, tlb := (tlb s)(vpn v := None)\<rparr>"
  obtain s1 s2 where s2: "mmu_store8 s v b = Fault s1" "serve_fault E s1 = Some (Inr s2)" "space_ok c D s2"
    "handler_ready E s2" "g_pf_count s2 = g_pf_count s + 1" "fault_others s2 = fault_others s"
    "\<forall>u\<in>set D. page_writable c s2 u = (page_writable c s u \<or> u = v)"
    using p_faults.store_served [OF i(1,2) 2(3), of b] by blast
  have s1: "s1 = ?s1" using store_faults [of c D s v b] i(1,2) 2(3) s2(1) by simp
  have ok: "space_ok c D ?s1" "handler_ready E ?s1"
    using i(1) space_ok_fault by (auto simp: handler_ready_def)
  let ?t = "?s1\<lparr>g_pf_count := g_pf_count ?s1 + 1\<rparr>"
  have "s2 = set_leaf (PTE_P OR PTE_W) v ?t"
    using serve_fault_page [OF ok(1) i(2) ok(2)] s2(2) unfolding s1 by simp
  moreover have "space_ok c D ?t" using ok(1) by (simp only: space_ok_update)
  ultimately have "layout slot frame c D s2"
    using set_leaf_layout [OF _ i(2) flags_ok(1), of c ?t slot frame] i(4) layout_cong [of ?t s slot frame c D] by simp
  then show ?case using s2 i(3) by (auto simp: p_inv_def)
next
  case (3 s v b s')
  then have i: "space_ok c D s" "v \<in> set D" "P \<subseteq> set D" "layout slot frame c D s"
    by (auto simp: p_inv_def)
  then have "PTE_ADDR (leaf (pmem s) c v) = frame v" by (simp add: layout_def)
  then show ?case using store_writable_memory [OF i(1,2) 3(3)] i(3) by auto
next
  case (4 s v b s1 s2)
  then have i: "space_ok c D s" "handler_ready E s" "v \<in> set D" "P \<subseteq> set D" "layout slot frame c D s"
    by (auto simp: p_inv_def)
  let ?s1 = "s\<lparr>cr2 := v, tlb := (tlb s)(vpn v := None)\<rparr>"
  have "s1 = ?s1"
    using 4(3) by (auto simp: mmu_store8_def mmu_lookup_page [OF i(1,3)] split: bool.splits)
  note s1 = this
  have ok: "space_ok c D ?s1" "handler_ready E ?s1"
    using i(1,2) space_ok_fault by (auto simp: handler_ready_def)
  let ?t = "?s1\<lparr>g_pf_count := g_pf_count ?s1 + 1\<rparr>"
  have s2: "s2 = set_leaf (PTE_P OR PTE_W) v ?t"
    using serve_fault_page [OF ok(1) i(3) ok(2)] 4(4) unfolding s1 by simp
  have t: "space_ok c D ?t" "pmem ?t = pmem s" using ok(1) by (simp_all only: space_ok_update) simp
  have sl: "slot0 (pmem s) c v = slot v" "PTE_ADDR (leaf (pmem s) c v) = frame v"
    using i(3,5) by (simp_all add: layout_def)
  have "pmem s2 p = pmem s p" if "p \<in> data_of slot P" for p
    using set_leaf_memory(3) [OF t(1) i(3) i(3), of p] that 4(2) unfolding t(2) s2 sl
    by (auto simp: data_of_def)
  moreover have "leaf (pmem s2) c u = (if u = v then frame v OR (PTE_P OR PTE_W) else leaf (pmem s) c u)" if "u \<in> P" for u
    using set_leaf_memory(2) [OF t(1) i(3), of u "PTE_P OR PTE_W"] that i(4) unfolding t(2) s2 sl by auto
  ultimately show ?case by blast
qed


section \<open>The parts of ecall\_exception\<close>

lemma core_pmem: "core s' = core s \<Longrightarrow> pmem s' = pmem s"
  by (drule arg_cong [of _ _ pmem]) (simp add: core_def)

lemma p_inv_core:
  assumes "core s' = core s"
  shows "p_inv E c D P slot frame s' = p_inv E c D P slot frame s"
  by (simp only: p_inv_def core_cong(1,2) [OF assms] layout_cong [OF core_pmem [OF assms]])

lemma rdtscp_core: "core (snd (rdtscp E s)) = core s"
  by (simp add: rdtscp_def split: prod.splits)

lemma frame_in_data:
  assumes "p_inv E c D P slot frame s" "v \<in> set D"
  shows "frame v \<in> data_of slot P"
proof -
  have i: "P \<subseteq> set D" "pt_ok (pmem s) c D" "frames_ok (pmem s) c D" "layout slot frame c D s"
    using assms(1) by (simp_all add: p_inv_def space_ok_def)
  have "8 \<le> unat (frame v - slot u)" if "u \<in> P" for u
  proof (rule ccontr)
    let ?i = "unat (frame v - slot u)"
    assume "\<not> 8 \<le> ?i"
    have u: "u \<in> set D" using that i(1) by blast
    have sl: "slot u = slot0 (pmem s) c u" "frame v = PTE_ADDR (leaf (pmem s) c v)"
      using i(4) u assms(2) unfolding layout_def by simp_all
    have "aligned8 (slot u)" unfolding sl by (rule aligned8_slots(4))
    moreover have "slot u + of_nat ?i = frame v" by simp
    ultimately have "vpn (slot u) = vpn (frame v)"
      using cell_in_page [of "slot u" ?i] \<open>\<not> 8 \<le> ?i\<close> by (metis not_le)
    then show False using frames_okD(5) [OF i(3) assms(2) u, of "slot u"] unfolding sl by blast
  qed
  then show ?thesis by (simp add: data_of_def)
qed

lemma write_pages_memory:
  assumes "p_inv E c D (set (pages (test_buf E) n)) slot frame s" "write_pages E (4096 * n) b s = Some (Inr s')"
  shows "p_inv E c D (set (pages (test_buf E) n)) slot frame s'"
    and "p \<in> data_of slot (set (pages (test_buf E) n)) \<Longrightarrow>
      pmem s' p = (if p \<in> frame ` set (pages (test_buf E) n) then b else pmem s p)"
    and "u \<in> set (pages (test_buf E) n) \<Longrightarrow> leaf (pmem s') c u =
      (if page_writable c s u then leaf (pmem s) c u else frame u OR (PTE_P OR PTE_W))"
proof -
  have "(4096 * n + 4095) div 4096 = n" by simp
  then have "store_each mmu_store8 (serve_fault E) b (pages (test_buf E) n) s = Some (Inr s')"
    using assms(2) by (simp add: write_pages_def)
  from p_memory.store_each_cells [OF assms(1) subset_refl this]
  show "p_inv E c D (set (pages (test_buf E) n)) slot frame s'"
    "p \<in> data_of slot (set (pages (test_buf E) n)) \<Longrightarrow>
      pmem s' p = (if p \<in> frame ` set (pages (test_buf E) n) then b else pmem s p)"
    "u \<in> set (pages (test_buf E) n) \<Longrightarrow> leaf (pmem s') c u =
      (if page_writable c s u then leaf (pmem s) c u else frame u OR (PTE_P OR PTE_W))"
    by auto
qed

lemma protect_buffer_memory:
  assumes "p_inv E c D (set (pages (test_buf E) n)) slot frame s" "buffer_ok E n D"
    and "protect_buffer E (4096 * n) s = Some (Inr s')"
  shows "p_inv E c D (set (pages (test_buf E) n)) slot frame s'"
    and "p \<in> data_of slot (set (pages (test_buf E) n)) \<Longrightarrow> pmem s' p = pmem s p"
    and "u \<in> set (pages (test_buf E) n) \<Longrightarrow> \<not> page_writable c s' u"
    and "out s' = out s @ [Print (''read OK: %d'' @ nl) [AInt (uint (pmem s (frame (test_buf E))))]]"
proof -
  let ?P = "pages (test_buf E) n"
  note b = buffer_okD [OF assms(2)]
  let ?s = "set_leaves PTE_P ?P s"
  have i: "space_ok c D s" "handler_ready E s" "layout slot frame c D s" using assms(1) by (simp_all add: p_inv_def)
  have s: "g_cached_cr3 s = c" "pt_ok (pmem s) c D" using i(1) by (simp_all add: space_ok_def)
  have u: "unat (of_nat (4096 * n) :: u64) = 4096 * n"
    using unat_add_of_nat [of 0 "4096 * n"] b(3) by simp
  have "(of_nat (4096 * n) :: u64) mod 4096 = 0"
    by (simp add: word_unat_eq_iff unat_mod_distrib u del: of_nat_mult)
  then have mp: "mprotect s (test_buf E) (of_nat (4096 * n)) PTE_P = Some (Ret (0, ?s))"
    using mprotect_run [of s D "test_buf E" "of_nat (4096 * n)" PTE_P] s b u
    by (simp add: PGSIZE_def del: of_nat_mult)
  have sp: "space_ok c D ?s" "\<forall>u\<in>set D. page_writable c ?s u = (if u \<in> set ?P then False else page_writable c s u)"
    using set_leaves_space_ok [OF i(1) b(4) flags_ok(4,5)] flags_ok(6) by auto
  have lay: "layout slot frame c D (set_leaves PTE_P vs t) \<and> space_ok c D (set_leaves PTE_P vs t)"
    if "set vs \<subseteq> set D" "layout slot frame c D t" "space_ok c D t" for vs and t :: penclave
    using that
    by (induction vs arbitrary: t) (simp_all add: set_leaf_layout flags_ok set_leaf_space)
  have mem: "pmem ?s p = pmem s p" if "p \<in> data_of slot (set ?P)" for p
    using set_leaves_space [of s D ?P PTE_P p] s b(4,5) that i(3) by (auto simp: data_of_def layout_def)
  have f: "frame (test_buf E) = PTE_ADDR (leaf (pmem ?s) c (test_buf E))"
    using lay [OF b(4) i(3,1)] b(6) by (simp add: layout_def)
  have "page_offset (test_buf E) = 0" using pt_okD(2) [OF s(2) b(6)] by (rule page_offset_aligned)
  then have "mmu_load8 ?s (test_buf E) = Some (pmem ?s (frame (test_buf E)))"
    using mmu_lookup_page [OF sp(1) b(6)] by (simp add: mmu_load8_def f)
  moreover have "pmem ?s (frame (test_buf E)) = pmem s (frame (test_buf E))"
    by (rule mem) (rule frame_in_data [OF assms(1) b(6)])
  ultimately have s': "s' = printf_ocall (''read OK: %d'' @ nl) [AInt (uint (pmem s (frame (test_buf E))))] ?s"
    using assms(3) mp by (simp add: protect_buffer_def del: of_nat_mult)
  have c: "core s' = core ?s" by (simp add: s')
  have "out ?s = out s" by (rule more_fields(5) [OF set_leaves_frame(4)])
  then show "out s' = out s @ [Print (''read OK: %d'' @ nl) [AInt (uint (pmem s (frame (test_buf E))))]]"
    by (simp add: s' printf_ocall_def)
  show "p_inv E c D (set ?P) slot frame s'"
    unfolding p_inv_core [OF c] by (simp add: p_inv_def set_leaves_more lay [OF b(4) i(3,1)] i(2) b(4))
  show "p \<in> data_of slot (set ?P) \<Longrightarrow> pmem s' p = pmem s p"
    using mem by (simp add: core_pmem [OF c])
  show "u \<in> set ?P \<Longrightarrow> \<not> page_writable c s' u"
    using sp(2) b(4) by (auto simp: core_cong(3) [OF c])
qed

lemma page_fault_test_memory:
  assumes "p_inv E c D (set (pages (test_buf E) n)) slot frame s"
    and "\<forall>u\<in>set (pages (test_buf E) n). \<not> page_writable c s u"
    and "page_fault_test E (4096 * n) s = Some (Inr s')"
  shows "p_inv E c D (set (pages (test_buf E) n)) slot frame s'"
    and "p \<in> data_of slot (set (pages (test_buf E) n)) \<Longrightarrow>
      pmem s' p = (if p \<in> frame ` set (pages (test_buf E) n) then 0 else pmem s p)"
    and "u \<in> set (pages (test_buf E) n) \<Longrightarrow> leaf (pmem s') c u = frame u OR (PTE_P OR PTE_W)"
proof -
  let ?s0 = "snd (rdtscp E s)"
  obtain s1 where s1: "write_pages E (4096 * n) 0 ?s0 = Some (Inr s1)"
    and s': "core s' = core s1"
    using assms(3) by (auto simp: page_fault_test_def and_then_Inr Let_def case_prod_unfold rdtscp_core)
  note c0 = rdtscp_core [of E s] and m0 = core_pmem [OF rdtscp_core [of E s]]
  have "p_inv E c D (set (pages (test_buf E) n)) slot frame ?s0"
    unfolding p_inv_core [OF c0] by (rule assms(1))
  note w = write_pages_memory [OF this s1]
  show "p_inv E c D (set (pages (test_buf E) n)) slot frame s'"
    unfolding p_inv_core [OF s'] by (rule w(1))
  show "p \<in> data_of slot (set (pages (test_buf E) n)) \<Longrightarrow>
      pmem s' p = (if p \<in> frame ` set (pages (test_buf E) n) then 0 else pmem s p)"
    unfolding core_pmem [OF s'] m0 [symmetric] by (rule w(2))
  show "u \<in> set (pages (test_buf E) n) \<Longrightarrow> leaf (pmem s') c u = frame u OR (PTE_P OR PTE_W)"
    unfolding core_pmem [OF s'] using w(3) [of u] assms(2) core_cong(3) [OF c0] by auto
qed

lemma ud2_test_memory:
  assumes "handler_ready E s" "ud2_test E k s = Some (Inr s')"
  shows "pmem s' = pmem s" and "space_ok c D s' = space_ok c D s"
proof -
  let ?s0 = "snd (rdtscp E s)"
  obtain s1 where s1: "ud2_loop (raise E 6) tf_rip (ud_frame E) (unat k) ?s0 = Some (Inr s1)"
    and s': "core s' = core s1"
    using assms(2) by (auto simp: ud2_test_def and_then_Inr Let_def case_prod_unfold rdtscp_core)
  have "handler_ready E ?s0" using assms(1) by (simp only: core_cong(2) [OF rdtscp_core])
  from p_ud2.ud2_loop_counts [OF TrueI this, where f = "ud_frame E" and n = "unat k"] s1 have "ud_others s1 = ud_others ?s0" by auto
  note o = arg_cong [OF this, of pmem] arg_cong [OF this, of tlb] arg_cong [OF this, of cr3]
    arg_cong [OF this, of g_cached_cr3]
  have m: "pmem s1 = pmem ?s0" using o(1) by (simp add: ud_others_def)
  then show "pmem s' = pmem s" by (simp only: core_pmem [OF s'] core_pmem [OF rdtscp_core])
  have "space_ok c D s1 = space_ok c D ?s0"
    using o by (simp add: ud_others_def space_ok_def tlb_ok_def hw_page_def)
  then show "space_ok c D s' = space_ok c D s" by (simp only: core_cong(1) [OF s'] core_cong(1) [OF rdtscp_core])
qed

lemma page_plus_offset_low:
  assumes "v AND 0xfff = 0" "off < 4096"
  shows "page_offset (v + off) = off"
  unfolding page_offset_def page_plus_offset(1) [OF assms]
proof (rule bit_word_eqI)
  have m: "(0xfff :: u64) = mask 12" by (simp add: mask_eq_exp_minus_1)
  fix n show "bit ((v OR off) AND 0xfff) n = bit off n"
    using page_low_bits [OF assms(1), of n] small_offset(2) [OF assms(2), of n]
    by (cases "n < 12") (simp_all add: m bit_simps)
qed

lemma frame_cells:
  assumes "p_inv E c D P slot frame s" "v \<in> set D" "k < 4096"
  shows "frame v + of_nat k \<in> data_of slot P"
    and "u \<in> set D \<Longrightarrow> (frame v + of_nat k = frame u) = (k = 0 \<and> frame v = frame u)"
proof -
  have i: "P \<subseteq> set D" "pt_ok (pmem s) c D" "frames_ok (pmem s) c D" "layout slot frame c D s"
    using assms(1) by (simp_all add: p_inv_def space_ok_def)
  have o: "(of_nat k :: u64) < 4096"
    using assms(3) by (simp add: word_less_nat_alt take_bit_nat_eq_self unsigned_of_nat)
  have al: "frame w AND 0xfff = 0" if "w \<in> set D" for w
    using i(4) that unfolding layout_def
    by (metis PTE_ADDR_page)
  note vp = page_plus_offset(2) [OF al [OF assms(2)] o]
  have "8 \<le> unat (frame v + of_nat k - slot u)" if "u \<in> P" for u
  proof (rule ccontr)
    let ?i = "unat (frame v + of_nat k - slot u)"
    assume "\<not> 8 \<le> ?i"
    have u: "u \<in> set D" using that i(1) by blast
    have sl: "slot u = slot0 (pmem s) c u" "frame v = PTE_ADDR (leaf (pmem s) c v)"
      using i(4) u assms(2) unfolding layout_def by simp_all
    have "aligned8 (slot u)" unfolding sl by (rule aligned8_slots(4))
    moreover have "slot u + of_nat ?i = frame v + of_nat k" by simp
    ultimately have "vpn (slot u) = vpn (frame v + of_nat k)"
      using cell_in_page [of "slot u" ?i] \<open>\<not> 8 \<le> ?i\<close> by (metis not_le)
    then show False using frames_okD(5) [OF i(3) assms(2) u, of "slot u"] unfolding vp unfolding sl by blast
  qed
  then show "frame v + of_nat k \<in> data_of slot P" by (simp add: data_of_def)
  have off: "page_offset (frame w + of_nat j) = of_nat j" if "w \<in> set D" "(of_nat j :: u64) < 4096" for w j
    by (rule page_plus_offset_low [OF al [OF that(1)] that(2)])
  show "(frame v + of_nat k = frame u) = (k = 0 \<and> frame v = frame u)" if u: "u \<in> set D"
  proof -
    have "k = 0" if "frame v + of_nat k = frame u"
    proof -
      have "(of_nat k :: u64) = of_nat 0"
        using off [OF assms(2) o] off [OF u, of 0] that by simp
      then have "unat (of_nat k :: u64) = 0" by simp
      then show ?thesis using assms(3) by (simp add: unsigned_of_nat take_bit_nat_eq_self)
    qed
    then show ?thesis by auto
  qed
qed

lemma flags_no_ad: "(PTE_ADDR e OR (PTE_P OR PTE_W)) AND NOT (PTE_A OR PTE_D) = PTE_ADDR e OR (PTE_P OR PTE_W)"
proof (rule bit_word_eqI)
  have "(0x60 :: u64) = push_bit 5 (mask 2)" "(3 :: u64) = mask 2"
    by (simp_all add: mask_eq_exp_minus_1 push_bit_eq_mult)
  then have m: "PTE_A OR PTE_D = push_bit 5 (mask 2)" "PTE_P OR PTE_W = mask 2"
    by (simp_all add: PTE_A_def PTE_D_def PTE_P_def PTE_W_def)
  fix n
  show "bit ((PTE_ADDR e OR (PTE_P OR PTE_W)) AND NOT (PTE_A OR PTE_D)) n = bit (PTE_ADDR e OR (PTE_P OR PTE_W)) n"
    unfolding m by (auto simp: bit_simps bit_PTE_ADDR)
qed

lemma buffer_reads:
  fixes s :: "'a mmu_scheme"
  assumes "space_ok c D s" "u \<in> set D" "k < 4096"
  shows "mmu_load8 s (u + of_nat k) = Some (pmem s (PTE_ADDR (leaf (pmem s) c u) + of_nat k))"
proof -
  have "pt_ok (pmem s) c D" using assms(1) by (simp add: space_ok_def)
  from pt_okD(2) [OF this assms(2)] have a: "u AND 0xfff = 0" .
  have o: "(of_nat k :: u64) < 4096"
    using assms(3) by (simp add: word_less_nat_alt take_bit_nat_eq_self unsigned_of_nat)
  show ?thesis
    using mmu_lookup_page [OF assms(1,2)]
    by (simp add: mmu_load8_def mmu_lookup_vpn [OF page_plus_offset(2) [OF a o]] page_plus_offset_low [OF a o])
qed

section \<open>The run\<close>

lemma ecall_exception_memory_run:
  assumes "link_ok E" "space_before D s" "buffer_ok E n D"
    and "ecall_exception_sized E (4096 * n) k s = Some (Inr (st, s'))"
  shows "p \<in> data_of (slot0 (pmem s) (cr3 s)) (set (pages (test_buf E) n)) \<Longrightarrow> pmem s' p =
      (if p \<in> (\<lambda>v. PTE_ADDR (leaf (pmem s) (cr3 s) v)) ` set (pages (test_buf E) n) then 0 else pmem s p)"
    and "u \<in> set (pages (test_buf E) n) \<Longrightarrow>
      leaf (pmem s') (cr3 s) u = PTE_ADDR (leaf (pmem s) (cr3 s) u) OR (PTE_P OR PTE_W)"
    and "Print (''read OK: %d'' @ nl) [AInt 0] \<in> set (out s')"
    and "space_ok (cr3 s) D s'"
proof -
  let ?c = "cr3 s" and ?P = "set (pages (test_buf E) n)"
  let ?slot = "slot0 (pmem s) ?c" and ?frame = "\<lambda>v. PTE_ADDR (leaf (pmem s) ?c v)"
  obtain s1 s2 s3 s4 where r: "write_pages E (4096 * n) 0 (setup_handler E s) = Some (Inr s1)"
    "protect_buffer E (4096 * n) s1 = Some (Inr s2)" "page_fault_test E (4096 * n) s2 = Some (Inr s3)"
    "ud2_test E k s3 = Some (Inr s4)" "s' = print_counts s4"
    using assms(4) by (auto simp: ecall_exception_sized_def and_then_Inr)
  have m0: "pmem (setup_handler E s) = pmem s" using setup_handler_eq [of E s] by auto
  have i0: "p_inv E ?c D ?P ?slot ?frame (setup_handler E s)"
    using setup_handler_space(1) [OF assms(2), of E] setup_handler_ready [OF assms(1), of s] buffer_okD(4) [OF assms(3)]
    by (simp add: p_inv_def layout_def m0)
  note w = write_pages_memory [OF i0 r(1)]
  note q = protect_buffer_memory [OF w(1) assms(3) r(2)]
  note f = page_fault_test_memory [OF q(1) _ r(3)]
  have wr: "\<forall>u\<in>?P. \<not> page_writable ?c s2 u" using q(3) by blast
  have h3: "handler_ready E s3" using f(1) [OF wr] by (simp add: p_inv_def)
  note m4 = ud2_test_memory(1) [OF h3 r(4)]
  have m': "pmem s' = pmem s3" unfolding r(5) m4 [symmetric] by (rule core_pmem) simp
  show "pmem s' p = (if p \<in> ?frame ` ?P then 0 else pmem s p)" if "p \<in> data_of ?slot ?P"
    using f(2) [OF wr that] q(2) [OF that] w(2) [OF that] by (simp add: m' m0)
  show "u \<in> ?P \<Longrightarrow> leaf (pmem s') ?c u = ?frame u OR (PTE_P OR PTE_W)"
    unfolding m' by (rule f(3) [OF wr])
  have b: "test_buf E \<in> set D" "test_buf E \<in> ?P"
    using buffer_okD [OF assms(3)] by (auto simp: pages_def intro: image_eqI [of _ _ 0])
  have "pmem s1 (?frame (test_buf E)) = 0"
    using w(2) [OF frame_in_data [OF i0 b(1)]] b(2) by simp
  then have "Print (''read OK: %d'' @ nl) [AInt 0] \<in> set (out s2)" using q(4) by simp
  moreover note page_fault_test_out [OF r(3)] ud2_test_out [OF r(4)]
  ultimately show "Print (''read OK: %d'' @ nl) [AInt 0] \<in> set (out s')"
    by (simp add: r(5) print_counts_def printf_ocall_def p_log_def)
  have "space_ok ?c D s4"
    using f(1) [OF wr] ud2_test_memory(2) [OF h3 r(4)] by (simp add: p_inv_def)
  moreover have "core s' = core s4" by (simp add: r(5))
  note core_cong(1) [OF this]
  ultimately show "space_ok ?c D s'" by simp
qed

lemma ecall_exception_reads:
  assumes "link_ok E" "space_before D s" "buffer_ok E n D"
    and "ecall_exception_sized E (4096 * n) k s = Some (Inr (st, s'))"
    and "u \<in> set (pages (test_buf E) n)" "j < 4096"
  shows "mmu_load8 s' (u + of_nat j) = (if j = 0 then Some 0 else mmu_load8 s (u + of_nat j))"
proof -
  let ?c = "cr3 s" and ?P = "set (pages (test_buf E) n)"
  let ?slot = "slot0 (pmem s) ?c" and ?frame = "\<lambda>v. PTE_ADDR (leaf (pmem s) ?c v)"
  note run = ecall_exception_memory_run [OF assms(1-4)]
  note b = buffer_okD(4) [OF assms(3)]
  have u: "u \<in> set D" using assms(5) b by blast
  have m0: "pmem (setup_handler E s) = pmem s" using setup_handler_eq [of E s] by auto
  have i0: "p_inv E ?c D ?P ?slot ?frame (setup_handler E s)"
    using setup_handler_space(1) [OF assms(2), of E] setup_handler_ready [OF assms(1), of s] b
    by (simp add: p_inv_def layout_def m0)
  have regs: "cr3 (setup_handler E s) = cr3 s" "tlb (setup_handler E s) = tlb s"
    using setup_handler_eq [of E s] by auto
  have "mmu_load8 s (u + of_nat j) = mmu_load8 (setup_handler E s) (u + of_nat j)"
    unfolding mmu_load8_def mmu_lookup_def hw_page_def m0 regs ..
  also have "\<dots> = Some (pmem s (?frame u + of_nat j))"
    using buffer_reads [OF setup_handler_space(1) [OF assms(2)] u assms(6), of E] unfolding m0 .
  finally have l: "mmu_load8 s (u + of_nat j) = Some (pmem s (?frame u + of_nat j))" .
  note fc = frame_cells [OF i0 u assms(6)]
  have e: "?frame u + of_nat j \<in> ?frame ` ?P \<longleftrightarrow> j = 0"
  proof
    assume "?frame u + of_nat j \<in> ?frame ` ?P"
    then obtain w where "w \<in> ?P" "?frame u + of_nat j = ?frame w" by blast
    then show "j = 0" using fc(2) [of w] b by blast
  next
    assume "j = 0"
    then show "?frame u + of_nat j \<in> ?frame ` ?P" using assms(5) by auto
  qed
  have fr: "PTE_ADDR (leaf (pmem s') ?c u) = ?frame u"
    unfolding run(2) [OF assms(5)] by (rule PTE_ADDR_flags) (rule flags_ok(1))
  show ?thesis
    unfolding buffer_reads [OF run(4) u assms(6)] fr l run(1) [OF fc(1)] e by (rule if_distrib)
qed

text \<open>C5: after the whole run of the P-Enclave's \<open>ecall_exception\<close>, whatever page faults were
  served on the way, the enclave reads its buffer as it was before except for the first byte of
  every page, which is 0; and the entry of every page of the buffer is, but for the bits Accessed
  and Dirty that the processor may set and that no branch of the code reads, its old frame with exactly the
  flags present and writable.\<close>

theorem ecall_exception_buffer:
  assumes "link_ok E" "space_before D s" "buffer_ok E n D"
  shows "\<exists>s'. ecall_exception_sized E (4096 * n) nrepeats s = Some (Inr (SGX_SUCCESS, s')) \<and>
    (\<forall>u\<in>set (pages (test_buf E) n).
       leaf (pmem s') (cr3 s) u AND NOT (PTE_A OR PTE_D) = PTE_ADDR (leaf (pmem s) (cr3 s) u) OR (PTE_P OR PTE_W) \<and>
       (\<forall>k<4096. mmu_load8 s' (u + of_nat k) = (if k = 0 then Some 0 else mmu_load8 s (u + of_nat k))))"
proof -
  obtain s' where s': "ecall_exception_sized E (4096 * n) nrepeats s = Some (Inr (SGX_SUCCESS, s'))"
    using ecall_exception_run [OF assms] by blast
  have "leaf (pmem s') (cr3 s) u AND NOT (PTE_A OR PTE_D) = PTE_ADDR (leaf (pmem s) (cr3 s) u) OR (PTE_P OR PTE_W)"
    if "u \<in> set (pages (test_buf E) n)" for u
    unfolding ecall_exception_memory_run(2) [OF assms s' that] by (rule flags_no_ad)
  then show ?thesis using s' ecall_exception_reads [OF assms s'] by blast
qed

theorem ecall_exception_buffer_witness:
  "\<exists>s'. ecall_exception_sized demo_env 8192 5 demo_penclave = Some (Inr (SGX_SUCCESS, s')) \<and>
     leaf (pmem s') 0x1000 0x400000 AND NOT 0x60 = 0x9003 \<and> leaf (pmem s') 0x1000 0x401000 AND NOT 0x60 = 0xa003 \<and>
     mmu_load8 s' 0x400000 = Some 0 \<and> mmu_load8 s' 0x401001 = mmu_load8 demo_penclave 0x401001"
proof -
  have P: "pages (test_buf demo_env) 2 = [0x400000, 0x401000]" by (simp add: demo_env_def demo_pages)
  obtain s' where s': "ecall_exception_sized demo_env (4096 * 2) 5 demo_penclave = Some (Inr (SGX_SUCCESS, s'))"
    "\<forall>u\<in>{0x400000, 0x401000}.
       leaf (pmem s') 0x1000 u AND NOT (PTE_A OR PTE_D) = PTE_ADDR (leaf demo_pt 0x1000 u) OR (PTE_P OR PTE_W) \<and>
       (\<forall>k<4096. mmu_load8 s' (u + of_nat k) = (if k = 0 then Some 0 else mmu_load8 demo_penclave (u + of_nat k)))"
    using ecall_exception_buffer [OF demo_link demo_space demo_buffer, of 5] unfolding P by auto
  have "PTE_A OR PTE_D = 0x60" by (simp add: PTE_A_def PTE_D_def)
  then have l: "leaf (pmem s') 0x1000 0x400000 AND NOT 0x60 = 0x9003" "leaf (pmem s') 0x1000 0x401000 AND NOT 0x60 = 0xa003"
    using s'(2) by (simp_all add: demo_leaf PTE_ADDR_def PTE_P_def PTE_W_def)
  have r: "mmu_load8 s' (u + of_nat k) = (if k = 0 then Some 0 else mmu_load8 demo_penclave (u + of_nat k))"
    if "u \<in> {0x400000, 0x401000}" "k < 4096" for u :: u64 and k
    using s'(2) that by blast
  have m: "mmu_load8 s' 0x400000 = Some 0" using r [where u = "0x400000" and k = 0] by simp
  have m': "mmu_load8 s' 0x401001 = mmu_load8 demo_penclave 0x401001"
    using r [where u = "0x401000" and k = 1] by simp
  show ?thesis using s'(1) l m m' by (intro exI [of _ s']) simp
qed

end
