(* ===== verification/ErrList.thy ===== *)
theory ErrList
  imports Prelude
begin

text \<open>
  The table of error messages and \<open>print_error_message\<close>, which every \<open>App.cpp\<close> under
  \<open>server\<close> has: the three of \<open>server/exception\<close> print a fixed line for a code that is not
  in the table, that of \<open>server/edge-calls\<close> prints the code.

  The locale \<open>error_table\<close> asks that the codes of a table are distinct; its client is the
  search loop.  It is interpreted on the tables of the source.
\<close>

section \<open>The table\<close>

record sgx_errlist_t =
  err :: sgx_status
  msg :: string
  sug :: "string option"

text \<open>The tables of the Apps of the P-Enclave, the GU-Enclave, the SGX enclave and the edge calls.\<close>

definition sgx_errlist :: "sgx_errlist_t list" where
  "sgx_errlist =
     [\<lparr>err = SGX_ERROR_UNEXPECTED, msg = ''Unexpected error occurred.'', sug = None\<rparr>,
      \<lparr>err = SGX_ERROR_INVALID_PARAMETER, msg = ''Invalid parameter.'', sug = None\<rparr>,
      \<lparr>err = SGX_ERROR_OUT_OF_MEMORY, msg = ''Out of memory.'', sug = None\<rparr>,
      \<lparr>err = SGX_ERROR_ENCLAVE_LOST, msg = ''Power transition occurred.'', sug = Some ''Please refer to the sample \"PowerTransition\" for details.''\<rparr>,
      \<lparr>err = SGX_ERROR_INVALID_ENCLAVE, msg = ''Invalid enclave image.'', sug = None\<rparr>,
      \<lparr>err = SGX_ERROR_INVALID_ENCLAVE_ID, msg = ''Invalid enclave identification.'', sug = None\<rparr>,
      \<lparr>err = SGX_ERROR_INVALID_SIGNATURE, msg = ''Invalid enclave signature.'', sug = None\<rparr>,
      \<lparr>err = SGX_ERROR_OUT_OF_EPC, msg = ''Out of EPC memory.'', sug = None\<rparr>,
      \<lparr>err = SGX_ERROR_NO_DEVICE, msg = ''Invalid SGX device.'', sug = Some ''Please make sure SGX module is enabled in the BIOS, and install SGX driver afterwards.''\<rparr>,
      \<lparr>err = SGX_ERROR_MEMORY_MAP_CONFLICT, msg = ''Memory map conflicted.'', sug = None\<rparr>,
      \<lparr>err = SGX_ERROR_INVALID_METADATA, msg = ''Invalid enclave metadata.'', sug = None\<rparr>,
      \<lparr>err = SGX_ERROR_DEVICE_BUSY, msg = ''SGX device was busy.'', sug = None\<rparr>,
      \<lparr>err = SGX_ERROR_INVALID_VERSION, msg = ''Enclave version was invalid.'', sug = None\<rparr>,
      \<lparr>err = SGX_ERROR_INVALID_ATTRIBUTE, msg = ''Enclave was not authorized.'', sug = None\<rparr>,
      \<lparr>err = SGX_ERROR_ENCLAVE_FILE_ACCESS, msg = ''Can't open enclave file.'', sug = None\<rparr>]"

definition gu_errlist :: "sgx_errlist_t list" where
  "gu_errlist =
     [\<lparr>err = SGX_ERROR_UNEXPECTED, msg = ''Unexpected error occurred.'', sug = None\<rparr>,
      \<lparr>err = SGX_ERROR_INVALID_PARAMETER, msg = ''Invalid parameter.'', sug = None\<rparr>,
      \<lparr>err = SGX_ERROR_OUT_OF_MEMORY, msg = ''Out of memory.'', sug = None\<rparr>,
      \<lparr>err = SGX_ERROR_ENCLAVE_LOST, msg = ''Power transition occurred.'', sug = Some ''Please refer to the sample \"PowerTransition\" for details.''\<rparr>,
      \<lparr>err = SGX_ERROR_INVALID_ENCLAVE, msg = ''Invalid enclave image.'', sug = None\<rparr>,
      \<lparr>err = SGX_ERROR_INVALID_ENCLAVE_ID, msg = ''Invalid enclave identification.'', sug = None\<rparr>,
      \<lparr>err = SGX_ERROR_INVALID_SIGNATURE, msg = ''Invalid enclave signature.'', sug = None\<rparr>,
      \<lparr>err = SGX_ERROR_OUT_OF_EPC, msg = ''Out of EPC memory.'', sug = None\<rparr>,
      \<lparr>err = SGX_ERROR_NO_DEVICE, msg = ''Invalid SGX device.'', sug = Some ''Please make sure SGX module is enabled in the BIOS, and install SGX driver afterwards.''\<rparr>,
      \<lparr>err = SGX_ERROR_MEMORY_MAP_CONFLICT, msg = ''Memory map conflicted.'', sug = None\<rparr>,
      \<lparr>err = SGX_ERROR_INVALID_METADATA, msg = ''Invalid enclave metadata.'', sug = None\<rparr>,
      \<lparr>err = SGX_ERROR_DEVICE_BUSY, msg = ''SGX device was busy.'', sug = None\<rparr>,
      \<lparr>err = SGX_ERROR_INVALID_VERSION, msg = ''Enclave version was invalid.'', sug = None\<rparr>,
      \<lparr>err = SGX_ERROR_INVALID_ATTRIBUTE, msg = ''Enclave was not authorized.'', sug = None\<rparr>,
      \<lparr>err = SGX_ERROR_ENCLAVE_FILE_ACCESS, msg = ''Can't open enclave file.'', sug = None\<rparr>]"

definition sgx_app_errlist :: "sgx_errlist_t list" where
  "sgx_app_errlist =
     [\<lparr>err = SGX_ERROR_UNEXPECTED, msg = ''Unexpected error occurred.'', sug = None\<rparr>,
      \<lparr>err = SGX_ERROR_INVALID_PARAMETER, msg = ''Invalid parameter.'', sug = None\<rparr>,
      \<lparr>err = SGX_ERROR_OUT_OF_MEMORY, msg = ''Out of memory.'', sug = None\<rparr>,
      \<lparr>err = SGX_ERROR_ENCLAVE_LOST, msg = ''Power transition occurred.'', sug = Some ''Please refer to the sample \"PowerTransition\" for details.''\<rparr>,
      \<lparr>err = SGX_ERROR_INVALID_ENCLAVE, msg = ''Invalid enclave image.'', sug = None\<rparr>,
      \<lparr>err = SGX_ERROR_INVALID_ENCLAVE_ID, msg = ''Invalid enclave identification.'', sug = None\<rparr>,
      \<lparr>err = SGX_ERROR_INVALID_SIGNATURE, msg = ''Invalid enclave signature.'', sug = None\<rparr>,
      \<lparr>err = SGX_ERROR_OUT_OF_EPC, msg = ''Out of EPC memory.'', sug = None\<rparr>,
      \<lparr>err = SGX_ERROR_NO_DEVICE, msg = ''Invalid SGX device.'', sug = Some ''Please make sure SGX module is enabled in the BIOS, and install SGX driver afterwards.''\<rparr>,
      \<lparr>err = SGX_ERROR_MEMORY_MAP_CONFLICT, msg = ''Memory map conflicted.'', sug = None\<rparr>,
      \<lparr>err = SGX_ERROR_INVALID_METADATA, msg = ''Invalid enclave metadata.'', sug = None\<rparr>,
      \<lparr>err = SGX_ERROR_DEVICE_BUSY, msg = ''SGX device was busy.'', sug = None\<rparr>,
      \<lparr>err = SGX_ERROR_INVALID_VERSION, msg = ''Enclave version was invalid.'', sug = None\<rparr>,
      \<lparr>err = SGX_ERROR_INVALID_ATTRIBUTE, msg = ''Enclave was not authorized.'', sug = None\<rparr>,
      \<lparr>err = SGX_ERROR_ENCLAVE_FILE_ACCESS, msg = ''Can't open enclave file.'', sug = None\<rparr>]"

definition edge_errlist :: "sgx_errlist_t list" where
  "edge_errlist =
     [\<lparr>err = SGX_ERROR_UNEXPECTED, msg = ''Unexpected error occurred.'', sug = None\<rparr>,
      \<lparr>err = SGX_ERROR_INVALID_PARAMETER, msg = ''Invalid parameter.'', sug = None\<rparr>,
      \<lparr>err = SGX_ERROR_OUT_OF_MEMORY, msg = ''Out of memory.'', sug = None\<rparr>,
      \<lparr>err = SGX_ERROR_ENCLAVE_LOST, msg = ''Power transition occurred.'', sug = Some ''Please refer to the sample \"PowerTransition\" for details.''\<rparr>,
      \<lparr>err = SGX_ERROR_INVALID_ENCLAVE, msg = ''Invalid enclave image.'', sug = None\<rparr>,
      \<lparr>err = SGX_ERROR_INVALID_ENCLAVE_ID, msg = ''Invalid enclave identification.'', sug = None\<rparr>,
      \<lparr>err = SGX_ERROR_INVALID_SIGNATURE, msg = ''Invalid enclave signature.'', sug = None\<rparr>,
      \<lparr>err = SGX_ERROR_OUT_OF_EPC, msg = ''Out of EPC memory.'', sug = None\<rparr>,
      \<lparr>err = SGX_ERROR_NO_DEVICE, msg = ''Invalid SGX device.'', sug = Some ''Please make sure SGX module is enabled in the BIOS, and install SGX driver afterwards.''\<rparr>,
      \<lparr>err = SGX_ERROR_MEMORY_MAP_CONFLICT, msg = ''Memory map conflicted.'', sug = None\<rparr>,
      \<lparr>err = SGX_ERROR_INVALID_METADATA, msg = ''Invalid enclave metadata.'', sug = None\<rparr>,
      \<lparr>err = SGX_ERROR_DEVICE_BUSY, msg = ''SGX device was busy.'', sug = None\<rparr>,
      \<lparr>err = SGX_ERROR_INVALID_VERSION, msg = ''Enclave version was invalid.'', sug = None\<rparr>,
      \<lparr>err = SGX_ERROR_INVALID_ATTRIBUTE, msg = ''Enclave was not authorized.'', sug = None\<rparr>,
      \<lparr>err = SGX_ERROR_ENCLAVE_FILE_ACCESS, msg = ''Can't open enclave file.'', sug = None\<rparr>]"

lemma errlists_agree:
  "gu_errlist = sgx_errlist" "sgx_app_errlist = sgx_errlist" "edge_errlist = sgx_errlist"
  by (simp_all only: sgx_errlist_def gu_errlist_def sgx_app_errlist_def edge_errlist_def)

section \<open>print\_error\_message\<close>

definition print_entry :: "sgx_errlist_t \<Rightarrow> event list" where
  "print_entry e =
     (case sug e of None \<Rightarrow> [] | Some t \<Rightarrow> [Print (''Info: %s'' @ nl) [AStr t]]) @
     [Print (''Error: %s'' @ nl) [AStr (msg e)]]"

text \<open>The loop: the index at which it stops and what it prints.\<close>

function search_errlist :: "sgx_errlist_t list \<Rightarrow> sgx_status \<Rightarrow> nat \<Rightarrow> nat \<times> event list" where
  "search_errlist tbl ret idx =
     (if idx < length tbl
      then if ret = err (tbl ! idx) then (idx, print_entry (tbl ! idx))
           else search_errlist tbl ret (idx + 1)
      else (idx, []))"
  by pat_completeness auto
termination by (relation "measure (\<lambda>(tbl, ret, idx). length tbl - idx)") auto

declare search_errlist.simps [simp del]

definition print_error_message_in :: "sgx_errlist_t list \<Rightarrow> (sgx_status \<Rightarrow> event) \<Rightarrow> sgx_status \<Rightarrow> event list" where
  "print_error_message_in tbl unknown ret =
     (let (idx, ev) = search_errlist tbl ret 0
      in if idx = length tbl then ev @ [unknown ret] else ev)"

text \<open>The three versions of \<open>server/exception\<close>, and that of \<open>server/edge-calls\<close>.\<close>

definition print_error_message :: "sgx_status \<Rightarrow> event list" where
  "print_error_message =
     print_error_message_in sgx_errlist (\<lambda>_. Print (''Error: Unexpected error occurred.'' @ nl) [])"

definition gu_print_error_message :: "sgx_status \<Rightarrow> event list" where
  "gu_print_error_message =
     print_error_message_in gu_errlist (\<lambda>_. Print (''Error: Unexpected error occurred.'' @ nl) [])"

definition sgx_print_error_message :: "sgx_status \<Rightarrow> event list" where
  "sgx_print_error_message =
     print_error_message_in sgx_app_errlist (\<lambda>_. Print (''Error: Unexpected error occurred.'' @ nl) [])"

definition edge_print_error_message :: "sgx_status \<Rightarrow> event list" where
  "edge_print_error_message =
     print_error_message_in edge_errlist
       (\<lambda>ret. Print (''Error code is 0x%X. Please refer to the \"Intel SGX SDK Developer Reference\" for more details.'' @ nl)
          [AStatus ret])"

section \<open>The search\<close>

lemma search_errlist_find:
  "idx \<le> length tbl \<Longrightarrow> search_errlist tbl ret idx =
     (case find (\<lambda>i. err (tbl ! i) = ret) [idx..<length tbl] of
        None \<Rightarrow> (length tbl, []) | Some i \<Rightarrow> (i, print_entry (tbl ! i)))"
proof (induction tbl ret idx rule: search_errlist.induct)
  case (1 tbl ret idx)
  then show ?case
    by (subst search_errlist.simps) (auto simp: upt_conv_Cons)
qed

locale error_table =
  fixes tbl :: "sgx_errlist_t list" and unknown :: "sgx_status \<Rightarrow> event"
  assumes distinct_codes: "distinct (map err tbl)"
begin

lemma known_code:
  assumes "e \<in> set tbl"
  shows "print_error_message_in tbl unknown (err e) = print_entry e"
proof -
  obtain i where i: "i < length tbl" "tbl ! i = e" using assms by (auto simp: in_set_conv_nth)
  have "err (tbl ! j) = err e \<longleftrightarrow> j = i" if "j < length tbl" for j
    using that i distinct_codes nth_eq_iff_index_eq [of "map err tbl" j i] by auto
  then have "find (\<lambda>j. err (tbl ! j) = err e) [0..<length tbl] = find (\<lambda>j. j = i) [0..<length tbl]"
    by (intro find_cong) auto
  also have "\<dots> = Some i"
    unfolding find_Some_iff using i(1) by (intro exI [of _ i]) simp
  finally show ?thesis
    using i by (simp add: print_error_message_in_def search_errlist_find)
qed

lemma unknown_code:
  assumes "ret \<notin> err ` set tbl"
  shows "print_error_message_in tbl unknown ret = [unknown ret]"
proof -
  have "find (\<lambda>j. err (tbl ! j) = ret) [0..<length tbl] = None"
    using assms by (auto simp: find_None_iff)
  then show ?thesis by (simp add: print_error_message_in_def search_errlist_find)
qed

lemma message_cases:
  "print_error_message_in tbl unknown ret = [unknown ret] \<or>
   (\<exists>e\<in>set tbl. print_error_message_in tbl unknown ret = print_entry e)"
  using known_code unknown_code by (cases "ret \<in> err ` set tbl") auto

end

lemma distinct_sgx_errlist: "distinct (map err sgx_errlist)"
  by (simp add: sgx_errlist_def)

interpretation exception_errs:
  error_table sgx_errlist "\<lambda>_. Print (''Error: Unexpected error occurred.'' @ nl) []"
  by unfold_locales (rule distinct_sgx_errlist)

interpretation edge_errs:
  error_table edge_errlist "\<lambda>ret. Print (''Error code is 0x%X. Please refer to the \"Intel SGX SDK Developer Reference\" for more details.'' @ nl)
          [AStatus ret]"
  by unfold_locales (simp only: errlists_agree distinct_sgx_errlist)

lemma error_messages_agree:
  "gu_print_error_message = print_error_message" "sgx_print_error_message = print_error_message"
  by (simp_all only: gu_print_error_message_def sgx_print_error_message_def print_error_message_def errlists_agree)

lemmas message_cases =
  exception_errs.message_cases [folded print_error_message_def]
  edge_errs.message_cases [folded edge_print_error_message_def]

lemma error_message_prints:
  "ev \<in> set (print_error_message ret) \<Longrightarrow> \<exists>fmt args. ev = Print fmt args"
  using message_cases(1) [of ret] by (auto simp: print_entry_def split: option.splits)

text \<open>Both versions of \<open>print_error_message\<close> print the suggestion and message of the code's
  own entry, whatever the order of the table, and exactly one fallback line for a code without
  an entry.\<close>

theorem print_error_message_entry:
  "(\<forall>e\<in>set sgx_errlist. print_error_message (err e) = print_entry e \<and>
      edge_print_error_message (err e) = print_entry e) \<and>
   (\<forall>ret. ret \<notin> err ` set sgx_errlist \<longrightarrow>
      length (print_error_message ret) = 1 \<and> edge_print_error_message ret \<noteq> print_error_message ret \<and>
      length (edge_print_error_message ret) = 1)"
  using exception_errs.known_code edge_errs.known_code [unfolded errlists_agree]
    exception_errs.unknown_code edge_errs.unknown_code [unfolded errlists_agree]
  by (simp add: print_error_message_def edge_print_error_message_def errlists_agree)

theorem print_error_message_entry_witness:
  "print_error_message SGX_ERROR_NO_DEVICE =
     [Print (''Info: %s'' @ nl)
        [AStr ''Please make sure SGX module is enabled in the BIOS, and install SGX driver afterwards.''],
      Print (''Error: %s'' @ nl) [AStr ''Invalid SGX device.'']] \<and>
   length (print_error_message SGX_SUCCESS) = 1"
proof -
  have e: "sgx_errlist ! 8 \<in> set sgx_errlist" by (rule nth_mem) (simp add: sgx_errlist_def)
  have s: "SGX_SUCCESS \<notin> err ` set sgx_errlist" by (simp add: sgx_errlist_def)
  show ?thesis
    using conjunct1 [OF print_error_message_entry] conjunct2 [OF print_error_message_entry] e s
    by (fastforce simp: print_entry_def sgx_errlist_def)
qed

end
