(* ===== verification/App.thy ===== *)
theory App
  imports ErrList
begin

text \<open>
  The untrusted side of \<open>server/exception\<close>: the three \<open>App/App.cpp\<close>.  Their functions have the
  same bodies, written here once over the two functions of the same file they call
  (\<open>app_file\<close>), and each file has its own instances; the three programs turn out the same.
  The enclave, the SDK and the clock are parameters (\<open>app_env\<close>); \<open>atoi\<close> and \<open>timersub\<close> are the
  C library's, by their documented behaviour.
\<close>

section \<open>atoi\<close>

definition is_space :: "char \<Rightarrow> bool" where
  "is_space c \<longleftrightarrow> c \<in> {CHR '' '', CHR 0x09, CHR 0x0A, CHR 0x0B, CHR 0x0C, CHR 0x0D}"

definition digit_val :: "char \<Rightarrow> int option" where
  "digit_val c =
     (let n = of_char c :: nat in if 48 \<le> n \<and> n \<le> 57 then Some (int n - 48) else None)"

primrec digits :: "string \<Rightarrow> int \<Rightarrow> int" where
  "digits [] acc = acc"
| "digits (c # cs) acc =
     (case digit_val c of None \<Rightarrow> acc | Some d \<Rightarrow> digits cs (10 * acc + d))"

text \<open>White space, a sign, digits.  A value out of range of \<open>int\<close> is undefined behaviour.\<close>

definition atoi :: "string \<Rightarrow> int option" where
  "atoi s =
     (let t = dropWhile is_space s;
          v = (case t of [] \<Rightarrow> 0
               | c # cs \<Rightarrow> if c = CHR ''-'' then - digits cs 0
                          else if c = CHR ''+'' then digits cs 0 else digits t 0)
      in if - (2 ^ 31) \<le> v \<and> v < 2 ^ 31 then Some v else None)"

section \<open>struct timeval\<close>

datatype timeval = Timeval (tv_sec: int) (tv_usec: int)

instantiation timeval :: linorder
begin

definition less_eq_timeval :: "timeval \<Rightarrow> timeval \<Rightarrow> bool" where
  "a \<le> b \<longleftrightarrow> tv_sec a < tv_sec b \<or> (tv_sec a = tv_sec b \<and> tv_usec a \<le> tv_usec b)"

definition less_timeval :: "timeval \<Rightarrow> timeval \<Rightarrow> bool" where
  "(a :: timeval) < b \<longleftrightarrow> a \<le> b \<and> \<not> b \<le> a"

instance
  by standard (auto simp: less_eq_timeval_def less_timeval_def timeval.expand)

end

definition timersub :: "timeval \<Rightarrow> timeval \<Rightarrow> timeval" where
  "timersub a b =
     (let sec = tv_sec a - tv_sec b; usec = tv_usec a - tv_usec b
      in if usec < 0 then Timeval (sec - 1) (usec + 1000000) else Timeval sec usec)"

section \<open>The App\<close>

text \<open>
  The result of \<open>sgx_create_enclave\<close>; the call of \<open>ecall_exception\<close>: its status, the
  value it returns and the lines it prints through \<open>ocall_print_string\<close>, or \<open>None\<close> if it never
  returns; the two readings of the clock.
\<close>

record app_env =
  create_result :: sgx_status
  ecall_exception_result :: "u32 \<Rightarrow> (sgx_status \<times> sgx_status \<times> string list) option"
  time_before :: timeval
  time_after :: timeval

definition ocall_rdtscp :: "u64 \<Rightarrow> u64 \<Rightarrow> u64" where
  "ocall_rdtscp lo hi = push_bit 32 hi OR lo"

text \<open>The functions of one file that the others call.\<close>

record app_file =
  report_error :: "sgx_status \<Rightarrow> event list"
  print_line :: "string \<Rightarrow> event list"

definition initialize_enclave_in :: "app_file \<Rightarrow> app_env \<Rightarrow> int \<times> event list" where
  "initialize_enclave_in F E =
     (let ev = [Sgx_call ''sgx_create_enclave'']
      in if create_result E \<noteq> SGX_SUCCESS then (-1, ev @ report_error F (create_result E))
         else (0, ev))"

definition benchmark_exception_ecall_in :: "app_file \<Rightarrow> app_env \<Rightarrow> u32 \<Rightarrow> (int \<times> event list) option" where
  "benchmark_exception_ecall_in F E nrepeats =
     map_option (\<lambda>(ret, retval, lines).
       let tval_before = time_before E; ev = concat (map (print_line F) lines)
       in if ret \<noteq> SGX_SUCCESS then (-1, ev @ report_error F ret)
         else if retval \<noteq> SGX_SUCCESS then (-1, ev @ report_error F retval)
         else let tval_result = timersub (time_after E) tval_before
              in (0, ev @ [Print (''Time elapsed: %ld.%06ld seconds'' @ nl)
                             [ALong (tv_sec tval_result), ALong (tv_usec tval_result)]]))
       (ecall_exception_result E nrepeats)"

text \<open>
  \<open>None\<close> is undefined behaviour of \<open>atoi\<close>, or a benchmark that never returns.  The test
  \<open>nrepeats <= 0\<close> is on an unsigned integer.
\<close>

definition app_main_in :: "app_file \<Rightarrow> app_env \<Rightarrow> string list \<Rightarrow> (int \<times> event list) option" where
  "app_main_in F E argv =
     Option.bind (if length argv = 2 then map_option word_of_int (atoi (argv ! 1)) else Some 0)
       (\<lambda>nrepeats :: u32.
          if length argv \<noteq> 2 \<or> nrepeats \<le> 0
            then Some (-1, [Print (''Usage: %s <NUM_OF_EXCEPTION>'' @ nl)
                         [AStr (case argv of [] \<Rightarrow> ''(null)'' | a # _ \<Rightarrow> a)]])
            else let (r, ev) = initialize_enclave_in F E
                 in if r < 0
                    then Some (-1, ev @ [Print (''Error: enclave initialization failed'' @ nl) []])
                    else map_option (\<lambda>(r, lines).
                             (0, ev @ [Print (''N = %d'' @ nl) [AInt (sint nrepeats)]] @ lines @
                                [Print (''Done.'' @ nl) [], Sgx_call ''sgx_destroy_enclave'']))
                           (benchmark_exception_ecall_in F E nrepeats))"

subsection \<open>exception\_p\_enclave/App/App.cpp\<close>

definition ocall_print_string :: "string \<Rightarrow> event list" where
  "ocall_print_string str = [Print ''%s'' [AStr str]]"

definition p_file :: app_file where
  "p_file = \<lparr>report_error = print_error_message, print_line = ocall_print_string\<rparr>"

definition initialize_enclave :: "app_env \<Rightarrow> int \<times> event list" where
  "initialize_enclave = initialize_enclave_in p_file"

definition benchmark_exception_ecall :: "app_env \<Rightarrow> u32 \<Rightarrow> (int \<times> event list) option" where
  "benchmark_exception_ecall = benchmark_exception_ecall_in p_file"

definition app_main :: "app_env \<Rightarrow> string list \<Rightarrow> (int \<times> event list) option" where
  "app_main = app_main_in p_file"

subsection \<open>exception\_gu\_enclave/App/App.cpp\<close>

definition gu_ocall_print_string :: "string \<Rightarrow> event list" where
  "gu_ocall_print_string str = [Print ''%s'' [AStr str]]"

definition gu_file :: app_file where
  "gu_file = \<lparr>report_error = gu_print_error_message, print_line = gu_ocall_print_string\<rparr>"

definition gu_initialize_enclave :: "app_env \<Rightarrow> int \<times> event list" where
  "gu_initialize_enclave = initialize_enclave_in gu_file"

definition gu_benchmark_exception_ecall :: "app_env \<Rightarrow> u32 \<Rightarrow> (int \<times> event list) option" where
  "gu_benchmark_exception_ecall = benchmark_exception_ecall_in gu_file"

definition gu_app_main :: "app_env \<Rightarrow> string list \<Rightarrow> (int \<times> event list) option" where
  "gu_app_main = app_main_in gu_file"

subsection \<open>exception\_sgx/App/App.cpp\<close>

definition sgx_ocall_print_string :: "string \<Rightarrow> event list" where
  "sgx_ocall_print_string str = [Print ''%s'' [AStr str]]"

definition sgx_file :: app_file where
  "sgx_file = \<lparr>report_error = sgx_print_error_message, print_line = sgx_ocall_print_string\<rparr>"

definition sgx_initialize_enclave :: "app_env \<Rightarrow> int \<times> event list" where
  "sgx_initialize_enclave = initialize_enclave_in sgx_file"

definition sgx_benchmark_exception_ecall :: "app_env \<Rightarrow> u32 \<Rightarrow> (int \<times> event list) option" where
  "sgx_benchmark_exception_ecall = benchmark_exception_ecall_in sgx_file"

definition sgx_app_main :: "app_env \<Rightarrow> string list \<Rightarrow> (int \<times> event list) option" where
  "sgx_app_main = app_main_in sgx_file"

lemma files_agree: "gu_file = p_file" "sgx_file = p_file"
  by (simp_all add: p_file_def gu_file_def sgx_file_def error_messages_agree ocall_print_string_def
    gu_ocall_print_string_def sgx_ocall_print_string_def fun_eq_iff)

lemma apps_agree: "gu_app_main = app_main" "sgx_app_main = app_main"
  by (simp_all add: app_main_def gu_app_main_def sgx_app_main_def files_agree)

lemmas app_defs = app_main_def app_main_in_def initialize_enclave_def initialize_enclave_in_def
  benchmark_exception_ecall_def benchmark_exception_ecall_in_def p_file_def

section \<open>Elapsed time\<close>

definition timeval_ok :: "timeval \<Rightarrow> bool" where
  "timeval_ok t \<longleftrightarrow> 0 \<le> tv_usec t \<and> tv_usec t < 1000000"

definition usecs :: "timeval \<Rightarrow> int" where
  "usecs t = 1000000 * tv_sec t + tv_usec t"

text \<open>For two normalised readings in order the
  difference is normalised, not negative and equal to the difference in microseconds.\<close>

lemma timersub_exact:
  assumes "timeval_ok a" "timeval_ok b" "b \<le> a"
  shows "timeval_ok (timersub a b) \<and> 0 \<le> tv_sec (timersub a b) \<and>
    usecs (timersub a b) = usecs a - usecs b"
  using assms by (auto simp: timeval_ok_def timersub_def usecs_def less_eq_timeval_def Let_def)

section \<open>atoi reads back a decimal\<close>

lemma digit_val_char_of: "d < 10 \<Longrightarrow> digit_val (char_of (48 + d)) = Some (int d)"
  by (simp add: digit_val_def Let_def)

lemma digits_append_digit:
  assumes "\<forall>c\<in>set cs. digit_val c \<noteq> None"
  shows "digits (cs @ ds) acc = digits ds (digits cs acc)"
  using assms by (induction cs arbitrary: acc) (auto split: option.split)

lemma dec_digits: "c \<in> set (dec n) \<Longrightarrow> \<exists>d<10. c = char_of (48 + d :: nat)"
proof (induction n rule: dec.induct)
  case (1 n)
  show ?case
  proof (cases "n < 10")
    case True
    then show ?thesis using 1(2) by (subst (asm) dec.simps) auto
  next
    case False
    then have "c \<in> set (dec (n div 10)) \<or> c = char_of (48 + n mod 10)"
      using 1(2) by (subst (asm) dec.simps) auto
    then show ?thesis
    proof
      assume "c = char_of (48 + n mod 10)"
      then show ?thesis by (intro exI [of _ "n mod 10"]) simp
    qed (rule 1(1) [OF False])
  qed
qed

lemma digits_dec: "digits (dec n @ ds) 0 = digits ds (int n)" if "ds = [] \<or> digit_val (hd ds) = None"
  using that
proof (induction n arbitrary: rule: dec.induct)
  case (1 n)
  have all: "\<forall>c\<in>set (dec n). digit_val c \<noteq> None" for n
    using dec_digits digit_val_char_of by fastforce
  have stop: "digits ds acc = acc" for acc using 1(2) by (cases ds) auto
  show ?case
  proof (cases "n < 10")
    case True
    then show ?thesis by (subst dec.simps) (simp add: digit_val_char_of stop)
  next
    case False
    have "digits (dec (n div 10)) 0 = int (n div 10)"
      using 1(1) [OF False 1(2)] by (simp add: digits_append_digit [OF all] stop)
    moreover have "digit_val (char_of (48 + n mod 10)) = Some (int (n mod 10))"
      by (rule digit_val_char_of) simp
    moreover have "10 * int (n div 10) + int (n mod 10) = int n"
      by (metis mult_div_mod_eq of_nat_add of_nat_mult of_nat_numeral)
    ultimately show ?thesis
      using False by (subst dec.simps) (simp add: digits_append_digit [OF all] stop)
  qed
qed

lemma dec_first:
  obtains d cs where "dec n = char_of (48 + d :: nat) # cs" "d < 10"
proof -
  have "dec n \<noteq> []" by (subst dec.simps) simp
  then obtain c cs where "dec n = c # cs" by (cases "dec n") auto
  moreover obtain d where "d < 10" "c = char_of (48 + d :: nat)"
    using dec_digits [of c n] calculation by auto
  ultimately show ?thesis using that by blast
qed

lemma digit_char_not:
  assumes "digit_val c \<noteq> None"
  shows "\<not> is_space c" "c \<noteq> CHR ''-''" "c \<noteq> CHR ''+''"
  using assms by (auto simp: is_space_def digit_val_def)

text \<open>\<open>atoi\<close> reads back every number it is given in decimal, with leading white space, a
  sign and trailing text that does not start with a digit.\<close>

theorem atoi_dec:
  assumes "\<forall>c\<in>set ws. is_space c" "ds = [] \<or> digit_val (hd ds) = None" "n < 2 ^ 31"
  shows "atoi (ws @ dec n @ ds) = Some (int n) \<and> atoi (ws @ ''-'' @ dec n @ ds) = Some (- int n)"
proof -
  obtain d cs where d: "dec n = char_of (48 + d :: nat) # cs" "d < 10" by (rule dec_first)
  have "digit_val (char_of (48 + d)) \<noteq> None" using digit_val_char_of [OF d(2)] by simp
  note c = digit_char_not [OF this]
  have ws: "dropWhile is_space (ws @ x # xs) = x # xs" if "\<not> is_space x" for x xs
    using assms(1) that by (induction ws) auto
  have m: "\<not> is_space CHR ''-''" by (simp add: is_space_def)
  note dd = digits_dec [OF assms(2), of n, unfolded d(1) append_Cons]
  have stop: "digits ds (int n) = int n" using assms(2) by (cases ds) auto
  have "atoi (ws @ dec n @ ds) = Some (int n)"
    using assms(3) c by (simp add: atoi_def d(1) ws Let_def dd stop del: digits.simps)
  moreover have "atoi (ws @ ''-'' @ dec n @ ds) = Some (- int n)"
    using assms(3) by (simp add: atoi_def d(1) ws [OF m] Let_def dd stop del: digits.simps)
  ultimately show ?thesis by simp
qed

theorem atoi_dec_witness:
  "atoi ''  -204x'' = Some (- 204)"
proof -
  have "dec 204 = ''204''" by (simp add: dec.simps char_of_def bit_simps)
  moreover have "digit_val (CHR ''x'') = None" by (simp add: digit_val_def)
  ultimately show ?thesis
    using atoi_dec [of "''  ''" "''x''" 204] by (simp add: is_space_def)
qed

section \<open>main\<close>

lemma atoi_range: "atoi s = Some v \<Longrightarrow> - (2 ^ 31) \<le> v \<and> v < 2 ^ 31"
  by (simp add: atoi_def Let_def split: if_splits)

lemma word_of_int_zero:
  assumes "- (2 ^ 31) \<le> v" "v < 2 ^ 31"
  shows "(word_of_int v :: u32) = 0 \<longleftrightarrow> v = 0"
proof
  assume "(word_of_int v :: u32) = 0"
  then have "2 ^ 32 dvd v" by (simp add: word_of_int_eq_0_iff)
  then obtain k where "v = 2 ^ 32 * k" by (elim dvdE)
  then have k: "v = 4294967296 * k" by simp
  moreover have "- 2147483648 \<le> v" "v < 2147483648" using assms by simp_all
  ultimately have "- 1 < k" "k < 1" by linarith+
  then show "v = 0" using k by simp
qed simp

lemma app_main_run:
  assumes "length argv = 2" "atoi (argv ! 1) = Some v" "v \<noteq> 0" "create_result E = SGX_SUCCESS"
  shows "app_main E argv = map_option (\<lambda>(r, lines). (0,
      [Sgx_call ''sgx_create_enclave'', Print (''N = %d'' @ nl) [AInt v]] @ lines @
      [Print (''Done.'' @ nl) [], Sgx_call ''sgx_destroy_enclave'']))
    (benchmark_exception_ecall E (word_of_int v))"
proof -
  have r: "- (2 ^ 31) \<le> v" "v < 2 ^ 31" using atoi_range [OF assms(2)] by simp_all
  then have "sint (word_of_int v :: u32) = v"
    by (simp add: signed_of_int signed_take_bit_int_eq_self)
  then show ?thesis
    using assms word_of_int_zero [OF r] by (simp add: app_defs)
qed

lemma benchmark_no_sgx_call:
  assumes "benchmark_exception_ecall E n = Some (r, ev)"
  shows "Sgx_call c \<notin> set ev"
proof -
  have "Sgx_call c \<notin> set (print_error_message st)" for st
    using error_message_prints [of _ st] by fastforce
  then show ?thesis
    using assms by (auto simp: app_defs ocall_print_string_def Let_def split: if_splits)
qed

text \<open>C36: in all three Apps, with one argument, the exit status is decided by that argument and by the creation of
  the enclave alone: a negative count is accepted (it becomes a large unsigned one), and a
  benchmark that fails still ends with status 0 and \<open>Done.\<close>; an enclave that was created is
  destroyed last, and no other call is made to destroy one.\<close>

theorem app_main_status:
  assumes "length argv = 2" "atoi (argv ! 1) = Some v"
    and "ecall_exception_result E (word_of_int v) = Some (ret, retval, lines)"
    and "main \<in> {app_main, gu_app_main, sgx_app_main}"
  shows "\<exists>ev. main E argv =
      Some (if v = 0 \<or> create_result E \<noteq> SGX_SUCCESS then -1 else 0, ev) \<and>
    (Sgx_call ''sgx_destroy_enclave'' \<in> set ev \<longleftrightarrow> v \<noteq> 0 \<and> create_result E = SGX_SUCCESS) \<and>
    (v \<noteq> 0 \<longrightarrow> create_result E = SGX_SUCCESS \<longrightarrow>
      take 2 ev = [Sgx_call ''sgx_create_enclave'', Print (''N = %d'' @ nl) [AInt v]] \<and>
      drop (length ev - 2) ev = [Print (''Done.'' @ nl) [], Sgx_call ''sgx_destroy_enclave''])"
proof (cases "v \<noteq> 0 \<and> create_result E = SGX_SUCCESS")
  case True
  note main = assms(4) [unfolded apps_agree]
  obtain r ev where r: "benchmark_exception_ecall E (word_of_int v) = Some (r, ev)"
    using assms(3) by (fastforce simp: app_defs)
  show ?thesis
    using app_main_run [OF assms(1,2)] True benchmark_no_sgx_call [OF r] main by (simp add: r)
next
  case False
  have "Sgx_call c \<notin> set (print_error_message st)" for c st
    using error_message_prints [of _ st] by fastforce
  moreover have "atoi (argv ! Suc 0) = Some v" using assms(2) by simp
  moreover have "(word_of_int v :: u32) = 0 \<longleftrightarrow> v = 0"
    using atoi_range [OF assms(2)] word_of_int_zero by simp
  ultimately show ?thesis
    using False assms(4) [unfolded apps_agree] by (auto simp: app_defs assms(1))
qed

theorem app_main_status_witness:
  "\<exists>ev. sgx_app_main \<lparr>create_result = SGX_SUCCESS,
       ecall_exception_result = (\<lambda>n. Some (SGX_ERROR_ENCLAVE_LOST, SGX_SUCCESS, [])),
       time_before = Timeval 0 0, time_after = Timeval 0 0\<rparr> [''app'', ''-204''] = Some (0, ev) \<and>
     take 2 ev = [Sgx_call ''sgx_create_enclave'', Print (''N = %d'' @ nl) [AInt (- 204)]]"
proof -
  have "atoi ''-204'' = Some (- 204)"
    by (simp add: atoi_def is_space_def digit_val_def Let_def)
  then show ?thesis
    using app_main_status [of "[''app'', ''-204'']" "- 204" "\<lparr>create_result = SGX_SUCCESS,
       ecall_exception_result = (\<lambda>n. Some (SGX_ERROR_ENCLAVE_LOST, SGX_SUCCESS, [])),
       time_before = Timeval 0 0, time_after = Timeval 0 0\<rparr>" _ _ _ sgx_app_main] by auto
qed

end
