(* ===== verification/Systems.thy ===== *)
theory Systems
  imports PEnclaveMemory App
begin

text \<open>
  The three exception benchmarks as they are linked: the \<open>main\<close> of each \<open>App.cpp\<close> with the
  \<open>ecall_exception\<close> of its own enclave, down to the text on the terminal.

  Parameters: the C library's (\<open>libc\<close> and \<open>BUFSIZ\<close>) and the status an ecall reports when the
  enclave aborted.
\<close>

text \<open>
  The ecall as the App sees it: the lines come out through \<open>ocall_print_string\<close>.  \<open>None\<close> is an
  ecall that never returns or has undefined behaviour.
\<close>

definition enclave_call ::
  "libc \<Rightarrow> nat \<Rightarrow> sgx_status \<Rightarrow> ('s \<Rightarrow> event list) \<Rightarrow> ('s, sgx_status \<times> 's) run \<Rightarrow>
   (sgx_status \<times> sgx_status \<times> string list) option" where
  "enclave_call C bufsiz crashed printed r =
     Option.bind r (\<lambda>r. case r of
       Inl s \<Rightarrow> map_option (\<lambda>l. (crashed, SGX_SUCCESS, l)) (those (map (enclave_text C bufsiz) (printed s)))
     | Inr (st, s) \<Rightarrow> map_option (\<lambda>l. (SGX_SUCCESS, st, l)) (those (map (enclave_text C bufsiz) (printed s))))"

definition p_app where
  "p_app C bufsiz crashed E bufsz s A =
     app_main (A\<lparr>ecall_exception_result :=
       \<lambda>nrepeats. enclave_call C bufsiz crashed out (ecall_exception_sized E bufsz nrepeats s)\<rparr>)"

definition gu_app where
  "gu_app C bufsiz crashed M E bufsz s A =
     gu_app_main (A\<lparr>ecall_exception_result :=
       \<lambda>nrepeats. enclave_call C bufsiz crashed sdk_out (gu_ecall_exception M E bufsz nrepeats s)\<rparr>)"

definition sgx_app where
  "sgx_app C bufsiz crashed E s A =
     sgx_app_main (A\<lparr>ecall_exception_result :=
       \<lambda>nrepeats. enclave_call C bufsiz crashed sdk_out (sgx_ecall_exception E nrepeats s)\<rparr>)"

text \<open>The text on the terminal; \<open>None\<close> if a call has undefined behaviour.\<close>

fun shown :: "libc \<Rightarrow> event \<Rightarrow> string option" where
  "shown C (Print fmt args) = text_of C fmt args"
| "shown C ev = Some []"

definition terminal :: "libc \<Rightarrow> event list \<Rightarrow> string option" where
  "terminal C ev = map_option concat (those (map (shown C) ev))"

lemma terminal_simps:
  "terminal C [] = Some []"
  "terminal C (e # ev) = Option.bind (shown C e) (\<lambda>t. map_option ((@) t) (terminal C ev))"
  by (simp_all add: terminal_def map_option_case bind_eq_None_conv split: option.split)

lemma terminal_append:
  "terminal C (a @ b) = Option.bind (terminal C a) (\<lambda>t. map_option ((@) t) (terminal C b))"
  by (induction a) (simp_all add: terminal_simps option.map_comp o_def map_option_case split: option.split bind_splits)

lemma terminal_strings: "terminal C (concat (map ocall_print_string ls)) = Some (concat ls)"
proof (induction ls)
  case (Cons l ls)
  have "text_of C ''%s'' [AStr l] = Some l" using text_convs(8) [of C "[]" l "[]"] by simp
  then show ?case using Cons by (simp add: ocall_print_string_def terminal_simps)
qed (simp add: terminal_simps)

text \<open>Lines that fit are shown as they were printed in the enclave.\<close>

lemma delivered_terminal:
  assumes "delivered C bufsiz ev"
  shows "\<exists>ls. those (map (enclave_text C bufsiz) ev) = Some ls \<and> terminal C ev = Some (concat ls)"
  using assms
proof (induction ev)
  case (Cons e ev)
  then obtain ls t where "those (map (enclave_text C bufsiz) ev) = Some ls" "terminal C ev = Some (concat ls)"
    "shown C e = Some t" "enclave_text C bufsiz e = Some t"
    by (fastforce simp: delivered_def)
  then show ?case by (simp add: terminal_simps)
qed (simp add: terminal_simps)

definition elapsed_text :: "timeval \<Rightarrow> string" where
  "elapsed_text t = ''Time elapsed: '' @ show_int (sint (word_of_int (tv_sec t) :: u64)) @ ''.'' @
     pad False True 6 (show_int (sint (word_of_int (tv_usec t) :: u64))) @ '' seconds'' @ nl"

lemma elapsed_line:
  "text_of C (''Time elapsed: %ld.%06ld seconds'' @ nl) [ALong (tv_sec t), ALong (tv_usec t)] = Some (elapsed_text t)"
proof -
  let ?r = "''%06ld'' @ '' seconds'' @ nl"
  have "text_of C ('' seconds'' @ nl) [] = Some ('' seconds'' @ nl)"
    by (rule text_plain) (simp add: plain_def nl_def)
  then have "text_of C (''.'' @ ?r) [ALong (tv_usec t)] =
      Some (''.'' @ pad False True 6 (show_int (int_arg C (ALong (tv_usec t)))) @ '' seconds'' @ nl)"
    using text_append [of "''.''" C ?r "[ALong (tv_usec t)]"]
      text_convs(6) [of C "'' seconds'' @ nl" "tv_usec t" "[]"] by simp
  then show ?thesis
    using text_append [of "''Time elapsed: ''" C "''%ld'' @ ''.'' @ ?r" "[ALong (tv_sec t), ALong (tv_usec t)]"]
      text_convs(2) [of C "''.'' @ ?r" "tv_sec t" "[ALong (tv_usec t)]"] by (simp add: elapsed_text_def)
qed

lemma sint_arg: "int_arg C (AInt (sint (w :: u32))) = sint w"
  by simp

lemma count_lines_text:
  "terminal C (count_lines i u p) = Some (''Interrupt Count = '' @ show_int (sint i) @ nl @
     ''#UD Count = '' @ show_int (sint u) @ nl @ ''#PF Count = '' @ show_int (sint p) @ nl @ nl)"
  using line_texts(8) [of C "sint i"] line_texts(9) [of C "sint u"] line_texts(10) [of C "sint p"]
  by (simp add: count_lines_def terminal_simps sint_arg del: int_arg.simps)

definition report_text :: "libc \<Rightarrow> u64 \<Rightarrow> nat \<Rightarrow> string" where
  "report_text C t n = ''Total Time = '' @ show_int (sint t) @ '' (cycles)'' @ nl @
     ''Average time = '' @ show_dbl C 3 (dbl_div (rnd (real (unat t))) (real n)) @ '' (cycles)'' @ nl @ nl"

definition write_text :: "libc \<Rightarrow> u8 \<Rightarrow> nat \<Rightarrow> u64 \<Rightarrow> string" where
  "write_text C b n t = ''read OK: '' @ show_int (uint b) @ nl @ ''write OK'' @ nl @
     ''Write Count = '' @ show_int (sint (of_nat n :: u32)) @ nl @ report_text C t n"

definition ud_text :: "libc \<Rightarrow> u32 \<Rightarrow> u64 \<Rightarrow> string" where
  "ud_text C k t = ''test #UD OK'' @ nl @ ''Count = '' @ show_int (sint k) @ nl @ report_text C t (unat k)"

definition start_text :: string where
  "start_text = ''Starting...'' @ nl @ ''Register exception handler OK!'' @ nl"

definition roots_text :: "u64 \<Rightarrow> u64 \<Rightarrow> string" where
  "roots_text c rte = ''CR3 = 0x'' @ hex lower_hex (unat c) @ nl @ ''*CR3 = 0x'' @ hex lower_hex (unat rte) @ nl"

lemma report_lines_text: "terminal C (report_lines t n) = Some (report_text C t n)"
  using line_texts(6) [of C t] line_texts(7) [of C "dbl_div (rnd (real (unat t))) (real n)"]
  by (simp add: report_lines_def report_text_def terminal_simps)

lemma fixed_lines:
  "text_of C (''test #UD OK'' @ nl) [] = Some (''test #UD OK'' @ nl)"
  "text_of C (''write OK'' @ nl) [] = Some (''write OK'' @ nl)"
  "text_of C (''Starting...'' @ nl) [] = Some (''Starting...'' @ nl)"
  "text_of C (''Register exception handler OK!'' @ nl) [] = Some (''Register exception handler OK!'' @ nl)"
  "text_of C (''Done.'' @ nl) [] = Some (''Done.'' @ nl)"
  by (rule text_plain; simp add: plain_def nl_def)+

lemma ud_lines_text: "terminal C (ud_lines k t) = Some (ud_text C k t)"
  using line_texts(5) [of C "sint k"] report_lines_text [of C t "unat k"] fixed_lines(1) [of C]
  by (simp add: ud_lines_def ud_text_def terminal_simps sint_arg del: int_arg.simps)

lemma byte_arg: "int_arg C (AInt (uint (b :: u8))) = uint b"
proof -
  have "uint b < 2 ^ 8" "0 \<le> uint b" using uint_lt2p [of b] by simp_all
  then show ?thesis unfolding int_arg.simps signed_of_int of_int_eq_id id_apply
    by (intro signed_take_bit_int_eq_self order_trans [OF _ uint_ge_0]) simp_all
qed

lemma write_lines_text:
  "terminal C (Print (''read OK: %d'' @ nl) [AInt (uint b)] # write_lines n t) = Some (write_text C b n t)"
  using line_texts(3) [of C "uint b"] line_texts(4) [of C "int n"] report_lines_text [of C t n] fixed_lines(2) [of C]
  by (simp add: write_lines_def write_text_def terminal_simps byte_arg del: int_arg.simps) simp

lemma start_lines_text:
  "terminal C [Print (''Starting...'' @ nl) [], Print (''Register exception handler OK!'' @ nl) []] = Some start_text"
  using fixed_lines(3,4) [of C] by (simp add: start_text_def terminal_simps)

lemma setup_lines_text: "terminal C (setup_lines c rte) = Some (start_text @ roots_text c rte)"
  using fixed_lines(3,4) [of C] line_texts(1,2) [of C]
  by (simp add: setup_lines_def start_text_def roots_text_def terminal_simps)

lemma p_transcript_text:
  "terminal C (p_transcript c rte b n t1 k t2 s) = Some (start_text @ roots_text c rte @
     write_text C b n t1 @ ud_text C k t2 @
     ''Interrupt Count = '' @ show_int (sint (g_intr_count s)) @ nl @
     ''#UD Count = '' @ show_int (sint (g_ud_count s)) @ nl @ ''#PF Count = '' @ show_int (sint (g_pf_count s)) @ nl @ nl)"
proof -
  have "p_transcript c rte b n t1 k t2 s = setup_lines c rte @ (Print (''read OK: %d'' @ nl) [AInt (uint b)] # write_lines n t1) @
     ud_lines k t2 @ count_lines (g_intr_count s) (g_ud_count s) (g_pf_count s)"
    by (simp add: p_transcript_def)
  then show ?thesis
    by (simp only: terminal_append setup_lines_text write_lines_text ud_lines_text count_lines_text
      bind.bind_lunit option.map append_assoc)
qed

lemma gu_transcript_text:
  "terminal C (gu_transcript b n t1 k t2 u) = Some (start_text @ write_text C b n t1 @ ud_text C k t2 @
     ''#UD Count = '' @ show_int (sint u) @ nl)"
proof -
  have "gu_transcript b n t1 k t2 u =
     [Print (''Starting...'' @ nl) [], Print (''Register exception handler OK!'' @ nl) []] @
     (Print (''read OK: %d'' @ nl) [AInt (uint b)] # write_lines n t1) @
     ud_lines k t2 @ [Print (''#UD Count = %d'' @ nl) [AInt (sint u)]]"
    by (simp add: gu_transcript_def)
  moreover have "terminal C [Print (''#UD Count = %d'' @ nl) [AInt (sint u)]] = Some (''#UD Count = '' @ show_int (sint u) @ nl)"
    using line_texts(9) [of C "sint u"] by (simp add: terminal_simps sint_arg del: int_arg.simps)
  ultimately show ?thesis
    by (simp only: terminal_append start_lines_text write_lines_text ud_lines_text
      bind.bind_lunit option.map append_assoc)
qed

lemma app_main_enclave:
  assumes "length argv = 2" "atoi (argv ! 1) = Some v" "v \<noteq> 0" "create_result A = SGX_SUCCESS"
    and "f (word_of_int v) = Some (SGX_SUCCESS, SGX_SUCCESS, ls)"
  shows "\<exists>ev. app_main (A\<lparr>ecall_exception_result := f\<rparr>) argv = Some (0, ev) \<and>
    hd ev = Sgx_call ''sgx_create_enclave'' \<and> last ev = Sgx_call ''sgx_destroy_enclave'' \<and>
    terminal C ev = Some (''N = '' @ show_int v @ nl @ concat ls @
      elapsed_text (timersub (time_after A) (time_before A)) @ ''Done.'' @ nl)"
proof -
  let ?t = "timersub (time_after A) (time_before A)"
  let ?ev = "[Sgx_call ''sgx_create_enclave'', Print (''N = %d'' @ nl) [AInt v]] @
      concat (map ocall_print_string ls) @
      [Print (''Time elapsed: %ld.%06ld seconds'' @ nl) [ALong (tv_sec ?t), ALong (tv_usec ?t)],
       Print (''Done.'' @ nl) [], Sgx_call ''sgx_destroy_enclave'']"
  have m: "app_main (A\<lparr>ecall_exception_result := f\<rparr>) argv = Some (0, ?ev)"
    using assms app_main_run [of argv v "A\<lparr>ecall_exception_result := f\<rparr>"]
    by (simp add: app_defs Let_def)
  have "- (2 ^ 31) \<le> v" "v < 2 ^ 31" using atoi_range [OF assms(2)] by simp_all
  then have v: "int_arg C (AInt v) = v" by (simp add: signed_of_int signed_take_bit_int_eq_self)
  have "terminal C ?ev = Some (''N = '' @ show_int v @ nl @ concat ls @ elapsed_text ?t @ ''Done.'' @ nl)"
    unfolding terminal_append terminal_strings terminal_simps shown.simps line_texts(11) v elapsed_line fixed_lines(5)
    by simp
  then show ?thesis using m by (intro exI [of _ ?ev]) simp
qed

text \<open>C7: the P-Enclave's benchmark program, run with a count \<open>v\<close> on a mapped buffer, creates the
  enclave first, completes \<open>ecall_exception\<close> with one \<open>#UD\<close> per repetition and one page fault per
  page (and per page that was read-only before), destroys the enclave last and exits with
  status 0.  The text on the terminal is fixed but for the two times: the count, the values of
  CR3 and of the root entry, the byte read back (0), the reports of the writes and of the
  \<open>ud2\<close>s, the counters, the elapsed time and \<open>Done.\<close>\<close>

theorem p_app_completes:
  assumes "link_ok E" "space_before D s" "buffer_ok E n D" "out s = []"
    and "length argv = 2" "atoi (argv ! 1) = Some v" "v \<noteq> 0" "create_result A = SGX_SUCCESS"
    and "256 \<le> bufsiz" "length (nan_text C) \<le> 4"
  shows "\<exists>ev t1 t2. p_app C bufsiz crashed E (4096 * n) s A argv = Some (0, ev) \<and>
    hd ev = Sgx_call ''sgx_create_enclave'' \<and> last ev = Sgx_call ''sgx_destroy_enclave'' \<and>
    terminal C ev = Some (''N = '' @ show_int v @ nl @
      start_text @ roots_text (cr3 s) (deref s (phys_to_virt (cr3 s))) @
      write_text C 0 n t1 @ ud_text C (word_of_int v) t2 @
      ''Interrupt Count = '' @ show_int (sint (g_intr_count s)) @ nl @
      ''#UD Count = '' @ show_int (sint (g_ud_count s + word_of_int v)) @ nl @
      ''#PF Count = '' @ show_int (sint (g_pf_count s + of_nat n +
         of_nat (length (filter (\<lambda>p. \<not> page_writable (cr3 s) s p) (pages (test_buf E) n))))) @ nl @ nl @
      elapsed_text (timersub (time_after A) (time_before A)) @ ''Done.'' @ nl)"
proof -
  let ?f = "\<lambda>nrepeats. enclave_call C bufsiz crashed out (ecall_exception_sized E (4096 * n) nrepeats s)"
  obtain s' where s': "ecall_exception_sized E (4096 * n) (word_of_int v) s = Some (Inr (SGX_SUCCESS, s'))"
    "g_pf_count s' = g_pf_count s + of_nat n +
       of_nat (length (filter (\<lambda>p. \<not> page_writable (cr3 s) s p) (pages (test_buf E) n)))"
    "g_ud_count s' = g_ud_count s + word_of_int v" "g_intr_count s' = g_intr_count s"
    using ecall_exception_run [OF assms(1-3), of "word_of_int v"] by blast
  obtain b t1 t2 where o: "out s' = p_transcript (cr3 s) (deref s (phys_to_virt (cr3 s))) b n t1 (word_of_int v) t2 s'"
    using ecall_transcript [OF s'(1)] assms(4) by auto
  have "Print (''read OK: %d'' @ nl) [AInt 0] \<in> set (out s')"
    by (rule ecall_exception_memory_run(3) [OF assms(1-3) s'(1)])
  then have b: "b = 0"
    by (auto simp: o p_transcript_def setup_lines_def write_lines_def ud_lines_def count_lines_def report_lines_def nl_def
      uint_0_iff)
  obtain ls where ls: "those (map (enclave_text C bufsiz) (out s')) = Some ls" "terminal C (out s') = Some (concat ls)"
    unfolding o using delivered_terminal [OF line_ok_delivered [OF assms(9) p_transcript_ok [OF assms(10)]]] by blast
  have pre: "concat ls = start_text @ roots_text (cr3 s) (deref s (phys_to_virt (cr3 s))) @
     write_text C 0 n t1 @ ud_text C (word_of_int v) t2 @
     ''Interrupt Count = '' @ show_int (sint (g_intr_count s')) @ nl @
     ''#UD Count = '' @ show_int (sint (g_ud_count s')) @ nl @ ''#PF Count = '' @ show_int (sint (g_pf_count s')) @ nl @ nl"
    using ls(2) unfolding o p_transcript_text b by simp
  have f: "?f (word_of_int v) = Some (SGX_SUCCESS, SGX_SUCCESS, ls)"
    by (simp add: s'(1) enclave_call_def ls(1))
  obtain ev where "app_main (A\<lparr>ecall_exception_result := ?f\<rparr>) argv = Some (0, ev)"
    "hd ev = Sgx_call ''sgx_create_enclave''" "last ev = Sgx_call ''sgx_destroy_enclave''"
    "terminal C ev = Some (''N = '' @ show_int v @ nl @ concat ls @
      elapsed_text (timersub (time_after A) (time_before A)) @ ''Done.'' @ nl)"
    using app_main_enclave [OF assms(5-8), of ?f ls C] f by blast
  then show ?thesis unfolding p_app_def pre s'(2-4) append_assoc by blast
qed

definition demo_app_env :: app_env where
  "demo_app_env = \<lparr>create_result = SGX_SUCCESS, ecall_exception_result = \<lambda>n. None,
     time_before = Timeval 10 999990, time_after = Timeval 12 5\<rparr>"

lemma demo_atoi: "atoi ''5'' = Some 5"
  by (simp add: atoi_def is_space_def digit_val_def Let_def)

theorem p_app_completes_witness:
  "\<exists>ev t1 t2 pf. p_app demo_libc 1024 SGX_ERROR_ENCLAVE_LOST demo_env (4096 * 2) demo_penclave demo_app_env [''app'', ''5''] =
     Some (0, ev) \<and> terminal demo_libc ev = Some (''N = 5'' @ nl @
       start_text @ roots_text 0x1000 (deref demo_penclave (phys_to_virt 0x1000)) @
       write_text demo_libc 0 2 t1 @ ud_text demo_libc 5 t2 @ ''Interrupt Count = 0'' @ nl @
       ''#UD Count = 5'' @ nl @ ''#PF Count = '' @ show_int pf @ nl @ nl @
       ''Time elapsed: 1.000015 seconds'' @ nl @ ''Done.'' @ nl)"
proof -
  have d: "dec 15 = ''15''" "dec 1 = ''1''" by (simp_all add: dec.simps char_of_def bit_simps)
  have "timersub (time_after demo_app_env) (time_before demo_app_env) = Timeval 1 15"
    by (simp add: demo_app_env_def timersub_def)
  moreover have "elapsed_text (Timeval 1 15) = ''Time elapsed: 1.000015 seconds'' @ nl"
    using d by (simp add: elapsed_text_def show_int_def pad_def) (simp add: numeral_eq_Suc)
  ultimately have t: "elapsed_text (timersub (time_after demo_app_env) (time_before demo_app_env)) =
      ''Time elapsed: 1.000015 seconds'' @ nl" by simp
  have n: "show_int 5 = ''5''" "show_int 0 = ''0''"
    by (simp_all add: show_int_def dec.simps char_of_def bit_simps)
  have a: "length [''app'', ''5''] = 2" "atoi ([''app'', ''5''] ! 1) = Some 5" "(5 :: int) \<noteq> 0"
    "create_result demo_app_env = SGX_SUCCESS" "(256 :: nat) \<le> 1024" "length (nan_text demo_libc) \<le> 4"
    by (simp_all add: demo_atoi demo_app_env_def demo_libc_def)
  have "out demo_penclave = []" by simp
  from p_app_completes [OF demo_link demo_space demo_buffer this a, of SGX_ERROR_ENCLAVE_LOST, unfolded t]
  obtain ev t1 t2 pf where "p_app demo_libc 1024 SGX_ERROR_ENCLAVE_LOST demo_env (4096 * 2) demo_penclave demo_app_env
      [''app'', ''5''] = Some (0, ev)"
    "terminal demo_libc ev = Some (''N = '' @ show_int 5 @ nl @
      start_text @ roots_text (cr3 demo_penclave) (deref demo_penclave (phys_to_virt (cr3 demo_penclave))) @
      write_text demo_libc 0 2 t1 @ ud_text demo_libc (word_of_int 5) t2 @ ''Interrupt Count = '' @ show_int (sint (g_intr_count demo_penclave)) @ nl @
      ''#UD Count = '' @ show_int (sint (g_ud_count demo_penclave + word_of_int 5)) @ nl @
      ''#PF Count = '' @ show_int pf @ nl @ nl @ (''Time elapsed: 1.000015 seconds'' @ nl) @ ''Done.'' @ nl)"
    by blast
  then show ?thesis by (intro exI [of _ ev] exI [of _ t1] exI [of _ t2] exI [of _ pf]) (simp add: n)
qed

section \<open>The SGX and the GU-Enclave program\<close>

lemma ud2_lines_eq: "ud2_lines E ov k n = ud_lines k (sdk_tsc E (n + 1) - sdk_tsc E n - ov)"
  by (simp add: ud2_lines_def ud_lines_def report_lines_def Let_def)

text \<open>C26: the SGX benchmark program, given a handler that is registered and a \<open>ud2\<close> that raises
  \<open>#UD\<close>, ends with status 0 for every count but 0, and this is its terminal text: the count
  twice, the time between the two readings of the clock less the overhead, the average and
  the elapsed time.\<close>

theorem sgx_app_completes:
  assumes "exception_vector (sdk_ud_info E) = 6" "reg_result E \<noteq> 0" "sdk_out s = []"
    and "length argv = 2" "atoi (argv ! 1) = Some v" "v \<noteq> 0" "create_result A = SGX_SUCCESS"
    and "256 \<le> bufsiz" "length (nan_text C) \<le> 4"
  shows "\<exists>ev. sgx_app C bufsiz crashed E s A argv = Some (0, ev) \<and>
    hd ev = Sgx_call ''sgx_create_enclave'' \<and> last ev = Sgx_call ''sgx_destroy_enclave'' \<and>
    terminal C ev = Some (''N = '' @ show_int v @ nl @
      ud_text C (word_of_int v) (sdk_tsc E (sdk_rdtscs s + 1) - sdk_tsc E (sdk_rdtscs s) - 12432) @
      elapsed_text (timersub (time_after A) (time_before A)) @ ''Done.'' @ nl)"
proof -
  let ?k = "word_of_int v :: u32" and ?t = "sdk_tsc E (sdk_rdtscs s + 1) - sdk_tsc E (sdk_rdtscs s) - 12432"
  let ?f = "\<lambda>nrepeats. enclave_call C bufsiz crashed sdk_out (sgx_ecall_exception E nrepeats s)"
  obtain s1 where s1: "sdk_ud2_test sgx_exception_handler E 12432 ?k (s\<lparr>registered := True\<rparr>) = Some (Inr s1)"
    "sdk_out s1 = ud_lines ?k ?t"
    using sdk_ud2_test_ok [of sgx_exception_handler E "s\<lparr>registered := True\<rparr>" 12432 ?k] assms(1,3)
    by (auto simp: ud2_lines_eq)
  obtain ls where ls: "those (map (enclave_text C bufsiz) (ud_lines ?k ?t)) = Some ls" "terminal C (ud_lines ?k ?t) = Some (concat ls)"
    using delivered_terminal [OF line_ok_delivered [OF assms(8) sdk_transcripts_ok(2) [OF assms(9)]]] by blast
  have "?f ?k = Some (SGX_SUCCESS, SGX_SUCCESS, ls)"
    using assms(2) s1 ls(1) by (simp add: sgx_ecall_exception_def enclave_call_def)
  from app_main_enclave [OF assms(4-7), of ?f, OF this, of C]
  show ?thesis using ls(2) by (simp add: ud_lines_text sgx_app_def apps_agree)
qed

text \<open>
  The readings behind the run that the README of the benchmark shows for Intel SGX; the text
  below is that of the README, with the elapsed time, which the README leaves out.
\<close>

definition readme_sdk_env :: sdk_env where
  "readme_sdk_env = demo_sdk_env\<lparr>sdk_tsc := (\<lambda>n. (27842316540 + 12432) * of_nat n)\<rparr>"

lemma readme_average: "show_dbl C 3 (dbl_div (rnd 27842316540) 1000000) = ''27842.317''"
proof -
  let ?a = "real_of_int (27842 * 2 ^ 20 + 331916) * 2 powi (-20)"
  let ?b = "real_of_int (27842 * 2 ^ 20 + 331917) * 2 powi (-20)"
  let ?x = "27842316540 / 1000000 :: real"
  have e: "rnd 27842316540 = 27842316540" using rnd_representable [OF representable_nat [of 27842316540]] by simp
  have "rnd ?a \<le> rnd ?x" "rnd ?x \<le> rnd ?b" by (intro rnd_mono_real; simp add: power_int_minus field_simps)+
  moreover have "rnd ?a = ?a" by (rule rnd_representable) (unfold representable_def, rule exI, rule exI [of _ "-20"], rule conjI [OF refl], simp)
  moreover have "rnd ?b = ?b" by (rule rnd_representable) (unfold representable_def, rule exI, rule exI [of _ "-20"], rule conjI [OF refl], simp)
  ultimately have ab: "?a \<le> rnd ?x" "rnd ?x \<le> ?b" by simp_all
  then have pos: "0 \<le> rnd ?x" "rnd ?x < 100000" by (simp_all add: power_int_minus field_simps)
  have "round_even (?a * 1000) = 27842317" "round_even (?b * 1000) = 27842317"
    by (simp_all add: round_even_def Let_def power_int_minus floor_eq_iff)
  then have "round_even (rnd ?x * 1000) = 27842317"
    using round_even_mono [of "?a * 1000" "rnd ?x * 1000"] round_even_mono [of "rnd ?x * 1000" "?b * 1000"] ab by simp
  then show ?thesis using pos
    by (simp add: e dbl_div_def to_dbl_def show_dbl_def Let_def dec.simps char_of_def bit_simps pad_def)
qed

lemma readme_atoi: "atoi ''1000000'' = Some 1000000"
  by (simp add: atoi_def is_space_def digit_val_def Let_def)

lemma readme_text:
  "ud_text C 1000000 27842316540 = ''test #UD OK'' @ nl @ ''Count = 1000000'' @ nl @
     ''Total Time = 27842316540 (cycles)'' @ nl @ ''Average time = 27842.317 (cycles)'' @ nl @ nl"
  using readme_average [of C] by (simp add: ud_text_def report_text_def show_int_def dec.simps char_of_def bit_simps)

theorem sgx_app_completes_witness:
  "\<exists>ev. sgx_app demo_libc 8192 SGX_ERROR_ENCLAVE_LOST readme_sdk_env (demo_sdk_state ()) demo_app_env [''app'', ''1000000''] =
     Some (0, ev) \<and> terminal demo_libc ev = Some (''N = 1000000'' @ nl @ ''test #UD OK'' @ nl @
       ''Count = 1000000'' @ nl @ ''Total Time = 27842316540 (cycles)'' @ nl @
       ''Average time = 27842.317 (cycles)'' @ nl @ nl @
       elapsed_text (timersub (Timeval 12 5) (Timeval 10 999990)) @ ''Done.'' @ nl)"
proof -
  have n: "show_int 1000000 = ''1000000''" by (simp add: show_int_def dec.simps char_of_def bit_simps)
  obtain ev where ev: "sgx_app demo_libc 8192 SGX_ERROR_ENCLAVE_LOST readme_sdk_env (demo_sdk_state ()) demo_app_env [''app'', ''1000000''] =
       Some (0, ev)"
     "terminal demo_libc ev = Some (''N = 1000000'' @ nl @ ud_text demo_libc 1000000 27842316540 @
       elapsed_text (timersub (Timeval 12 5) (Timeval 10 999990)) @ ''Done.'' @ nl)"
    using sgx_app_completes [of readme_sdk_env "demo_sdk_state ()" "[''app'', ''1000000'']" 1000000 demo_app_env 8192 demo_libc
        SGX_ERROR_ENCLAVE_LOST]
    by (auto simp: readme_sdk_env_def demo_sdk_env_def demo_sdk_state_def readme_atoi demo_app_env_def demo_libc_def n)
  show ?thesis using ev unfolding readme_text append_assoc by blast
qed

text \<open>C25: the GU-Enclave's benchmark program, with a monitor that completes the accesses to the buffer
  and accepts the protection hypercall, ends with status 0.  The text on the terminal is fixed
  but for the byte read back and the two times: the reports of the writes and of the \<open>ud2\<close>s, the
  count of them and the elapsed time.\<close>

theorem gu_app_completes:
  assumes "services_ok M minv buf_addr" "minv (monitor s)" "\<forall>a\<in>set (gu_pages E bufsz). buf_addr a"
    and "buf_addr (sdk_test_buf E)" "exception_vector (sdk_ud_info E) = 6" "reg_result E \<noteq> 0" "sdk_out s = []"
    and "length argv = 2" "atoi (argv ! 1) = Some v" "v \<noteq> 0" "create_result A = SGX_SUCCESS"
    and "256 \<le> bufsiz" "length (nan_text C) \<le> 4"
  shows "\<exists>ev b t1 t2. gu_app C bufsiz crashed M E bufsz s A argv = Some (0, ev) \<and>
    hd ev = Sgx_call ''sgx_create_enclave'' \<and> last ev = Sgx_call ''sgx_destroy_enclave'' \<and>
    terminal C ev = Some (''N = '' @ show_int v @ nl @ start_text @
      write_text C b (bufsz div 4096) t1 @ ud_text C (word_of_int v) t2 @
      ''#UD Count = '' @ show_int (sint (sdk_ud_count s + word_of_int v)) @ nl @
      elapsed_text (timersub (time_after A) (time_before A)) @ ''Done.'' @ nl)"
proof -
  let ?k = "word_of_int v :: u32"
  let ?f = "\<lambda>nrepeats. enclave_call C bufsiz crashed sdk_out (gu_ecall_exception M E bufsz nrepeats s)"
  obtain s' where s': "gu_ecall_exception M E bufsz ?k s = Some (Inr (SGX_SUCCESS, s'))"
    "sdk_ud_count s' = sdk_ud_count s + ?k"
    using gu_ecall_exception_run [OF assms(1-5), of ?k] assms(6) by auto
  obtain b t1 t2 where o: "sdk_out s' = gu_transcript b (bufsz div 4096) t1 ?k t2 (sdk_ud_count s')"
    using gu_ecall_transcript [OF s'(1)] assms(7) by auto
  obtain ls where ls: "those (map (enclave_text C bufsiz) (sdk_out s')) = Some ls" "terminal C (sdk_out s') = Some (concat ls)"
    unfolding o using delivered_terminal [OF line_ok_delivered [OF assms(12) sdk_transcripts_ok(1) [OF assms(13)]]] by blast
  have c: "concat ls = start_text @ write_text C b (bufsz div 4096) t1 @ ud_text C ?k t2 @
     ''#UD Count = '' @ show_int (sint (sdk_ud_count s')) @ nl"
    using ls(2) unfolding o gu_transcript_text by simp
  have "?f ?k = Some (SGX_SUCCESS, SGX_SUCCESS, ls)"
    by (simp add: s'(1) enclave_call_def ls(1))
  from app_main_enclave [OF assms(8-11), of ?f, OF this, of C]
  show ?thesis unfolding gu_app_def apps_agree c s'(2) append_assoc by blast
qed

theorem gu_app_completes_witness:
  "\<exists>ev b t1 t2. gu_app demo_libc 8192 SGX_ERROR_ENCLAVE_LOST demo_services demo_sdk_env 8192 (demo_sdk_state (\<lambda>_. 0))
       demo_app_env [''app'', ''5''] = Some (0, ev) \<and>
     terminal demo_libc ev = Some (''N = 5'' @ nl @ start_text @ write_text demo_libc b 2 t1 @
       ud_text demo_libc 5 t2 @ ''#UD Count = 5'' @ nl @
       elapsed_text (timersub (Timeval 12 5) (Timeval 10 999990)) @ ''Done.'' @ nl)"
proof -
  have n: "show_int 5 = ''5''" by (simp add: show_int_def dec.simps char_of_def bit_simps)
  have "services_ok demo_services (\<lambda>_. True) (\<lambda>_. True)"
    by (simp add: services_ok_def demo_services_def)
  from gu_app_completes [OF this, where s = "demo_sdk_state (\<lambda>_. 0)" and E = demo_sdk_env and bufsz = 8192
      and argv = "[''app'', ''5'']" and v = 5 and A = demo_app_env and bufsiz = 8192 and C = demo_libc
      and crashed = SGX_ERROR_ENCLAVE_LOST]
  obtain ev b t1 t2 where "gu_app demo_libc 8192 SGX_ERROR_ENCLAVE_LOST demo_services demo_sdk_env 8192 (demo_sdk_state (\<lambda>_. 0))
       demo_app_env [''app'', ''5''] = Some (0, ev)"
     "terminal demo_libc ev = Some (''N = '' @ show_int 5 @ nl @ start_text @ write_text demo_libc b 2 t1 @
       ud_text demo_libc 5 t2 @ ''#UD Count = '' @ show_int 5 @ nl @
       elapsed_text (timersub (Timeval 12 5) (Timeval 10 999990)) @ ''Done.'' @ nl)"
    by (auto simp: demo_sdk_env_def demo_sdk_state_def demo_atoi demo_app_env_def demo_libc_def)
  then show ?thesis by (intro exI [of _ ev] exI [of _ b] exI [of _ t1] exI [of _ t2]) (simp add: n)
qed

end
