(* ===== verification/Machine.thy ===== *)
theory Machine
  imports PEnclaveRun
begin

text \<open>
  The P-Enclave's \<open>ecall_exception\<close> on the processor: every \<open>#PF\<close> and \<open>#UD\<close> is delivered
  through the gate in memory to its stub, runs the instructions of \<open>exception.S\<close> around the
  compiled handler and returns by \<open>iretq\<close>.  The whole run refines the one of \<open>PEnclave\<close>, in
  which the handler is called with a frame as a record.

  The compiled code between the stores and between the \<open>ud2\<close>s is a parameter (\<open>code\<close>): it may
  change registers, flags and memory but for the stack pointer and the descriptor table
  (\<open>code_ok\<close>).  The table lies in the memory of the stack; the code's other data is the
  \<open>world\<close>, as in \<open>PEnclave\<close>.
\<close>

section \<open>Exceptions on the processor\<close>

text \<open>\<open>None\<close>: no usable gate, or a gate that leads to no stub; \<open>Inl\<close>: the handler aborted.\<close>

definition interrupt :: "env \<Rightarrow> abi \<Rightarrow> u64 \<Rightarrow> nat \<Rightarrow> penclave cpu \<Rightarrow> (penclave cpu, penclave cpu) run" where
  "interrupt E ab err v c =
     (case raise_vector (entries E) (as_c_handler handle_frame) ab stub_expects_err err (idt_reg (world c)) v c of
        None \<Rightarrow> None
      | Some Aborted \<Rightarrow> Some (Inl c)
      | Some (Ret c') \<Rightarrow> Some (Inr c'))"

definition cpu_store8 :: "penclave cpu \<Rightarrow> u64 \<Rightarrow> u8 \<Rightarrow> penclave cpu access" where
  "cpu_store8 c v b =
     (case mmu_store8 (world c) v b of
        Done s \<Rightarrow> Done (c\<lparr>world := s\<rparr>)
      | Fault s \<Rightarrow> Fault (c\<lparr>world := s\<rparr>))"

text \<open>A write that violates the protection of a present page has the error code 3.\<close>

definition cpu_serve :: "env \<Rightarrow> abi \<Rightarrow> penclave cpu \<Rightarrow> (penclave cpu, penclave cpu) run" where
  "cpu_serve E ab c =
     and_then (interrupt E ab 3 14 c) (\<lambda>c'. if rip c' = rip c then Some (Inr c') else None)"

primrec cpu_stores ::
  "env \<Rightarrow> abi \<Rightarrow> (u64 \<Rightarrow> penclave cpu \<Rightarrow> penclave cpu) \<Rightarrow> u8 \<Rightarrow> u64 list \<Rightarrow> penclave cpu \<Rightarrow> (penclave cpu, penclave cpu) run"
where
  "cpu_stores E ab code b [] c = Some (Inr c)"
| "cpu_stores E ab code b (v # vs) c =
     and_then (store_retry cpu_store8 (cpu_serve E ab) v b (code v c)) (cpu_stores E ab code b vs)"

text \<open>A \<open>ud2\<close> is executed again if the handler leaves its address.\<close>

partial_function (option) cpu_ud2 :: "env \<Rightarrow> abi \<Rightarrow> penclave cpu \<Rightarrow> (penclave cpu, penclave cpu) run" where
  "cpu_ud2 E ab c =
     (case interrupt E ab 0 6 c of
        None \<Rightarrow> None
      | Some (Inl a) \<Rightarrow> Some (Inl a)
      | Some (Inr c') \<Rightarrow> if rip c' = rip c then cpu_ud2 E ab c' else Some (Inr c'))"

primrec cpu_ud2s ::
  "env \<Rightarrow> abi \<Rightarrow> (nat \<Rightarrow> penclave cpu \<Rightarrow> penclave cpu) \<Rightarrow> nat \<Rightarrow> penclave cpu \<Rightarrow> (penclave cpu, penclave cpu) run"
where
  "cpu_ud2s E ab code 0 c = Some (Inr c)"
| "cpu_ud2s E ab code (Suc n) c =
     and_then (cpu_ud2 E ab (code n c))
       (\<lambda>c'. if rip c' = rip (code n c) + 2 then cpu_ud2s E ab code n c' else None)"

section \<open>What the compiled code and the stack have to respect\<close>

definition code_ok :: "env \<Rightarrow> (penclave cpu \<Rightarrow> penclave cpu) \<Rightarrow> bool" where
  "code_ok E f \<longleftrightarrow> (\<forall>c. world (f c) = world c \<and> gpr (f c) RSP = gpr c RSP \<and>
     (\<forall>k<4096. stk (f c) (idt_addr E + of_nat k) = stk c (idt_addr E + of_nat k)))"

definition stack_clear :: "env \<Rightarrow> abi \<Rightarrow> penclave cpu \<Rightarrow> bool" where
  "stack_clear E ab c \<longleftrightarrow>
     (\<forall>k<4096. 176 + depth ab \<le> unat (stack_top c - 1 - (idt_addr E + of_nat k)))"

definition cpu_ready :: "env \<Rightarrow> abi \<Rightarrow> penclave cpu \<Rightarrow> bool" where
  "cpu_ready E ab c \<longleftrightarrow> stack_clear E ab c \<and> idt_base (idt_reg (world c)) = idt_addr E \<and>
     (\<forall>v\<in>{6, 14}. Option.bind (hw_vector (stk c) (idt_reg (world c)) v)
        (\<lambda>g. entry_label (entries E) (hw_offset g)) = Some v)"

text \<open>What an exception must not change: registers, and memory away from the stack below.\<close>

definition visible :: "abi \<Rightarrow> penclave cpu \<Rightarrow> (reg \<Rightarrow> u64) \<times> u64 \<times> u64 \<times> u64 \<times> u64 \<times> memory" where
  "visible ab c = (gpr c, rip c, rflags c, seg_cs c, seg_ss c,
     (\<lambda>a. if 176 + depth ab \<le> unat (stack_top c - 1 - a) then stk c a else 0))"

lemma cpu_ready_cong:
  assumes "cpu_ready E ab c" "gpr c' RSP = gpr c RSP" "idt_reg (world c') = idt_reg (world c)"
    and "\<And>k. k < 4096 \<Longrightarrow> stk c' (idt_addr E + of_nat k) = stk c (idt_addr E + of_nat k)"
  shows "cpu_ready E ab c'"
proof -
  have "idt_base (idt_reg (world c)) = idt_addr E" using assms(1) by (simp add: cpu_ready_def)
  then have "hw_vector (stk c') (idt_reg (world c)) v = hw_vector (stk c) (idt_reg (world c)) v" if "v < 256" for v
    using assms(4) that by (intro hw_vector_cong) auto
  moreover have "stack_top c' = stack_top c" by (simp add: stack_top_def assms(2))
  ultimately show ?thesis using assms(1,3) by (simp add: cpu_ready_def stack_clear_def)
qed

lemma code_keeps_ready: "code_ok E f \<Longrightarrow> cpu_ready E ab c \<Longrightarrow> cpu_ready E ab (f c)"
  by (rule cpu_ready_cong) (auto simp: code_ok_def)

lemma trap_stk_far:
  assumes "176 + depth ab \<le> unat (stack_top c - 1 - a)"
  shows "trap_stk ab n err c tf a = stk c a"
  using above_frame [OF assms] by (simp add: trap_stk_def tf_store_other scratch_def)

section \<open>One exception\<close>

lemma interrupt_handled:
  assumes "cpu_ready E ab c" "v \<in> {6, 14}" "g_handler (world c) = Some Exception_handler"
    and "exception_handler (trapframe_of c v (seen_err v err)) (world c) = Some (Inr (tf, s))"
  shows "interrupt E ab err v c = Some (Inr (resume tf s (trap_stk ab v err c tf)))"
proof -
  obtain g where g: "hw_vector (stk c) (idt_reg (world c)) v = Some g" "entry_label (entries E) (hw_offset g) = Some v"
    using assms(1,2) by (auto simp: cpu_ready_def bind_eq_Some_conv)
  have "as_c_handler handle_frame (trapframe_of c v (seen_err v err)) (world c) = Ret (tf, s)"
    using assms(3,4) by (simp add: as_c_handler_def handle_frame_def common_exception_handler_def)
  then have "trap (as_c_handler handle_frame) ab (stub_expects_err v) err (hw_sel g) (hw_offset g) v c =
      Ret (resume tf s (trap_stk ab v err c tf))"
    by (simp add: trap_eq [OF refl])
  then show ?thesis by (simp add: interrupt_def raise_vector_def g)
qed

lemma resume_same: "resume (trapframe_of c v e) s m = c\<lparr>stk := m, world := s\<rparr>"
proof -
  have "tf_gpr (trapframe_of c v e) r = gpr c r" for r by (cases r) (simp_all add: trapframe_of_def)
  then have "tf_gpr (trapframe_of c v e) = gpr c" by (intro ext) simp
  then show ?thesis by (intro cpu.equality) (simp_all add: resume_def, simp_all add: trapframe_of_def)
qed

lemma resume_skip:
  "resume ((trapframe_of c v e)\<lparr>tf_rip := tf_rip (trapframe_of c v e) + 2\<rparr>) s m = c\<lparr>rip := rip c + 2, stk := m, world := s\<rparr>"
proof -
  have "tf_gpr ((trapframe_of c v e)\<lparr>tf_rip := x\<rparr>) r = gpr c r" for r x by (cases r) (simp_all add: trapframe_of_def)
  then have "tf_gpr ((trapframe_of c v e)\<lparr>tf_rip := x\<rparr>) = gpr c" for x by (intro ext) simp
  then show ?thesis by (intro cpu.equality) (simp_all add: resume_def, simp_all add: trapframe_of_def)
qed

text \<open>The handler of a page fault does the same whatever the frame.\<close>

lemma page_fault_any_frame:
  assumes "tf_vector tf = 14" "tf_vector tf' = 14" "exception_handler tf s = Some (Inr (tf2, s2))"
  shows "exception_handler tf' s = Some (Inr (tf', s2))"
  using assms by (auto simp: exception_handler_def Let_def split: option.splits res.splits if_splits prod.splits)

lemma store_frame_fields:
  fixes s :: penclave
  shows "mmu_store8 s v b = Done s' \<Longrightarrow> idt_reg s' = idt_reg s"
    and "mmu_store8 s v b = Fault s' \<Longrightarrow> idt_reg s' = idt_reg s \<and> handler_ready E s' = handler_ready E s"
  by (auto simp: mmu_store8_def handler_ready_def split: option.splits bool.splits)

lemma handler_idt_reg:
  assumes "ucast (tf_vector tf) = (0xE :: u32)" "exception_handler tf s = Some (Inr (tf', s'))"
  shows "idt_reg s' = idt_reg s"
  using assms(1)
proof (cases rule: page_fault_cases [of _ s])
  case (2 t)
  then have "mmu.more s' = mmu.more (s\<lparr>g_pf_count := g_pf_count s + 1\<rparr>)" using assms(2) by simp
  then show ?thesis using more_fields(8) [of s' "s\<lparr>g_pf_count := g_pf_count s + 1\<rparr>"] by simp
qed (use assms(2) in simp)

text \<open>A page fault that is served leaves every register as it was.\<close>

lemma cpu_serve_refines:
  assumes "cpu_ready E ab c" "handler_ready E (world c)" "serve_fault E (world c) = Some (Inr s)"
  shows "\<exists>m. cpu_serve E ab c = Some (Inr (c\<lparr>stk := m, world := s\<rparr>)) \<and>
    cpu_ready E ab (c\<lparr>stk := m, world := s\<rparr>) \<and> visible ab (c\<lparr>stk := m, world := s\<rparr>) = visible ab c"
proof -
  let ?tf = "trapframe_of c 14 (seen_err 14 3)" and ?m = "trap_stk ab 14 3 c (trapframe_of c 14 (seen_err 14 3))"
  obtain tf where "exception_handler ((store_frame E)\<lparr>tf_vector := of_nat 14\<rparr>) (world c) = Some (Inr (tf, s))"
    using assms(3) raise_ready [OF assms(2), of 14] by (auto simp: serve_fault_def and_then_Inr split: if_splits)
  moreover have v: "tf_vector ?tf = 14" by (simp add: trapframe_of_def)
  ultimately have h: "exception_handler ?tf (world c) = Some (Inr (?tf, s))"
    using page_fault_any_frame [of "(store_frame E)\<lparr>tf_vector := of_nat 14\<rparr>" ?tf] by simp
  have g: "g_handler (world c) = Some Exception_handler" using assms(2) by (simp add: handler_ready_def)
  let ?c = "c\<lparr>stk := ?m, world := s\<rparr>"
  have i: "interrupt E ab 3 14 c = Some (Inr ?c)"
    using interrupt_handled [OF assms(1) _ g h] by (simp only: resume_same) simp
  have far: "stk ?c a = stk c a" if "176 + depth ab \<le> unat (stack_top c - 1 - a)" for a
    using trap_stk_far [OF that] by simp
  have "idt_reg s = idt_reg (world c)" using handler_idt_reg [OF _ h] v by simp
  then have "cpu_ready E ab ?c"
    using assms(1) by (intro cpu_ready_cong [OF assms(1)]) (auto simp: cpu_ready_def stack_clear_def trap_stk_far)
  moreover have "visible ab ?c = visible ab c"
    using far by (auto simp: visible_def stack_top_def)
  ultimately show ?thesis using i by (auto simp: cpu_serve_def)
qed

interpretation machine_faults:
  fault_refinement mmu_store8 "serve_fault E" "\<lambda>s. space_ok c D s \<and> handler_ready E s" "set D"
    "page_writable c" g_pf_count fault_others cpu_store8 "cpu_serve E ab" world "cpu_ready E ab" "visible ab"
  for E c D ab
proof (unfold_locales, goal_cases)
  case (1 x v b s)
  then have "cpu_ready E ab (x\<lparr>world := s\<rparr>)"
    using store_frame_fields(1) [OF 1(4)] by (intro cpu_ready_cong [OF 1(1)]) simp_all
  then show ?case using 1(4) by (auto simp: cpu_store8_def visible_def stack_top_def)
next
  case (2 x v b s1 s2)
  let ?x = "x\<lparr>world := s1\<rparr>"
  have r: "cpu_ready E ab ?x" "handler_ready E (world ?x)"
    using store_frame_fields(2) [OF 2(4), of E] 2(2) by (auto intro: cpu_ready_cong [OF 2(1)])
  obtain m where m: "cpu_serve E ab ?x = Some (Inr (?x\<lparr>stk := m, world := s2\<rparr>))"
    "cpu_ready E ab (?x\<lparr>stk := m, world := s2\<rparr>)" "visible ab (?x\<lparr>stk := m, world := s2\<rparr>) = visible ab ?x"
    using cpu_serve_refines [OF r] 2(5) by auto
  have "cpu_store8 x v b = Fault ?x" using 2(4) by (simp add: cpu_store8_def)
  moreover have "visible ab ?x = visible ab x" by (auto simp: visible_def stack_top_def)
  ultimately show ?case using m by (intro exI [of _ ?x] exI [of _ "?x\<lparr>stk := m, world := s2\<rparr>"]) simp
qed

section \<open>The loops\<close>

lemma cpu_stores_refines:
  assumes "\<forall>v. code_ok E (code v)"
  shows "cpu_ready E ab x \<Longrightarrow> space_ok c D (world x) \<Longrightarrow> handler_ready E (world x) \<Longrightarrow> set vs \<subseteq> set D \<Longrightarrow>
    \<exists>x'. cpu_stores E ab code b vs x = Some (Inr x') \<and>
      store_each mmu_store8 (serve_fault E) b vs (world x) = Some (Inr (world x')) \<and> cpu_ready E ab x' \<and>
      gpr x' RSP = gpr x RSP"
proof (induction vs arbitrary: x)
  case (Cons v vs)
  let ?x = "code v x"
  have w: "world ?x = world x" "gpr ?x RSP = gpr x RSP" using assms by (auto simp: code_ok_def)
  have r: "cpu_ready E ab ?x" using code_keeps_ready [OF spec [OF assms] Cons.prems(1)] .
  have i: "space_ok c D (world ?x) \<and> handler_ready E (world ?x)" "v \<in> set D" using Cons.prems w by auto
  obtain x1 where x1: "store_retry cpu_store8 (cpu_serve E ab) v b ?x = Some (Inr x1)"
    "store_retry mmu_store8 (serve_fault E) v b (world ?x) = Some (Inr (world x1))" "cpu_ready E ab x1"
    "visible ab x1 = visible ab ?x"
    using machine_faults.store_retry_refines [OF r i, of b] by blast
  have i1: "space_ok c D (world x1)" "handler_ready E (world x1)"
    using p_faults.store_retry_ok [OF i, of b] x1(2) by auto
  obtain x2 where "cpu_stores E ab code b vs x1 = Some (Inr x2)"
    "store_each mmu_store8 (serve_fault E) b vs (world x1) = Some (Inr (world x2))" "cpu_ready E ab x2"
    "gpr x2 RSP = gpr x1 RSP"
    using Cons.IH [OF x1(3) i1] Cons.prems(4) by auto
  moreover have "gpr x1 RSP = gpr x RSP" using x1(4) w(2) by (simp add: visible_def)
  ultimately show ?case using x1(1,2) w(1) by auto
qed simp

lemma cpu_ud2_done:
  assumes "cpu_ready E ab c" "handler_ready E (world c)"
  shows "\<exists>m. cpu_ud2 E ab c = Some (Inr (c\<lparr>rip := rip c + 2, stk := m,
      world := (world c)\<lparr>g_ud_count := g_ud_count (world c) + 1\<rparr>\<rparr>)) \<and>
    (\<forall>a. 176 + depth ab \<le> unat (stack_top c - 1 - a) \<longrightarrow> m a = stk c a)"
proof -
  let ?tf = "trapframe_of c 6 (seen_err 6 0)" and ?s = "(world c)\<lparr>g_ud_count := g_ud_count (world c) + 1\<rparr>"
  let ?tf' = "?tf\<lparr>tf_rip := tf_rip ?tf + 2\<rparr>"
  have h: "exception_handler ?tf (world c) = Some (Inr (?tf', ?s))"
    by (simp add: exception_handler_def trapframe_of_def)
  have g: "g_handler (world c) = Some Exception_handler" using assms(2) by (simp add: handler_ready_def)
  have "interrupt E ab 0 6 c = Some (Inr (c\<lparr>rip := rip c + 2, stk := trap_stk ab 6 0 c ?tf', world := ?s\<rparr>))"
    using interrupt_handled [OF assms(1) _ g h] by (simp only: resume_skip) simp
  moreover have "rip c + 2 \<noteq> rip c" by simp
  ultimately have "cpu_ud2 E ab c = Some (Inr (c\<lparr>rip := rip c + 2, stk := trap_stk ab 6 0 c ?tf', world := ?s\<rparr>))"
    by (subst cpu_ud2.simps) simp
  then show ?thesis using trap_stk_far [where c = c and ab = ab] by blast
qed

lemma cpu_ud2s_refines:
  assumes "\<forall>i. code_ok E (code i)"
  shows "cpu_ready E ab x \<Longrightarrow> handler_ready E (world x) \<Longrightarrow>
    \<exists>x'. cpu_ud2s E ab code n x = Some (Inr x') \<and>
      ud2_loop (raise E 6) tf_rip (ud_frame E) n (world x) = Some (Inr (world x')) \<and> cpu_ready E ab x' \<and>
      gpr x' RSP = gpr x RSP"
proof (induction n arbitrary: x)
  case (Suc n)
  let ?x = "code n x" and ?s = "(world x)\<lparr>g_ud_count := g_ud_count (world x) + 1\<rparr>"
  have w: "world ?x = world x" "gpr ?x RSP = gpr x RSP" using assms by (auto simp: code_ok_def)
  have r: "cpu_ready E ab ?x" using code_keeps_ready [OF spec [OF assms] Suc.prems(1)] .
  obtain m where m: "cpu_ud2 E ab ?x = Some (Inr (?x\<lparr>rip := rip ?x + 2, stk := m, world := ?s\<rparr>))"
    "\<forall>a. 176 + depth ab \<le> unat (stack_top ?x - 1 - a) \<longrightarrow> m a = stk ?x a"
    using cpu_ud2_done [OF r] Suc.prems(2) w(1) by auto
  let ?y = "?x\<lparr>rip := rip ?x + 2, stk := m, world := ?s\<rparr>"
  have "cpu_ready E ab ?y"
    using r m(2) w(1) by (intro cpu_ready_cong [OF r]) (auto simp: cpu_ready_def stack_clear_def)
  moreover have hr: "handler_ready E (world ?y)" using Suc.prems(2) by (simp add: handler_ready_def)
  ultimately obtain x' where x': "cpu_ud2s E ab code n ?y = Some (Inr x')"
    "ud2_loop (raise E 6) tf_rip (ud_frame E) n ?s = Some (Inr (world x'))" "cpu_ready E ab x'"
    "gpr x' RSP = gpr ?y RSP"
    using Suc.IH [of ?y] by auto
  have "raise E 6 (ud_frame E) (world x) =
      Some (Inr ((ud_frame E)\<lparr>tf_vector := 6, tf_rip := tf_rip (ud_frame E) + 2\<rparr>, ?s))"
    using raise_ready [OF Suc.prems(2), of 6 "ud_frame E"] by (simp add: exception_handler_def)
  then have "trap_run (raise E 6) tf_rip (ud_frame E) (world x) = Some (Inr (tf_rip (ud_frame E) + 2, ?s))"
    by (subst trap_run.simps) simp
  then show ?case using m(1) x' w(2) by auto
qed simp

section \<open>The whole of ecall\_exception\<close>

text \<open>What runs between the loops acts on the data only; its registers are the \<open>code\<close>'s business.\<close>

definition on_world :: "(penclave \<Rightarrow> (penclave, penclave) run) \<Rightarrow> penclave cpu \<Rightarrow> (penclave cpu, penclave cpu) run" where
  "on_world f c =
     (case f (world c) of
        None \<Rightarrow> None
      | Some (Inl s) \<Rightarrow> Some (Inl (c\<lparr>world := s\<rparr>))
      | Some (Inr s) \<Rightarrow> Some (Inr (c\<lparr>world := s\<rparr>)))"

definition cpu_setup :: "env \<Rightarrow> penclave cpu \<Rightarrow> penclave cpu" where
  "cpu_setup E c =
     (let (m, r) = init_exception (entries E) (idt_addr E) (idt0 E) (stk c)
      in c\<lparr>stk := m, world := setup_handler E (world c)\<rparr>)"

definition cpu_write_pages ::
  "env \<Rightarrow> abi \<Rightarrow> (u64 \<Rightarrow> penclave cpu \<Rightarrow> penclave cpu) \<Rightarrow> nat \<Rightarrow> u8 \<Rightarrow> penclave cpu \<Rightarrow> (penclave cpu, penclave cpu) run"
where
  "cpu_write_pages E ab code bufsz b =
     cpu_stores E ab code b (pages (test_buf E) ((bufsz + 4095) div 4096))"

definition cpu_page_fault_test ::
  "env \<Rightarrow> abi \<Rightarrow> (u64 \<Rightarrow> penclave cpu \<Rightarrow> penclave cpu) \<Rightarrow> nat \<Rightarrow> penclave cpu \<Rightarrow> (penclave cpu, penclave cpu) run"
where
  "cpu_page_fault_test E ab code bufsz c =
     (let (time_begin, s) = rdtscp E (world c)
      in and_then (cpu_write_pages E ab code bufsz 0 (c\<lparr>world := s\<rparr>)) (\<lambda>c.
           let (time_end, s) = rdtscp E (world c);
               s = printf_ocall (''write OK'' @ nl) [] s;
               s = printf_ocall (''Write Count = %d'' @ nl) [AInt (int (bufsz div 4096))] s
           in Some (Inr (c\<lparr>world := report (time_end - time_begin - 60) (bufsz div 4096) s\<rparr>))))"

definition cpu_ud2_test ::
  "env \<Rightarrow> abi \<Rightarrow> (nat \<Rightarrow> penclave cpu \<Rightarrow> penclave cpu) \<Rightarrow> u32 \<Rightarrow> penclave cpu \<Rightarrow> (penclave cpu, penclave cpu) run"
where
  "cpu_ud2_test E ab code nrepeats c =
     (let (time_begin, s) = rdtscp E (world c)
      in and_then (cpu_ud2s E ab code (unat nrepeats) (c\<lparr>world := s\<rparr>)) (\<lambda>c.
           let (time_end, s) = rdtscp E (world c);
               s = printf_ocall (''test #UD OK'' @ nl) [] s;
               s = printf_ocall (''Count = %d'' @ nl) [AInt (sint nrepeats)] s
           in Some (Inr (c\<lparr>world := report (time_end - time_begin - 60) (unat nrepeats) s\<rparr>))))"

definition cpu_ecall ::
  "env \<Rightarrow> abi \<Rightarrow> (u64 \<Rightarrow> penclave cpu \<Rightarrow> penclave cpu) \<Rightarrow> (nat \<Rightarrow> penclave cpu \<Rightarrow> penclave cpu) \<Rightarrow>
     nat \<Rightarrow> u32 \<Rightarrow> penclave cpu \<Rightarrow> (penclave cpu, sgx_status \<times> penclave cpu) run"
where
  "cpu_ecall E ab code ud_code bufsz nrepeats c =
     and_then (cpu_write_pages E ab code bufsz 0 (cpu_setup E c)) (\<lambda>c.
     and_then (on_world (protect_buffer E bufsz) c) (\<lambda>c.
     and_then (cpu_page_fault_test E ab code bufsz c) (\<lambda>c.
     and_then (cpu_ud2_test E ab ud_code nrepeats c) (\<lambda>c.
       Some (Inr (SGX_SUCCESS, c\<lparr>world := print_counts (world c)\<rparr>))))))"

text \<open>Replacing the data keeps the processor ready if the table register is the same.\<close>

lemma cpu_ready_world:
  assumes "cpu_ready E ab c" "idt_reg s = idt_reg (world c)"
  shows "cpu_ready E ab (c\<lparr>world := s\<rparr>)"
  by (rule cpu_ready_cong [OF assms(1)]) (simp_all add: assms(2))

lemma core_idt_reg: "core s' = core s \<Longrightarrow> idt_reg s' = idt_reg s"
  by (drule arg_cong [of _ _ idt_reg]) (simp add: core_def)

lemma snd_rdtscp_core: "rdtscp E s = (t, s') \<Longrightarrow> core s' = core s"
  by (auto simp: rdtscp_def split: prod.splits)

lemma cpu_setup_ready:
  assumes "link_ok E" "stack_clear E ab c"
  shows "cpu_ready E ab (cpu_setup E c)" "world (cpu_setup E c) = setup_handler E (world c)"
    and "gpr (cpu_setup E c) = gpr c"
proof -
  obtain m r where m: "init_exception (entries E) (idt_addr E) (idt0 E) (stk c) = (m, r)" by fastforce
  obtain m' r' ev where s: "init_exception (entries E) (idt_addr E) (idt0 E) (idt_mem (world c)) = (m', r')"
    "setup_handler E (world c) = (world c)\<lparr>idt_mem := m', idt_reg := r',
       g_handler := Some Exception_handler, g_cached_cr3 := cr3 (world c), out := ev\<rparr>"
    using setup_handler_eq by blast
  have r: "r = \<lparr>idt_limit = 4095, idt_base = idt_addr E\<rparr>" "r' = r"
    using m s(1) by (simp_all add: init_exception_def lidt_eq)
  have l: "length (idt0 E) = 256" "inj_on (entries E) {..<256}" using assms(1) by (simp_all add: link_ok_def)
  have e: "cpu_setup E c = c\<lparr>stk := m, world := setup_handler E (world c)\<rparr>" by (simp add: cpu_setup_def m)
  show "world (cpu_setup E c) = setup_handler E (world c)" "gpr (cpu_setup E c) = gpr c" by (simp_all add: e)
  have "idt_reg (world (cpu_setup E c)) = r" "stk (cpu_setup E c) = m" by (simp_all add: e s(2) r(2))
  moreover have "stack_clear E ab (cpu_setup E c)"
    using assms(2) by (simp add: e stack_clear_def stack_top_def)
  ultimately show "cpu_ready E ab (cpu_setup E c)"
    using hw_vector_init [OF m l(1)] entry_label_inj [OF l(2)] by (simp add: cpu_ready_def r(1))
qed

lemma cpu_write_pages_refines:
  assumes "\<forall>v. code_ok E (code v)" "buffer_ok E n D"
    and "cpu_ready E ab x" "space_ok c D (world x)" "handler_ready E (world x)"
  shows "\<exists>x'. cpu_write_pages E ab code (4096 * n) b x = Some (Inr x') \<and>
    write_pages E (4096 * n) b (world x) = Some (Inr (world x')) \<and> cpu_ready E ab x' \<and> gpr x' RSP = gpr x RSP \<and>
    space_ok c D (world x') \<and> handler_ready E (world x') \<and>
    (\<forall>v\<in>set (pages (test_buf E) n). page_writable c (world x') v)"
proof -
  have n: "(4096 * n + 4095) div 4096 = n" by simp
  obtain x' where "cpu_write_pages E ab code (4096 * n) b x = Some (Inr x')"
    "write_pages E (4096 * n) b (world x) = Some (Inr (world x'))" "cpu_ready E ab x'" "gpr x' RSP = gpr x RSP"
    using cpu_stores_refines [OF assms(1,3-5) buffer_okD(4) [OF assms(2)], of b]
    by (auto simp: cpu_write_pages_def write_pages_def n)
  moreover from this(2) have "space_ok c D (world x')" "handler_ready E (world x')"
    "\<forall>v\<in>set (pages (test_buf E) n). page_writable c (world x') v"
    using write_pages_ok [OF assms(4,5,2), of b] buffer_okD(4) [OF assms(2)] by auto
  ultimately show ?thesis by blast
qed

lemma cpu_page_fault_test_refines:
  assumes "\<forall>v. code_ok E (code v)" "buffer_ok E n D"
    and "cpu_ready E ab x" "space_ok c D (world x)" "handler_ready E (world x)"
  shows "\<exists>x'. cpu_page_fault_test E ab code (4096 * n) x = Some (Inr x') \<and>
    page_fault_test E (4096 * n) (world x) = Some (Inr (world x')) \<and> cpu_ready E ab x' \<and> gpr x' RSP = gpr x RSP \<and>
    space_ok c D (world x') \<and> handler_ready E (world x')"
proof -
  obtain t s where r: "rdtscp E (world x) = (t, s)" by fastforce
  note c0 = snd_rdtscp_core [OF r]
  have "cpu_ready E ab (x\<lparr>world := s\<rparr>)" by (rule cpu_ready_world [OF assms(3) core_idt_reg [OF c0]])
  moreover have "space_ok c D (world (x\<lparr>world := s\<rparr>))" "handler_ready E (world (x\<lparr>world := s\<rparr>))"
    using assms(4,5) core_cong(1,2) [OF c0] by simp_all
  ultimately obtain y where y: "cpu_write_pages E ab code (4096 * n) 0 (x\<lparr>world := s\<rparr>) = Some (Inr y)"
    "write_pages E (4096 * n) 0 s = Some (Inr (world y))" "cpu_ready E ab y" "gpr y RSP = gpr x RSP"
    "space_ok c D (world y)" "handler_ready E (world y)"
    using cpu_write_pages_refines [OF assms(1,2), of ab "x\<lparr>world := s\<rparr>" c 0] by auto
  obtain t' s' where r': "rdtscp E (world y) = (t', s')" by fastforce
  let ?w = "report (t' - t - 60) (4096 * n div 4096) (printf_ocall (''Write Count = %d'' @ nl)
      [AInt (int (4096 * n div 4096))] (printf_ocall (''write OK'' @ nl) [] s'))"
  have w: "core ?w = core (world y)" using snd_rdtscp_core [OF r'] by simp
  have "cpu_page_fault_test E ab code (4096 * n) x = Some (Inr (y\<lparr>world := ?w\<rparr>))"
    by (simp add: cpu_page_fault_test_def r y(1) r')
  moreover have "page_fault_test E (4096 * n) (world x) = Some (Inr (world (y\<lparr>world := ?w\<rparr>)))"
    by (simp add: page_fault_test_def r y(2) r')
  moreover have "cpu_ready E ab (y\<lparr>world := ?w\<rparr>)" by (rule cpu_ready_world [OF y(3) core_idt_reg [OF w]])
  ultimately show ?thesis
    using y(4-6) core_cong(1,2) [OF w] by (intro exI [of _ "y\<lparr>world := ?w\<rparr>"]) simp
qed

lemma cpu_ud2_test_refines:
  assumes "\<forall>i. code_ok E (code i)" "cpu_ready E ab x" "handler_ready E (world x)"
  shows "\<exists>x'. cpu_ud2_test E ab code k x = Some (Inr x') \<and>
    ud2_test E k (world x) = Some (Inr (world x')) \<and> cpu_ready E ab x' \<and> gpr x' RSP = gpr x RSP"
proof -
  obtain t s where r: "rdtscp E (world x) = (t, s)" by fastforce
  note c0 = snd_rdtscp_core [OF r]
  have "cpu_ready E ab (x\<lparr>world := s\<rparr>)" by (rule cpu_ready_world [OF assms(2) core_idt_reg [OF c0]])
  moreover have "handler_ready E (world (x\<lparr>world := s\<rparr>))" using assms(3) core_cong(2) [OF c0] by simp
  ultimately obtain y where y: "cpu_ud2s E ab code (unat k) (x\<lparr>world := s\<rparr>) = Some (Inr y)"
    "ud2_loop (raise E 6) tf_rip (ud_frame E) (unat k) s = Some (Inr (world y))" "cpu_ready E ab y" "gpr y RSP = gpr x RSP"
    using cpu_ud2s_refines [OF assms(1), of ab "x\<lparr>world := s\<rparr>" "unat k"] by auto
  obtain t' s' where r': "rdtscp E (world y) = (t', s')" by fastforce
  let ?w = "report (t' - t - 60) (unat k) (printf_ocall (''Count = %d'' @ nl) [AInt (sint k)]
      (printf_ocall (''test #UD OK'' @ nl) [] s'))"
  have w: "core ?w = core (world y)" using snd_rdtscp_core [OF r'] by simp
  have "cpu_ud2_test E ab code k x = Some (Inr (y\<lparr>world := ?w\<rparr>))"
    by (simp add: cpu_ud2_test_def r y(1) r')
  moreover have "ud2_test E k (world x) = Some (Inr (world (y\<lparr>world := ?w\<rparr>)))"
    by (simp add: ud2_test_def r y(2) r')
  moreover have "cpu_ready E ab (y\<lparr>world := ?w\<rparr>)" by (rule cpu_ready_world [OF y(3) core_idt_reg [OF w]])
  ultimately show ?thesis using y(4) by (intro exI [of _ "y\<lparr>world := ?w\<rparr>"]) simp
qed

text \<open>C3: the benchmark on the processor, with every exception going through the gates in memory,
  the stubs and \<open>common_exception_entry\<close> of \<open>exception.S\<close>, the handler's frame on the stack and
  \<open>iretq\<close>, ends with \<open>SGX_SUCCESS\<close> in the state the benchmark of \<open>PEnclave\<close> ends in, which
  hands the handler a record; the stack pointer is back.  This holds for any compiled code
  between the accesses that keeps the stack pointer and the table, if the stack that exceptions
  use does not reach the table.\<close>

theorem machine_run_refines:
  assumes "link_ok E" "space_before D (world c)" "buffer_ok E n D" "stack_clear E ab c"
    and "\<forall>v. code_ok E (code v)" "\<forall>i. code_ok E (ud_code i)"
  shows "\<exists>c'. cpu_ecall E ab code ud_code (4096 * n) k c = Some (Inr (SGX_SUCCESS, c')) \<and>
    ecall_exception_sized E (4096 * n) k (world c) = Some (Inr (SGX_SUCCESS, world c')) \<and>
    gpr c' RSP = gpr c RSP"
proof -
  let ?c0 = "cpu_setup E c" and ?r = "cr3 (world c)"
  note s0 = cpu_setup_ready [OF assms(1,4)]
  have sp: "space_ok ?r D (world ?c0)" "handler_ready E (world ?c0)"
    unfolding s0(2) using setup_handler_space(1) [OF assms(2)] setup_handler_ready [OF assms(1)] by blast+
  obtain c1 where c1: "cpu_write_pages E ab code (4096 * n) 0 ?c0 = Some (Inr c1)"
    "write_pages E (4096 * n) 0 (world ?c0) = Some (Inr (world c1))" "cpu_ready E ab c1" "gpr c1 RSP = gpr ?c0 RSP"
    "space_ok ?r D (world c1)" "handler_ready E (world c1)"
    using cpu_write_pages_refines [OF assms(5,3) s0(1) sp, of 0] by blast
  obtain s ev where s: "protect_buffer E (4096 * n) (world c1) = Some (Inr (s\<lparr>out := ev\<rparr>))"
    "space_ok ?r D s" "handler_ready E s" "fault_others s = fault_others (world c1)"
    using protect_buffer_ok [OF c1(5,6) assms(3)] by blast
  let ?c2 = "c1\<lparr>world := s\<lparr>out := ev\<rparr>\<rparr>"
  have "idt_reg s = idt_reg (world c1)" using arg_cong [OF s(4), of idt_reg] by (simp add: fault_others_def)
  then have "cpu_ready E ab ?c2" by (intro cpu_ready_world [OF c1(3)]) simp
  moreover have "core (s\<lparr>out := ev\<rparr>) = core s" by (simp add: core_def)
  note core_cong(1,2) [OF this]
  ultimately obtain c3 where c3: "cpu_page_fault_test E ab code (4096 * n) ?c2 = Some (Inr c3)"
    "page_fault_test E (4096 * n) (s\<lparr>out := ev\<rparr>) = Some (Inr (world c3))" "cpu_ready E ab c3"
    "gpr c3 RSP = gpr c1 RSP" "handler_ready E (world c3)"
    using cpu_page_fault_test_refines [OF assms(5,3), of ab ?c2 ?r] s(2,3) by auto
  obtain c4 where c4: "cpu_ud2_test E ab ud_code k c3 = Some (Inr c4)"
    "ud2_test E k (world c3) = Some (Inr (world c4))" "gpr c4 RSP = gpr c3 RSP"
    using cpu_ud2_test_refines [OF assms(6) c3(3,5), of k] by blast
  let ?c' = "c4\<lparr>world := print_counts (world c4)\<rparr>"
  have "cpu_ecall E ab code ud_code (4096 * n) k c = Some (Inr (SGX_SUCCESS, ?c'))"
    by (simp add: cpu_ecall_def c1(1) on_world_def s(1) c3(1) c4(1))
  moreover have "ecall_exception_sized E (4096 * n) k (world c) = Some (Inr (SGX_SUCCESS, world ?c'))"
    by (simp add: ecall_exception_sized_def c1(2) [unfolded s0(2)] s(1) c3(2) c4(2))
  moreover have "gpr ?c' RSP = gpr c RSP" using c4(3) c3(4) c1(4) s0(3) by simp
  ultimately show ?thesis by blast
qed

text \<open>Compiled loops that count in RAX and jump back to the instruction.\<close>

definition demo_store_code :: "u64 \<Rightarrow> penclave cpu \<Rightarrow> penclave cpu" where
  "demo_store_code v c = c\<lparr>gpr := (gpr c)(RAX := v), rip := 0x400080\<rparr>"

definition demo_ud_code :: "nat \<Rightarrow> penclave cpu \<Rightarrow> penclave cpu" where
  "demo_ud_code i c = c\<lparr>gpr := (gpr c)(RAX := of_nat i), rip := 0x4000c0, rflags := 0x246\<rparr>"

lemma demo_stack_clear: "stack_clear demo_env demo_abi (demo_penclave_cpu s)"
proof -
  have top: "stack_top (demo_penclave_cpu s) = 0x7fff1230"
    by (simp add: stack_top_def demo_penclave_cpu_def demo_cpu_def)
  have "176 + depth demo_abi \<le> unat (stack_top (demo_penclave_cpu s) - 1 - (0x600000 + of_nat k))" if k: "k < 4096" for k
  proof -
    have u: "unat (of_nat k :: u64) = k" using k by (simp add: unat_of_nat)
    have "stack_top (demo_penclave_cpu s) - 1 - (0x600000 + of_nat k) = 0x7f9f122f - of_nat k"
      by (simp add: top)
    then show ?thesis using k by (simp add: demo_abi_def unat_sub_if' word_le_nat_alt u)
  qed
  then show ?thesis by (simp add: stack_clear_def demo_env_def)
qed

theorem machine_run_refines_witness:
  "\<exists>c'. cpu_ecall demo_env demo_abi demo_store_code demo_ud_code 8192 5 (demo_penclave_cpu demo_penclave) =
     Some (Inr (SGX_SUCCESS, c')) \<and> g_pf_count (world c') = 3 \<and> g_ud_count (world c') = 5 \<and>
     gpr c' RSP = 0x7fff1238"
proof -
  have "\<forall>v. code_ok demo_env (demo_store_code v)" "\<forall>i. code_ok demo_env (demo_ud_code i)"
    by (simp_all add: code_ok_def demo_store_code_def demo_ud_code_def)
  moreover have w: "world (demo_penclave_cpu demo_penclave) = demo_penclave" by (simp add: demo_penclave_cpu_def)
  moreover have "gpr (demo_penclave_cpu demo_penclave) RSP = 0x7fff1238"
    by (simp add: demo_penclave_cpu_def demo_cpu_def)
  ultimately obtain c' where c': "cpu_ecall demo_env demo_abi demo_store_code demo_ud_code (4096 * 2) 5
      (demo_penclave_cpu demo_penclave) = Some (Inr (SGX_SUCCESS, c'))"
    "ecall_exception_sized demo_env (4096 * 2) 5 demo_penclave = Some (Inr (SGX_SUCCESS, world c'))"
    "gpr c' RSP = 0x7fff1238"
    using machine_run_refines [of demo_env "[0x400000, 0x401000]" "demo_penclave_cpu demo_penclave" 2
        demo_abi demo_store_code demo_ud_code 5] demo_link demo_space demo_buffer demo_stack_clear by auto
  have "pages (test_buf demo_env) 2 = [0x400000, 0x401000]" by (simp add: demo_env_def demo_pages)
  then have "g_pf_count (world c') = 3" "g_ud_count (world c') = 5"
    using ecall_exception_run [OF demo_link demo_space demo_buffer, of 5] c'(2)
    by (auto simp: page_writable_def demo_leaf)
  then show ?thesis using c' by auto
qed

section \<open>An error code the stub does not expect\<close>



end
