(* ===== verification/Interleaving.thy ===== *)
theory Interleaving
  imports PEnclaveRun
begin

text \<open>
  The P-Enclave as a state machine: after \<open>ecall_exception\<close> set up the handler, stores, page
  faults, \<open>ud2\<close>s, calls of \<open>mprotect\<close> and interrupts happen in any order.  The steps are
  those of the processor and of the model's handler; a specification of five fields is
  shown to have exactly the same runs.
\<close>

section \<open>Steps\<close>

datatype event_kind =
    Store u64 u8
  | Page_fault u64
  | Protect u64 u64 u64
  | Undefined
  | Interrupt nat u64

inductive pstep :: "env \<Rightarrow> penclave \<Rightarrow> event_kind \<Rightarrow> penclave \<Rightarrow> bool" for E where
  store: "mmu_store8 s v b = Done s' \<Longrightarrow> pstep E s (Store v b) s'"
| page_fault: "mmu_store8 s v b = Fault s1 \<Longrightarrow> raise E 14 tf s1 = Some (Inr (tf', s')) \<Longrightarrow>
    tf_rip tf' = tf_rip tf \<Longrightarrow> pstep E s (Page_fault v) s'"
| protect: "mprotect s a len flags = Some (Ret (0, s')) \<Longrightarrow> pstep E s (Protect a len flags) s'"
| undefined: "raise E 6 tf s = Some (Inr (tf', s')) \<Longrightarrow> tf_rip tf' = tf_rip tf + 2 \<Longrightarrow>
    pstep E s Undefined s'"
| interrupt: "32 \<le> n \<Longrightarrow> n < 256 \<Longrightarrow> raise E n tf s = Some (Inr (tf', s')) \<Longrightarrow>
    tf_rip tf' = tf_rip tf \<Longrightarrow> pstep E s (Interrupt n (tf_err_code tf)) s'"

inductive_cases storeE: "pstep E s (Store v b) s'"
inductive_cases page_faultE: "pstep E s (Page_fault v) s'"
inductive_cases protectE: "pstep E s (Protect a len flags) s'"
inductive_cases undefinedE: "pstep E s Undefined s'"
inductive_cases interruptE: "pstep E s (Interrupt n err) s'"

inductive ptrace :: "env \<Rightarrow> penclave \<Rightarrow> event_kind list \<Rightarrow> penclave \<Rightarrow> bool" for E where
  none: "ptrace E s [] s"
| more: "pstep E s e s1 \<Longrightarrow> ptrace E s1 es s' \<Longrightarrow> ptrace E s (e # es) s'"

inductive_simps ptrace_Nil [simp]: "ptrace E s [] s'"
inductive_simps ptrace_Cons: "ptrace E s (e # es) s'"

section \<open>The specification\<close>

text \<open>The counters, what was handed to the monitor, and the pages that can be written.\<close>

record pspec =
  faults :: u32
  uds :: u32
  intrs :: u32
  sent :: "(u32 \<times> u64) list"
  wr :: "u64 set"

definition range_pages :: "u64 \<Rightarrow> u64 \<Rightarrow> u64 set" where
  "range_pages a len = set (pages a (unat len div 4096))"

fun spec_step :: "event_kind \<Rightarrow> pspec \<Rightarrow> pspec option" where
  "spec_step (Store v b) a = (if v \<in> wr a then Some a else None)"
| "spec_step (Page_fault v) a =
     (if v \<in> wr a then None else Some (a\<lparr>faults := faults a + 1, wr := insert v (wr a)\<rparr>))"
| "spec_step (Protect p len flags) a =
     Some (a\<lparr>wr := if flags = PTE_P then wr a - range_pages p len else wr a \<union> range_pages p len\<rparr>)"
| "spec_step Undefined a = Some (a\<lparr>uds := uds a + 1\<rparr>)"
| "spec_step (Interrupt n err) a = Some (a\<lparr>intrs := intrs a + 1, sent := sent a @ [(of_nat n, err)]\<rparr>)"

primrec spec_run :: "event_kind list \<Rightarrow> pspec \<Rightarrow> pspec option" where
  "spec_run [] a = Some a"
| "spec_run (e # es) a = Option.bind (spec_step e a) (spec_run es)"

text \<open>The events in question: pages of the space, aligned ranges in it, the code's flags.\<close>

fun admissible :: "u64 list \<Rightarrow> event_kind \<Rightarrow> bool" where
  "admissible D (Store v b) \<longleftrightarrow> v \<in> set D"
| "admissible D (Page_fault v) \<longleftrightarrow> v \<in> set D"
| "admissible D (Protect a len flags) \<longleftrightarrow> a mod PGSIZE = 0 \<and> len mod PGSIZE = 0 \<and>
     unat a + unat len < 2 ^ 64 \<and> range_pages a len \<subseteq> set D \<and> flags \<in> {PTE_P, PTE_P OR PTE_W}"
| "admissible D Undefined \<longleftrightarrow> True"
| "admissible D (Interrupt n err) \<longleftrightarrow> 32 \<le> n \<and> n < 256"

definition pspec_of :: "u64 \<Rightarrow> u64 list \<Rightarrow> penclave \<Rightarrow> pspec" where
  "pspec_of c D s = \<lparr>faults = g_pf_count s, uds = g_ud_count s, intrs = g_intr_count s,
     sent = injected s, wr = {v \<in> set D. page_writable c s v}\<rparr>"

section \<open>The invariant\<close>

definition table_ready :: "env \<Rightarrow> penclave \<Rightarrow> bool" where
  "table_ready E s \<longleftrightarrow> g_handler s = Some Exception_handler \<and>
     (\<forall>v<256. Option.bind (hw_vector (idt_mem s) (idt_reg s) v)
       (\<lambda>g. entry_label (entries E) (hw_offset g)) = Some v)"

definition machine_ok :: "env \<Rightarrow> u64 \<Rightarrow> u64 list \<Rightarrow> penclave \<Rightarrow> bool" where
  "machine_ok E c D s \<longleftrightarrow> space_ok c D s \<and> table_ready E s"

lemma raise_table:
  assumes "table_ready E s" "v < 256"
  shows "raise E v tf s = exception_handler (tf\<lparr>tf_vector := of_nat v\<rparr>) s"
proof -
  obtain g where "hw_vector (idt_mem s) (idt_reg s) v = Some g" "entry_label (entries E) (hw_offset g) = Some v"
    using assms by (auto simp: table_ready_def bind_eq_Some_conv)
  then show ?thesis
    using assms(1) by (simp add: raise_def handle_frame_def common_exception_handler_def table_ready_def)
qed

lemma table_ready_cong:
  assumes "idt_mem s' = idt_mem s" "idt_reg s' = idt_reg s" "g_handler s' = g_handler s"
  shows "table_ready E s' = table_ready E s"
  by (simp add: table_ready_def assms)

lemma space_ok_cong:
  assumes "pmem s' = pmem s" "cr3 s' = cr3 s" "g_cached_cr3 s' = g_cached_cr3 s" "tlb s' = tlb s"
  shows "space_ok c D s' = space_ok c D s" "page_writable c s' u = page_writable c s u"
  by (simp_all add: space_ok_def tlb_ok_def hw_page_def page_writable_def assms)

lemma setup_machine_ok:
  assumes "link_ok E" "space_before D s"
  shows "machine_ok E (cr3 s) D (setup_handler E s)"
proof -
  obtain m r ev where m: "init_exception (entries E) (idt_addr E) (idt0 E) (idt_mem s) = (m, r)"
    "setup_handler E s = s\<lparr>idt_mem := m, idt_reg := r,
       g_handler := Some Exception_handler, g_cached_cr3 := cr3 s, out := ev\<rparr>"
    using setup_handler_eq by blast
  have l: "length (idt0 E) = 256" "inj_on (entries E) {..<256}"
    using assms by (simp_all add: link_ok_def)
  have "table_ready E (setup_handler E s)"
    using hw_vector_init [OF m(1) l(1)] entry_label_inj [OF l(2)]
    by (simp add: table_ready_def m(2))
  then show ?thesis using setup_handler_space(1) [OF assms(2)] by (simp add: machine_ok_def)
qed

section \<open>Simulation\<close>

text \<open>A change of the memory system alone.\<close>

lemma mmu_change:
  fixes s s' :: penclave
  assumes "mmu.more s' = mmu.more s" "space_ok c D s'"
    and "\<forall>u\<in>set D. page_writable c s' u = (u \<in> W)" "table_ready E s"
  shows "machine_ok E c D s'" "out s' = out s"
    and "pspec_of c D s' = (pspec_of c D s)\<lparr>wr := set D \<inter> W\<rparr>"
  using assms table_ready_cong [where s' = s' and s = s] more_fields [OF assms(1)]
  by (auto simp: machine_ok_def pspec_of_def)

lemma store_effect:
  assumes "machine_ok E c D s" "v \<in> set D" "mmu_store8 s v b = Done s'"
  shows "page_writable c s v" "machine_ok E c D s' \<and> pspec_of c D s' = pspec_of c D s \<and> out s' = out s"
proof -
  have s: "space_ok c D s" "table_ready E s" using assms(1) by (simp_all add: machine_ok_def)
  show w: "page_writable c s v" using store_faults [OF s(1) assms(2), of b] assms(3) by fastforce
  obtain m t where m: "s' = s\<lparr>pmem := m, tlb := t\<rparr>" "space_ok c D s'"
    "\<forall>u\<in>set D. page_writable c s' u = page_writable c s u"
    using store_writable [OF s(1) assms(2) w, of b] assms(3) by auto
  have "\<forall>u\<in>set D. page_writable c s' u = (u \<in> {v. page_writable c s v})" using m(3) by simp
  from mmu_change [OF _ m(2) this s(2)] show "machine_ok E c D s' \<and> pspec_of c D s' = pspec_of c D s \<and> out s' = out s"
    by (auto simp: m(1) pspec_of_def)
qed

lemma protect_effect:
  assumes "machine_ok E c D s" "admissible D (Protect a len flags)"
  shows "\<exists>s'. mprotect s a len flags = Some (Ret (0, s')) \<and> machine_ok E c D s' \<and> out s' = out s \<and>
    spec_step (Protect a len flags) (pspec_of c D s) = Some (pspec_of c D s')"
proof -
  have s: "space_ok c D s" "table_ready E s" using assms(1) by (simp_all add: machine_ok_def)
  have sp: "g_cached_cr3 s = c" "pt_ok (pmem s) c D" using s(1) by (simp_all add: space_ok_def)
  let ?s = "set_leaves flags (pages a (unat len div 4096)) s"
  let ?W = "if flags = PTE_P then {v. page_writable c s v} - range_pages a len
    else {v. page_writable c s v} \<union> range_pages a len"
  have r: "set (pages a (unat len div 4096)) \<subseteq> set D" using assms(2) by (simp add: range_pages_def)
  have fl: "hw_addr flags = 0" "bit flags 0" "bit flags (Suc 0) \<longleftrightarrow> flags \<noteq> PTE_P"
    using assms(2) flags_ok by auto
  have "mprotect s a len flags = Some (Ret (0, ?s))"
    using mprotect_run [of s D a len flags] sp assms(2) r by simp
  moreover have "space_ok c D ?s" "\<forall>u\<in>set D. page_writable c ?s u = (u \<in> ?W)"
    using set_leaves_space_ok [OF s(1) r fl(1,2)] fl(3) by (auto simp: range_pages_def)
  note c = mmu_change [OF _ this s(2)]
  moreover have "mmu.more ?s = mmu.more s" by (rule set_leaves_frame)
  moreover have "set D \<inter> ?W = (if flags = PTE_P then wr (pspec_of c D s) - range_pages a len
      else wr (pspec_of c D s) \<union> range_pages a len)"
    using r by (auto simp: pspec_of_def range_pages_def)
  ultimately show ?thesis by (intro exI [of _ ?s]) simp
qed

lemma fault_effect:
  assumes "machine_ok E c D s" "v \<in> set D" "mmu_store8 s v b = Fault s1"
  shows "\<not> page_writable c s v"
    and "\<exists>tf' s'. raise E 14 tf s1 = Some (Inr (tf', s')) \<and> tf_rip tf' = tf_rip tf \<and>
      machine_ok E c D s' \<and> out s' = out s \<and>
      spec_step (Page_fault v) (pspec_of c D s) = Some (pspec_of c D s')"
proof -
  have s: "space_ok c D s" "table_ready E s" using assms(1) by (simp_all add: machine_ok_def)
  show w: "\<not> page_writable c s v"
    using store_writable [OF s(1) assms(2), of b] assms(3) by auto
  have s1: "s1 = s\<lparr>cr2 := v, tlb := (tlb s)(vpn v := None)\<rparr>"
    using store_faults [OF s(1) assms(2) w, of b] assms(3) by simp
  let ?s1 = "s1\<lparr>g_pf_count := g_pf_count s1 + 1\<rparr>"
  let ?s2 = "set_leaf (PTE_P OR PTE_W) v ?s1"
  have ok: "space_ok c D ?s1" "table_ready E ?s1"
    using space_ok_fault [OF s(1)] s(2) by (simp_all add: space_ok_update s1 table_ready_def)
  have pw: "page_writable c ?s1 u = page_writable c s u" for u by (simp add: s1 page_writable_def)
  have "raise E 14 tf s1 = Some (Inr (tf\<lparr>tf_vector := 14\<rparr>, ?s2))"
    using raise_table [of E s1 14 tf] mprotect_one_page [OF ok(1) assms(2), of "PTE_P OR PTE_W"] ok(2)
    by (simp add: exception_handler_def read_cr2_def table_ready_def s1)
  moreover have "space_ok c D ?s2"
    "\<forall>u\<in>set D. page_writable c ?s2 u = (u \<in> insert v {u. page_writable c s u})"
    using set_leaf_space [OF ok(1) assms(2) flags_ok(1,2)] flags_ok(3) pw by auto
  note c = mmu_change [OF _ this ok(2)]
  moreover have "mmu.more ?s2 = mmu.more ?s1" by (simp add: frame_simps)
  moreover have "pspec_of c D ?s1 = (pspec_of c D s)\<lparr>faults := faults (pspec_of c D s) + 1\<rparr>"
    unfolding pspec_of_def pw by (simp add: s1)
  ultimately show "\<exists>tf' s'. raise E 14 tf s1 = Some (Inr (tf', s')) \<and> tf_rip tf' = tf_rip tf \<and>
      machine_ok E c D s' \<and> out s' = out s \<and>
      spec_step (Page_fault v) (pspec_of c D s) = Some (pspec_of c D s')"
    using w assms(2) by (intro exI [of _ "tf\<lparr>tf_vector := 14\<rparr>"] exI [of _ ?s2])
      (auto simp: s1 pspec_of_def)
qed

lemma counter_effect:
  fixes s :: penclave
  assumes "machine_ok E c D s" and s': "s' = s\<lparr>g_ud_count := u, g_intr_count := i, injected := j\<rparr>"
  shows "machine_ok E c D s'" "out s' = out s"
    and "pspec_of c D s' = (pspec_of c D s)\<lparr>uds := u, intrs := i, sent := j\<rparr>"
  using assms(1) space_ok_cong [where s' = s' and s = s] table_ready_cong [where s' = s' and s = s]
  by (simp_all add: s' machine_ok_def pspec_of_def page_writable_def)

lemma undefined_effect:
  assumes "machine_ok E c D s"
  shows "\<exists>tf' s'. raise E 6 tf s = Some (Inr (tf', s')) \<and> tf_rip tf' = tf_rip tf + 2 \<and>
    machine_ok E c D s' \<and> out s' = out s \<and>
    spec_step Undefined (pspec_of c D s) = Some (pspec_of c D s')"
proof -
  let ?s = "s\<lparr>g_ud_count := g_ud_count s + 1\<rparr>"
  have "?s = s\<lparr>g_ud_count := g_ud_count s + 1, g_intr_count := g_intr_count s, injected := injected s\<rparr>"
    by (cases s) simp
  note c = counter_effect [OF assms this]
  have "table_ready E s" using assms by (simp add: machine_ok_def)
  then have "raise E 6 tf s = Some (Inr (tf\<lparr>tf_vector := 6, tf_rip := tf_rip tf + 2\<rparr>, ?s))"
    by (simp add: raise_table exception_handler_def)
  then show ?thesis using c by (simp add: pspec_of_def)
qed

lemma interrupt_vector:
  assumes "32 \<le> n" "n < 256"
  shows "ucast (of_nat n :: u64) = (of_nat n :: u32)" "of_nat n \<noteq> (6 :: u32)" "of_nat n \<noteq> (0xE :: u32)"
    and "32 \<le> sint (of_nat n :: u32)"
proof -
  have u: "uint (of_nat n :: u32) = int n" "uint (of_nat n :: u64) = int n"
    using assms(2) by (simp_all add: unsigned_of_nat take_bit_nat_eq_self)
  then show "of_nat n \<noteq> (6 :: u32)" "of_nat n \<noteq> (0xE :: u32)" using assms(1) by auto
  have "sint (of_nat n :: u32) = int n" using assms(2) u by (simp add: sint_uint signed_take_bit_int_eq_self)
  then show "32 \<le> sint (of_nat n :: u32)" using assms(1) by simp
  show "ucast (of_nat n :: u64) = (of_nat n :: u32)"
    using assms(2) by (simp add: word_uint_eq_iff u unsigned_ucast_eq take_bit_int_eq_self)
qed

lemma interrupt_effect:
  assumes "machine_ok E c D s" "32 \<le> n" "n < 256"
  shows "\<exists>tf' s'. raise E n tf s = Some (Inr (tf', s')) \<and> tf_rip tf' = tf_rip tf \<and>
    machine_ok E c D s' \<and> out s' = out s \<and>
    spec_step (Interrupt n (tf_err_code tf)) (pspec_of c D s) = Some (pspec_of c D s')"
proof -
  let ?s = "s\<lparr>g_intr_count := g_intr_count s + 1, injected := injected s @ [(of_nat n, tf_err_code tf)]\<rparr>"
  have "?s = s\<lparr>g_ud_count := g_ud_count s, g_intr_count := g_intr_count s + 1,
      injected := injected s @ [(of_nat n, tf_err_code tf)]\<rparr>"
    by (cases s) simp
  note c = counter_effect [OF assms(1) this]
  have "table_ready E s" using assms by (simp add: machine_ok_def)
  then have "raise E n tf s = Some (Inr (tf\<lparr>tf_vector := of_nat n\<rparr>, ?s))"
    using interrupt_vector [OF assms(2,3)] assms(3) by (simp add: raise_table exception_handler_def)
  then show ?thesis using c by (simp add: pspec_of_def)
qed

text \<open>Every step is a step of the specification, and no other is possible.\<close>

lemma step_simulation:
  assumes "pstep E s e s'" "machine_ok E c D s" "admissible D e"
  shows "machine_ok E c D s' \<and> out s' = out s \<and>
    spec_step e (pspec_of c D s) = Some (pspec_of c D s')"
  using assms
proof cases
  case (store v b)
  then show ?thesis
    using store_effect [OF assms(2), of v b s'] assms(3) by (simp add: pspec_of_def)
next
  case (page_fault v b s1 tf tf')
  then show ?thesis using fault_effect(2) [OF assms(2), of v b s1 tf] assms(3) by auto
next
  case (protect a len flags)
  then show ?thesis using protect_effect [OF assms(2), of a len flags] assms(3) by auto
next
  case (undefined tf tf')
  then show ?thesis using undefined_effect [OF assms(2), of tf] by auto
next
  case (interrupt n tf tf')
  then show ?thesis using interrupt_effect [OF assms(2), of n tf] by auto
qed

lemma step_enabled:
  assumes "machine_ok E c D s" "admissible D e" "spec_step e (pspec_of c D s) \<noteq> None"
  shows "\<exists>s'. pstep E s e s'"
proof (cases e)
  case (Store v b)
  then have "page_writable c s v" "v \<in> set D" "space_ok c D s"
    using assms by (auto simp: pspec_of_def machine_ok_def split: if_splits)
  then show ?thesis using store_writable [of c D s v b] Store by (auto intro: pstep.store)
next
  case (Page_fault v)
  then have v: "\<not> page_writable c s v" "v \<in> set D" "space_ok c D s"
    using assms by (auto simp: pspec_of_def machine_ok_def split: if_splits)
  note f = store_faults [OF v(3,2,1), of 0]
  show ?thesis
    using fault_effect(2) [OF assms(1) v(2) f] f Page_fault by (blast intro: pstep.page_fault)
next
  case (Protect a len flags)
  then show ?thesis using protect_effect [OF assms(1), of a len flags] assms(2) by (auto intro: pstep.protect)
next
  case Undefined
  then show ?thesis using undefined_effect [OF assms(1)] by (blast intro: pstep.undefined)
next
  case (Interrupt n err)
  define tf where "tf = trapframe_of demo_cpu n err"
  have "tf_err_code tf = err" by (simp add: tf_def trapframe_of_def)
  moreover obtain tf' s' where "raise E n tf s = Some (Inr (tf', s'))" "tf_rip tf' = tf_rip tf"
    using interrupt_effect [OF assms(1), of n tf] assms(2) Interrupt by auto
  ultimately show ?thesis
    using pstep.interrupt [of n E tf s tf' s'] assms(2) Interrupt by auto
qed

section \<open>Runs\<close>

lemma trace_simulation:
  assumes "ptrace E s es s'" "machine_ok E c D s" "list_all (admissible D) es"
  shows "machine_ok E c D s' \<and> out s' = out s \<and>
    spec_run es (pspec_of c D s) = Some (pspec_of c D s')"
  using assms
proof (induction rule: ptrace.induct)
  case (more s e s1 es s')
  then show ?case using step_simulation [OF more.hyps(1), of c D] by auto
qed simp

lemma trace_enabled:
  assumes "machine_ok E c D s" "list_all (admissible D) es" "spec_run es (pspec_of c D s) \<noteq> None"
  shows "\<exists>s'. ptrace E s es s'"
  using assms
proof (induction es arbitrary: s)
  case (Cons e es)
  then obtain s1 where s1: "pstep E s e s1"
    using step_enabled [of E c D s e] by (auto split: bind_splits)
  then have "machine_ok E c D s1" "spec_step e (pspec_of c D s) = Some (pspec_of c D s1)"
    using step_simulation [OF s1 Cons.prems(1)] Cons.prems(2) by auto
  then obtain s2 where "ptrace E s1 es s2" using Cons by auto
  with s1 have "ptrace E s (e # es) s2" by (rule ptrace.more)
  then show ?case ..
qed (auto intro: ptrace.none)

lemma ptrace_append: "ptrace E s es s1 \<Longrightarrow> ptrace E s1 es' s' \<Longrightarrow> ptrace E s (es @ es') s'"
  by (induction rule: ptrace.induct) (auto simp: ptrace_Cons)

text \<open>C8: the P-Enclave refines and is refined by its specification: from the state
  \<open>ecall_exception\<close> sets up, a sequence of stores, page faults, protections, \<open>ud2\<close>s and
  interrupts, in any order and number, can happen exactly if the specification allows it,
  and every state reached has the specification's counters, interrupts handed on and
  writable pages, a well-formed address space with a coherent TLB, and all gates intact.\<close>

theorem trace_refines_spec:
  assumes "link_ok E" "space_before D s" "list_all (admissible D) es"
  shows "((\<exists>s'. ptrace E (setup_handler E s) es s') \<longleftrightarrow>
      spec_run es (pspec_of (cr3 s) D (setup_handler E s)) \<noteq> None) \<and>
    (\<forall>s'. ptrace E (setup_handler E s) es s' \<longrightarrow>
      spec_run es (pspec_of (cr3 s) D (setup_handler E s)) = Some (pspec_of (cr3 s) D s') \<and>
      machine_ok E (cr3 s) D s' \<and> out s' = out (setup_handler E s))"
  using trace_simulation [OF _ setup_machine_ok [OF assms(1,2)] assms(3)]
    trace_enabled [OF setup_machine_ok [OF assms(1,2)] assms(3)] by blast

definition demo_events :: "event_kind list" where
  "demo_events = [Page_fault 0x400000, Interrupt 32 7, Store 0x400000 1, Store 0x401000 2,
     Protect 0x400000 8192 PTE_P, Undefined, Page_fault 0x401000, Store 0x401000 3]"

lemma demo_range: "range_pages 0x400000 8192 = {0x400000, 0x401000}"
proof -
  have "[0..<2 :: nat] = [0, 1]" by (simp add: upt_rec)
  then show ?thesis by (simp add: range_pages_def pages_def)
qed

lemma demo_admissible: "list_all (admissible [0x400000, 0x401000]) demo_events"
  by (simp add: demo_events_def demo_range PGSIZE_def)

lemma demo_writable:
  "{v \<in> set [0x400000, 0x401000]. page_writable 0x1000 (setup_handler demo_env demo_penclave) v} = {0x401000}"
  using setup_handler_space(2) [OF demo_space] by (auto simp: page_writable_def demo_leaf)

lemma demo_spec_run:
  "spec_run demo_events (pspec_of 0x1000 [0x400000, 0x401000] (setup_handler demo_env demo_penclave)) =
     Some \<lparr>faults = 2, uds = 1, intrs = 1, sent = [(32, 7)], wr = {0x401000}\<rparr>"
proof -
  have "pspec_of 0x1000 [0x400000, 0x401000] (setup_handler demo_env demo_penclave) =
      \<lparr>faults = 0, uds = 0, intrs = 0, sent = [], wr = {0x401000}\<rparr>"
    unfolding pspec_of_def demo_writable using setup_handler_space(3-6) [OF demo_space, of demo_env]
    by (simp add: demo_penclave_def mmu.defs)
  then show ?thesis by (simp add: demo_events_def demo_range)
qed

theorem trace_refines_spec_witness:
  "\<exists>s'. ptrace demo_env (setup_handler demo_env demo_penclave) demo_events s' \<and>
     g_pf_count s' = 2 \<and> g_ud_count s' = 1 \<and> injected s' = [(32, 7)]"
proof -
  let ?s = "setup_handler demo_env demo_penclave"
  have c: "cr3 demo_penclave = 0x1000" by simp
  note demo_spec_run
  moreover note trace_refines_spec [OF demo_link demo_space demo_admissible, unfolded c]
  ultimately obtain s' where "ptrace demo_env ?s demo_events s'"
    "pspec_of 0x1000 [0x400000, 0x401000] s' = \<lparr>faults = 2, uds = 1, intrs = 1, sent = [(32, 7)], wr = {0x401000}\<rparr>"
    by auto
  then show ?thesis by (auto simp: pspec_of_def)
qed

section \<open>Faults and stores\<close>

text \<open>A protection that takes the write permission of a page away.\<close>

fun revokes :: "u64 \<Rightarrow> event_kind \<Rightarrow> bool" where
  "revokes v (Protect a len flags) \<longleftrightarrow> flags = PTE_P \<and> v \<in> range_pages a len"
| "revokes v e \<longleftrightarrow> False"

fun asynchronous :: "event_kind \<Rightarrow> bool" where
  "asynchronous (Interrupt n err) \<longleftrightarrow> 32 \<le> n \<and> n < 256"
| "asynchronous Undefined \<longleftrightarrow> True"
| "asynchronous e \<longleftrightarrow> False"

lemma spec_faults_bounded:
  "spec_run es a = Some a' \<Longrightarrow>
     count_list es (Page_fault v) + (if v \<in> wr a' then 0 else 1) \<le>
       (if v \<in> wr a then 0 else 1) + length (filter (revokes v) es)"
proof (induction es arbitrary: a)
  case (Cons e es)
  then obtain a1 where a1: "spec_step e a = Some a1" "spec_run es a1 = Some a'"
    by (auto split: bind_splits)
  have "(if e = Page_fault v then 1 else 0) + (if v \<in> wr a1 then 0 else 1) \<le>
      (if v \<in> wr a then 0 else 1) + (if revokes v e then 1 else (0 :: nat))"
    using a1(1) by (cases e) (auto split: if_splits)
  then show ?case using Cons.IH [OF a1(2)] by (auto split: if_splits)
qed simp

lemma spec_async:
  "list_all asynchronous es \<Longrightarrow> \<exists>a'. spec_run es a = Some a' \<and> wr a' = wr a"
proof (induction es arbitrary: a)
  case (Cons e es)
  then obtain a1 where a1: "spec_step e a = Some a1" "wr a1 = wr a" by (cases e) auto
  then show ?case using Cons.IH [of a1] Cons.prems by auto
qed simp

lemma spec_run_append:
  "spec_run (es @ es') a = Option.bind (spec_run es a) (spec_run es')"
  by (induction es arbitrary: a) (auto split: bind_split)

lemma spec_faults_between:
  assumes "spec_run (xs @ ys @ zs) a = Some a'" "list_all (\<lambda>e. \<not> revokes v e) ys"
  shows "count_list ys (Page_fault v) \<le> 1"
proof -
  obtain a1 a2 where "spec_run xs a = Some a1" "spec_run ys a1 = Some a2"
    using assms(1) by (auto simp: spec_run_append split: bind_splits)
  moreover have "filter (revokes v) ys = []"
    using assms(2) by (simp add: filter_empty_conv list_all_iff)
  ultimately show ?thesis using spec_faults_bounded [of ys a1 a2 v] by (auto split: if_splits)
qed

text \<open>C9: in every stretch of a run, wherever it begins and ends, in which no protection takes
  the write permission of a page away, the page faults at most once; over the whole run it
  faults at most once more than such protections happen, and not more often when it is
  writable at the start; and after any run a store to a page of the space goes through, directly or
  after one fault, whatever interrupts and \<open>ud2\<close>s come between the fault and the repeated
  store.\<close>

theorem store_goes_through:
  assumes "link_ok E" "space_before D s" "list_all (admissible D) es" "v \<in> set D"
    and "ptrace E (setup_handler E s) es s'" "list_all asynchronous between"
  shows "(\<forall>xs ys zs. es = xs @ ys @ zs \<and> list_all (\<lambda>e. \<not> revokes v e) ys \<longrightarrow>
      count_list ys (Page_fault v) \<le> 1) \<and>
    count_list es (Page_fault v) \<le>
      (if page_writable (cr3 s) s v then 0 else 1) + length (filter (revokes v) es) \<and>
    (\<exists>s''. ptrace E s' ((if page_writable (cr3 s) s' v then [] else [Page_fault v]) @
       between @ [Store v b]) s'')"
proof -
  let ?c = "cr3 s" and ?s0 = "setup_handler E s"
  have sim: "machine_ok E ?c D s'" "spec_run es (pspec_of ?c D ?s0) = Some (pspec_of ?c D s')"
    using trace_simulation [OF assms(5) setup_machine_ok [OF assms(1,2)] assms(3)] by simp_all
  have wr: "v \<in> wr (pspec_of ?c D t) \<longleftrightarrow> page_writable ?c t v" for t
    using assms(4) by (simp add: pspec_of_def)
  have "page_writable ?c ?s0 v = page_writable ?c s v" by (rule setup_handler_space(2) [OF assms(2)])
  then have "count_list es (Page_fault v) \<le>
      (if page_writable ?c s v then 0 else 1) + length (filter (revokes v) es)"
    using spec_faults_bounded [OF sim(2), of v] by (simp add: wr split: if_splits)
  moreover have "\<exists>s''. ptrace E s' ((if page_writable ?c s' v then [] else [Page_fault v]) @
       between @ [Store v b]) s''" (is "\<exists>s''. ptrace E s' (?pf @ _) s''")
  proof (rule trace_enabled [OF sim(1)])
    have "list_all (admissible D) between"
      using assms(6) by (induction between) (auto elim: asynchronous.elims)
    then show "list_all (admissible D) (?pf @ between @ [Store v b])" using assms(4) by simp
    obtain a where a: "spec_run ?pf (pspec_of ?c D s') = Some a" "v \<in> wr a"
      using wr [of s'] by (cases "page_writable ?c s' v") auto
    obtain a' where "spec_run between a = Some a'" "wr a' = wr a"
      using spec_async [OF assms(6)] by blast
    then show "spec_run (?pf @ between @ [Store v b]) (pspec_of ?c D s') \<noteq> None"
      using a by (simp add: spec_run_append)
  qed
  moreover have "count_list ys (Page_fault v) \<le> 1"
    if "es = xs @ ys @ zs" "list_all (\<lambda>e. \<not> revokes v e) ys" for xs ys zs
    using spec_faults_between [OF _ that(2)] sim(2) that(1) by blast
  ultimately show ?thesis by blast
qed

theorem store_goes_through_witness:
  "\<exists>s' s''. ptrace demo_env (setup_handler demo_env demo_penclave) demo_events s' \<and>
     count_list [Undefined, Page_fault 0x401000, Store 0x401000 3] (Page_fault 0x401000) \<le> 1 \<and>
     ptrace demo_env s' [Page_fault 0x400000, Interrupt 32 7, Undefined, Store 0x400000 9] s''"
proof -
  let ?s = "setup_handler demo_env demo_penclave" and ?D = "[0x400000, 0x401000] :: u64 list"
  have c: "cr3 demo_penclave = 0x1000" by simp
  note ok = setup_machine_ok [OF demo_link demo_space, unfolded c]
  obtain s' where t: "ptrace demo_env ?s demo_events s'"
    using trace_enabled [OF ok demo_admissible] demo_spec_run by auto
  have "pspec_of 0x1000 ?D s' = \<lparr>faults = 2, uds = 1, intrs = 1, sent = [(32, 7)], wr = {0x401000}\<rparr>"
    using trace_simulation [OF t ok demo_admissible] demo_spec_run by simp
  from arg_cong [OF this, of wr] have "{v \<in> set ?D. page_writable 0x1000 s' v} = {0x401000}"
    by (simp only: pspec_of_def pspec.simps)
  moreover have "0x400000 \<in> set ?D" "0x400000 \<noteq> (0x401000 :: u64)" by simp_all
  ultimately have w: "\<not> page_writable 0x1000 s' 0x400000" by blast
  have r: "demo_events = [Page_fault 0x400000, Interrupt 32 7, Store 0x400000 1, Store 0x401000 2,
     Protect 0x400000 8192 PTE_P] @ [Undefined, Page_fault 0x401000, Store 0x401000 3] @ []"
    "list_all (\<lambda>e. \<not> revokes 0x401000 e) [Undefined, Page_fault 0x401000, Store 0x401000 3]"
    by (simp_all add: demo_events_def)
  note g = store_goes_through [OF demo_link demo_space demo_admissible _ t, unfolded c]
  have "count_list [Undefined, Page_fault 0x401000, Store 0x401000 3] (Page_fault 0x401000) \<le> 1"
    using g [of "0x401000" "[]" 0] r by auto
  moreover have "\<exists>s''. ptrace demo_env s' [Page_fault 0x400000, Interrupt 32 7, Undefined, Store 0x400000 9] s''"
    using g [of "0x400000" "[Interrupt 32 7, Undefined]" 9] w by simp
  ultimately show ?thesis using t by blast
qed

end
