(* ===== verification/Bench.thy ===== *)
theory Bench
  imports Prelude "HOL-Library.Multiset"
begin

text \<open>
  The statistics of the edge-call benchmark: \<open>cmpfunc\<close> and \<open>bench_stats\<close> of
  \<open>server/edge-calls/Include/bench.h\<close>.

  Samples are 64-bit words.  The sums, averages and deviations are computed in IEEE
  doubles, operation by operation (\<open>rnd\<close>).  \<open>None\<close> is undefined behaviour: an array read
  out of bounds, a null \<open>FILE*\<close>, a conversion of a double out of range.

  \<open>qsort\<close> is known by its contract, a sorted permutation; the locale \<open>comparator\<close>
  states what makes that contract determine the result, and is interpreted on
  \<open>cmpfunc\<close>, so that an insertion sort can stand for the library's.
\<close>

type_synonym latency_t = u64

definition MAX_RUN_TIMES :: nat where "MAX_RUN_TIMES = 2000000"

section \<open>Sorting\<close>

definition cmpfunc :: "latency_t \<Rightarrow> latency_t \<Rightarrow> int" where
  "cmpfunc aa bb = (if bb < aa then 1 else if aa < bb then -1 else 0)"

primrec insert_cmp :: "('a \<Rightarrow> 'a \<Rightarrow> int) \<Rightarrow> 'a \<Rightarrow> 'a list \<Rightarrow> 'a list" where
  "insert_cmp cmp x [] = [x]"
| "insert_cmp cmp x (y # ys) = (if cmp x y \<le> 0 then x # y # ys else y # insert_cmp cmp x ys)"

definition qsort :: "('a \<Rightarrow> 'a \<Rightarrow> int) \<Rightarrow> 'a list \<Rightarrow> 'a list" where
  "qsort cmp xs = foldr (insert_cmp cmp) xs []"

locale comparator =
  fixes cmp :: "'a \<Rightarrow> 'a \<Rightarrow> int"
  assumes cmp_total: "cmp x y \<le> 0 \<or> cmp y x \<le> 0"
    and cmp_trans: "cmp x y \<le> 0 \<Longrightarrow> cmp y z \<le> 0 \<Longrightarrow> cmp x z \<le> 0"
    and cmp_antisym: "cmp x y \<le> 0 \<Longrightarrow> cmp y x \<le> 0 \<Longrightarrow> x = y"
begin

lemma mset_insert_cmp: "mset (insert_cmp cmp x ys) = add_mset x (mset ys)"
  by (induction ys) auto

lemma mset_qsort: "mset (qsort cmp xs) = mset xs"
  by (induction xs) (simp_all add: qsort_def mset_insert_cmp)

lemma set_insert_cmp: "set (insert_cmp cmp x ys) = insert x (set ys)"
  by (induction ys) auto

lemma sorted_insert_cmp:
  "sorted_wrt (\<lambda>x y. cmp x y \<le> 0) ys \<Longrightarrow> sorted_wrt (\<lambda>x y. cmp x y \<le> 0) (insert_cmp cmp x ys)"
proof (induction ys)
  case (Cons y ys)
  then show ?case
    using cmp_total [of x y] cmp_trans [of x y] by (auto simp: set_insert_cmp)
qed simp

lemma sorted_qsort: "sorted_wrt (\<lambda>x y. cmp x y \<le> 0) (qsort cmp xs)"
  by (induction xs) (simp_all add: qsort_def sorted_insert_cmp)

text \<open>Any sorted permutation is the result.\<close>

lemma sorted_unique:
  assumes "sorted_wrt (\<lambda>x y. cmp x y \<le> 0) xs" "sorted_wrt (\<lambda>x y. cmp x y \<le> 0) ys" "mset xs = mset ys"
  shows "xs = ys"
  using assms
proof (induction xs arbitrary: ys)
  case (Cons x xs)
  then obtain y ys' where ys: "ys = y # ys'" by (cases ys) auto
  have xy: "x \<in> set ys" "y \<in> set (x # xs)"
    using Cons.prems(3) ys by (metis list.set_intros(1) set_mset_mset)+
  have refl: "cmp z z \<le> 0" for z using cmp_total by blast
  have "cmp x y \<le> 0" using xy(2) Cons.prems(1) refl by auto
  moreover have "cmp y x \<le> 0" using xy(1) Cons.prems(2) refl ys by auto
  ultimately have "x = y" by (rule cmp_antisym)
  then show ?case using Cons ys by auto
qed simp

lemma qsort_perm: "mset xs = mset ys \<Longrightarrow> qsort cmp xs = qsort cmp ys"
  by (rule sorted_unique) (simp_all add: sorted_qsort mset_qsort)

end

interpretation latency: comparator cmpfunc
  by unfold_locales (auto simp: cmpfunc_def split: if_splits)

lemma cmpfunc_le: "cmpfunc a b \<le> 0 \<longleftrightarrow> a \<le> b"
  by (auto simp: cmpfunc_def)

lemma sorted_qsort_cmpfunc: "sorted (qsort cmpfunc xs)"
  using latency.sorted_qsort [of xs] by (simp add: cmpfunc_le)

lemma length_qsort [simp]: "length (qsort cmpfunc xs) = length xs"
  using latency.mset_qsort [of xs] by (metis size_mset)

lemma set_qsort [simp]: "set (qsort cmpfunc xs) = set xs"
  using latency.mset_qsort [of xs] by (metis set_mset_mset)

section \<open>bench\_stats\<close>

declare of_nat_unat [simp del]

definition dbl_of :: "u64 \<Rightarrow> real" where "dbl_of w = rnd (real (unat w))"

text \<open>\<open>(latency_t)x\<close>: the fraction is dropped; undefined out of range.\<close>

definition to_u64 :: "real \<Rightarrow> u64 option" where
  "to_u64 x = (if -1 < x \<and> x < 2 ^ 64 then Some (word_of_int (if x < 0 then 0 else \<lfloor>x\<rfloor>)) else None)"

text \<open>The samples after the warm-up, if the reads are in bounds.\<close>

definition bench_samples :: "int \<Rightarrow> int \<Rightarrow> latency_t list \<Rightarrow> latency_t list option" where
  "bench_samples warmup_times test_times all_cycles =
     (if 0 \<le> warmup_times \<and> 0 < test_times \<and> nat test_times \<le> MAX_RUN_TIMES \<and>
         nat (warmup_times + test_times) \<le> length all_cycles
      then Some (map (\<lambda>i. all_cycles ! (i + nat warmup_times)) [0..<nat test_times]) else None)"

record stats =
  st_median :: real
  st_ave :: real
  st_min :: real
  st_max :: real
  st_std :: dbl

definition sum_cycles :: "latency_t list \<Rightarrow> real" where
  "sum_cycles t = fold (\<lambda>x sum. rnd (sum + dbl_of x)) t 0"

definition sum_squares :: "latency_t list \<Rightarrow> real" where
  "sum_squares t = fold (\<lambda>x sum2. rnd (sum2 + rnd (dbl_of x * dbl_of x))) t 0"

definition compute_stats :: "latency_t \<Rightarrow> latency_t list \<Rightarrow> stats" where
  "compute_stats time_offset samples =
     (let t = qsort cmpfunc samples;
          n = length t;
          sum = sum_cycles t;
          sum2 = sum_squares t;
          min = dbl_of (t ! 0);
          max = dbl_of (t ! (n - 1));
          ave = rnd (sum / real n);
          std = dbl_sqrt (rnd (rnd (sum2 / real n) - rnd (ave * ave)));
          median = rnd (dbl_of (t ! (n div 2) + t ! ((n - 1) div 2)) / 2)
      in \<lparr>st_median = rnd (median - dbl_of time_offset),
          st_ave = rnd (ave - dbl_of time_offset),
          st_min = rnd (min - dbl_of time_offset),
          st_max = rnd (max - dbl_of time_offset),
          st_std = std\<rparr>)"

definition out_name :: "string \<Rightarrow> string" where
  "out_name name = take 249 (name @ ''.txt'')"

definition stats_events :: "string \<Rightarrow> stats \<Rightarrow> latency_t list \<Rightarrow> event list" where
  "stats_events name r samples =
     [Print (''Median = %.3lf'' @ nl) [ADbl (Fin (st_median r))],
      Print (''Average = %.3lf'' @ nl) [ADbl (Fin (st_ave r))],
      Print (''Min = %.3lf'' @ nl) [ADbl (Fin (st_min r))],
      Print (''Max = %.3lf'' @ nl) [ADbl (Fin (st_max r))],
      Print (''Deviation = %.3lf'' @ nl) [ADbl (st_std r)],
      Print nl [],
      Fopen (out_name name)] @
     map (\<lambda>x. Fprint (out_name name) (''%ld'' @ nl) [AWord x]) samples @
     [Fclose (out_name name),
      Fprint ''stats.csv'' (''%s,%lf,%lf,%lf,%lf,%lf'' @ nl)
        [AStr name, ADbl (Fin (st_median r)), ADbl (Fin (st_ave r)), ADbl (Fin (st_min r)),
         ADbl (Fin (st_max r)), ADbl (st_std r)]]"

definition bench_stats ::
  "(string \<Rightarrow> bool) \<Rightarrow> string \<Rightarrow> latency_t \<Rightarrow> int \<Rightarrow> int \<Rightarrow> latency_t list \<Rightarrow> (latency_t \<times> event list) option"
where
  "bench_stats fopen_ok name time_offset warmup_times test_times all_cycles =
     Option.bind (bench_samples warmup_times test_times all_cycles) (\<lambda>samples.
       if \<not> fopen_ok (out_name name) then None
       else let r = compute_stats time_offset samples
            in map_option (\<lambda>l. (l, stats_events name r samples)) (to_u64 (rnd (st_median r + 1 / 2))))"

section \<open>Properties\<close>

lemma dbl_of_mono: "a \<le> b \<Longrightarrow> dbl_of a \<le> dbl_of b"
  by (simp add: dbl_of_def rnd_mono_real word_le_nat_alt)

lemma dbl_of_exact: "unat x \<le> 2 ^ 53 \<Longrightarrow> dbl_of x = real (unat x)"
  by (simp add: dbl_of_def rnd_representable representable_nat)

text \<open>The statistics and the value returned do not depend on the order in which the samples
  were taken.\<close>

theorem compute_stats_perm:
  assumes "mset xs = mset ys"
  shows "compute_stats time_offset xs = compute_stats time_offset ys"
  by (simp add: compute_stats_def latency.qsort_perm [OF assms])

theorem compute_stats_perm_witness:
  "compute_stats 100 [300, 200, 250, 200] = compute_stats 100 [200, 200, 250, 300]"
  by (rule compute_stats_perm) simp

text \<open>Exact sums, for any integer valued summand.\<close>

lemma exact_fold:
  fixes f :: "u64 \<Rightarrow> nat"
  assumes "(\<Sum>x\<leftarrow>t. f x) \<le> 2 ^ 53" "\<And>x. x \<in> set t \<Longrightarrow> g x = real (f x)"
  shows "fold (\<lambda>x a. rnd (a + g x)) t 0 = real (\<Sum>x\<leftarrow>t. f x)"
proof -
  have le: "(\<Sum>x\<leftarrow>take i t. f x) \<le> 2 ^ 53" for i
  proof -
    have "(\<Sum>x\<leftarrow>t. f x) = (\<Sum>x\<leftarrow>take i t. f x) + (\<Sum>x\<leftarrow>drop i t. f x)"
      by (metis append_take_drop_id map_append sum_list_append)
    then show ?thesis using assms(1) by linarith
  qed
  have real_sum: "sum_list (map (\<lambda>x. real (f x)) ys) = real (\<Sum>x\<leftarrow>ys. f x)" for ys
    by (induction ys) auto
  have "fold (\<lambda>x a. rnd (a + g x)) t 0 = fold (\<lambda>x a. rnd (a + x)) (map (\<lambda>x. real (f x)) t) 0"
    unfolding fold_map comp_def by (rule fold_cong) (simp_all add: assms(2))
  also have "\<dots> = 0 + sum_list (map (\<lambda>x. real (f x)) t)"
  proof (rule binary64.rounded_sum_exact)
    fix i
    show "representable (0 + sum_list (take i (map (\<lambda>x. real (f x)) t)))"
      using le [of i] by (simp add: take_map real_sum representable_nat)
  qed
  finally show ?thesis by (simp add: real_sum)
qed

text \<open>A sum of whole samples up to \<open>2 ^ 53\<close> is exact.\<close>

lemma sum_cycles_exact:
  assumes "(\<Sum>x\<leftarrow>t. unat x) \<le> 2 ^ 53"
  shows "sum_cycles t = real (\<Sum>x\<leftarrow>t. unat x)"
proof -
  have "dbl_of x = real (unat x)" if "x \<in> set t" for x
  proof -
    have "unat x \<le> (\<Sum>x\<leftarrow>t. unat x)" using that by (intro member_le_sum_list) auto
    then show ?thesis using assms by (intro dbl_of_exact) linarith
  qed
  then show ?thesis unfolding sum_cycles_def using assms by (intro exact_fold)
qed

text \<open>The sorted samples: bounds of every element, of the sum and of the two middle ones.\<close>

lemma sorted_bounds:
  fixes t :: "latency_t list"
  assumes "sorted t" "i < length t"
  shows "t ! 0 \<le> t ! i" "t ! i \<le> t ! (length t - 1)"
  using assms by (auto intro: sorted_nth_mono)

lemma sum_bounds:
  fixes t :: "latency_t list"
  assumes "\<And>i. i < length t \<Longrightarrow> lo \<le> unat (t ! i) \<and> unat (t ! i) \<le> hi"
  shows "length t * lo \<le> (\<Sum>x\<leftarrow>t. unat x)" "(\<Sum>x\<leftarrow>t. unat x) \<le> length t * hi"
proof -
  have all: "lo \<le> unat x \<and> unat x \<le> hi" if "x \<in> set t" for x
    using that assms by (auto simp: in_set_conv_nth)
  have "(\<Sum>x\<leftarrow>t. lo) \<le> (\<Sum>x\<leftarrow>t. unat x)" "(\<Sum>x\<leftarrow>t. unat x) \<le> (\<Sum>x\<leftarrow>t. hi)"
    using all by (auto intro: sum_list_mono)
  then show "length t * lo \<le> (\<Sum>x\<leftarrow>t. unat x)" "(\<Sum>x\<leftarrow>t. unat x) \<le> length t * hi"
    by (simp_all add: sum_list_triv)
qed

lemma sample_le_sum: "x \<in> set t \<Longrightarrow> unat x \<le> (\<Sum>x\<leftarrow>t. unat x)"
  by (intro member_le_sum_list) auto

definition mid_sum :: "latency_t list \<Rightarrow> nat" where
  "mid_sum samples =
     (let t = qsort cmpfunc samples; n = length t in unat (t ! (n div 2)) + unat (t ! ((n - 1) div 2)))"

lemma sum_qsort: "(\<Sum>x\<leftarrow>qsort cmpfunc xs. unat x) = (\<Sum>x\<leftarrow>xs. unat x)"
proof -
  have "mset (map unat (qsort cmpfunc xs)) = mset (map unat xs)"
    by (simp add: latency.mset_qsort)
  then show ?thesis by (metis sum_mset_sum_list)
qed

lemma middle_index:
  assumes "0 < (n :: nat)"
  shows "n div 2 < n" "(n - 1) div 2 < n"
proof -
  show "n div 2 < n" using assms by simp
  have "(n - 1) div 2 \<le> n - 1" by (rule div_le_dividend)
  then show "(n - 1) div 2 < n" using assms by linarith
qed

lemma middle_exact:
  assumes "samples \<noteq> []" "(\<Sum>x\<leftarrow>samples. unat x) \<le> 2 ^ 52"
  defines "t \<equiv> qsort cmpfunc samples"
  shows "rnd (dbl_of (t ! (length t div 2) + t ! ((length t - 1) div 2)) / 2) = real (mid_sum samples) / 2"
    and "mid_sum samples \<le> 2 ^ 53"
proof -
  let ?a = "t ! (length t div 2)" and ?b = "t ! ((length t - 1) div 2)"
  have len: "0 < length t" using assms(1) by (simp add: t_def)
  have "?a \<in> set t" "?b \<in> set t" by (rule nth_mem [OF middle_index(1) [OF len]], rule nth_mem [OF middle_index(2) [OF len]])
  then have ab: "unat ?a \<le> 2 ^ 52" "unat ?b \<le> 2 ^ 52"
    using sample_le_sum [of ?a t] sample_le_sum [of ?b t] assms(2) sum_qsort [of samples]
    by (simp_all add: t_def)
  then have u: "unat (?a + ?b) = unat ?a + unat ?b" by (simp add: unat_word_ariths)
  have m: "mid_sum samples = unat ?a + unat ?b" by (simp add: mid_sum_def t_def Let_def)
  show le: "mid_sum samples \<le> 2 ^ 53" using ab by (simp add: m)
  have "unat (?a + ?b) \<le> 2 ^ 53" using le by (simp only: u m)
  then have "dbl_of (?a + ?b) = real (mid_sum samples)" by (simp only: dbl_of_exact u m)
  then show "rnd (dbl_of (?a + ?b) / 2) = real (mid_sum samples) / 2"
    using rnd_representable [OF representable_half [of "int (mid_sum samples)"]] le by simp
qed

text \<open>C21: for samples that sum to at most \<open>2 ^ 52\<close> cycles the printed average and median lie between
  the printed minimum and maximum, rounding included.\<close>

theorem compute_stats_ordered:
  assumes "samples \<noteq> []" "(\<Sum>x\<leftarrow>samples. unat x) \<le> 2 ^ 52"
  shows "st_min (compute_stats off samples) \<le> st_ave (compute_stats off samples) \<and>
    st_ave (compute_stats off samples) \<le> st_max (compute_stats off samples) \<and>
    st_min (compute_stats off samples) \<le> st_median (compute_stats off samples) \<and>
    st_median (compute_stats off samples) \<le> st_max (compute_stats off samples)"
proof -
  define t where "t = qsort cmpfunc samples"
  let ?n = "length t" and ?S = "\<Sum>x\<leftarrow>t. unat x"
  have n: "0 < ?n" using assms(1) by (simp add: t_def)
  have S: "?S \<le> 2 ^ 52" using assms(2) by (simp add: t_def sum_qsort)
  have b: "unat (t ! 0) \<le> unat (t ! i)" "unat (t ! i) \<le> unat (t ! (?n - 1))" if "i < ?n" for i
    using sorted_bounds [of t i] that sorted_qsort_cmpfunc [of samples]
    by (simp_all add: t_def word_le_nat_alt)
  have last: "unat (t ! (?n - 1)) \<le> 2 ^ 52" using sample_le_sum [of "t ! (?n - 1)" t] S n by simp
  then have first: "unat (t ! 0) \<le> 2 ^ 52" using b(1) [of "?n - 1"] n by simp
  have d: "dbl_of (t ! 0) = real (unat (t ! 0))" "dbl_of (t ! (?n - 1)) = real (unat (t ! (?n - 1)))"
    using first last by (simp_all add: dbl_of_exact)
  have rep: "representable (real (unat (t ! 0)))" "representable (real (unat (t ! (?n - 1))))"
    using first last by (auto intro: representable_nat)
  have sum: "sum_cycles t = real ?S" using S by (intro sum_cycles_exact) simp
  have "?n * unat (t ! 0) \<le> ?S" "?S \<le> ?n * unat (t ! (?n - 1))"
    using sum_bounds [of t "unat (t ! 0)" "unat (t ! (?n - 1))"] b by auto
  then have "real (?n * unat (t ! 0)) \<le> real ?S" "real ?S \<le> real (?n * unat (t ! (?n - 1)))"
    by (simp_all only: of_nat_le_iff)
  then have "real (unat (t ! 0)) \<le> real ?S / real ?n" "real ?S / real ?n \<le> real (unat (t ! (?n - 1)))"
    using n by (simp_all add: le_divide_eq divide_le_eq mult.commute)
  then have ave: "real (unat (t ! 0)) \<le> rnd (real ?S / real ?n)" "rnd (real ?S / real ?n) \<le> real (unat (t ! (?n - 1)))"
    using binary64.rd_between [OF rep] by blast+
  note middle_index [OF n]
  then have med: "real (unat (t ! 0)) \<le> real (mid_sum samples) / 2"
    "real (mid_sum samples) / 2 \<le> real (unat (t ! (?n - 1)))"
    using b [of "?n div 2"] b [of "(?n - 1) div 2"] by (simp_all add: mid_sum_def t_def Let_def)
  note m = middle_exact(1) [OF assms, folded t_def]
  show ?thesis
    using ave med unfolding compute_stats_def Let_def t_def [symmetric] stats.simps d sum m
    by (intro conjI rnd_mono_real diff_right_mono)
qed

theorem compute_stats_ordered_witness:
  "st_min (compute_stats 100 [300, 200, 250]) \<le> st_ave (compute_stats 100 [300, 200, 250]) \<and>
   st_median (compute_stats 100 [300, 200, 250]) \<le> st_max (compute_stats 100 [300, 200, 250])"
  using compute_stats_ordered [of "[300, 200, 250]" 100] by simp

text \<open>The value a benchmark returns, on exact inputs.\<close>

lemma median_exact:
  assumes "samples \<noteq> []" "(\<Sum>x\<leftarrow>samples. unat x) \<le> 2 ^ 51" "unat off \<le> 2 ^ 51"
  shows "rnd (st_median (compute_stats off samples) + 1 / 2) =
    of_int (int (mid_sum samples) - 2 * int (unat off) + 1) / 2"
proof -
  let ?m = "int (mid_sum samples)" and ?o = "int (unat off)"
  define t where "t = qsort cmpfunc samples"
  have s52: "(\<Sum>x\<leftarrow>samples. unat x) \<le> 2 ^ 52" using assms(2) by simp
  have n: "0 < length t" using assms(1) by (simp add: t_def)
  have "t ! (length t div 2) \<in> set t" "t ! ((length t - 1) div 2) \<in> set t"
    by (rule nth_mem [OF middle_index(1) [OF n]], rule nth_mem [OF middle_index(2) [OF n]])
  then have "mid_sum samples \<le> 2 ^ 51 + 2 ^ 51"
    unfolding mid_sum_def Let_def t_def [symmetric]
    using sample_le_sum [of _ t] assms(2) sum_qsort [of samples]
    by (intro add_mono) (auto simp: t_def intro: order_trans)
  then have m: "?m \<le> 2 ^ 52" by simp
  have o: "dbl_of off = of_int ?o" using assms(3) by (simp add: dbl_of_exact)
  have "rnd (of_int ?m / 2 - of_int ?o) = rnd (of_int (?m - 2 * ?o) / 2)" by (simp add: diff_divide_distrib)
  also have "\<dots> = of_int (?m - 2 * ?o) / 2"
    using m assms(3) by (intro rnd_representable representable_half) auto
  finally have d: "rnd (of_int ?m / 2 - of_int ?o) = of_int (?m - 2 * ?o) / 2" .
  have e: "st_median (compute_stats off samples) = rnd (of_int ?m / 2 - of_int ?o)"
    unfolding compute_stats_def Let_def t_def [symmetric] stats.simps
    using middle_exact(1) [OF assms(1) s52, folded t_def] by (simp only: o) simp
  have "rnd (of_int (?m - 2 * ?o) / 2 + 1 / 2) = rnd (of_int (?m - 2 * ?o + 1) / 2)"
    by (simp add: add_divide_distrib)
  also have "\<dots> = of_int (?m - 2 * ?o + 1) / 2"
    using m assms(3) by (intro rnd_representable representable_half) auto
  finally show ?thesis by (simp only: e d)
qed

lemma to_u64_half:
  "to_u64 (of_int (k + 1) / 2) =
     (if k + 3 \<le> 0 then None else if k < 2 ^ 64 then Some (word_of_int (max 0 ((k + 1) div 2))) else to_u64 (of_int (k + 1) / 2))"
proof -
  have "\<lfloor>of_int (k + 1) / 2 :: real\<rfloor> = (k + 1) div 2"
    using floor_divide_of_int_eq [of "k + 1" 2] by simp
  moreover have "(-1 :: real) < of_int (k + 1) / 2 \<longleftrightarrow> \<not> k + 3 \<le> 0" by (simp add: field_simps) linarith
  moreover have "(of_int (k + 1) / 2 :: real) < 2 ^ 64" if "k < 2 ^ 64"
  proof -
    have "of_int k < (of_int (2 ^ 64) :: real)" using that by (simp only: of_int_less_iff)
    then show ?thesis by simp
  qed
  moreover have "(of_int (k + 1) / 2 :: real) < 0 \<longleftrightarrow> k + 1 < 0" by simp linarith
  ultimately show ?thesis by (auto simp: to_u64_def max_def)
qed

lemma bench_stats_value:
  assumes "bench_samples w n all_cycles = Some samples" "fopen_ok (out_name name)"
    and "(\<Sum>x\<leftarrow>samples. unat x) \<le> 2 ^ 51" "unat off \<le> 2 ^ 51"
  shows "bench_stats fopen_ok name off w n all_cycles =
    (if mid_sum samples + 3 \<le> 2 * unat off then None
     else Some (of_nat ((mid_sum samples + 1) div 2 - unat off),
                stats_events name (compute_stats off samples) samples))"
proof -
  let ?k = "int (mid_sum samples) - 2 * int (unat off)"
  have ne: "samples \<noteq> []"
    using assms(1) by (auto simp: bench_samples_def split: if_splits)
  have "mid_sum samples \<le> 2 ^ 53" using middle_exact(2) [OF ne] assms(3) by simp
  then have k: "?k < 2 ^ 64" by simp
  have w: "max 0 ((?k + 1) div 2) = int ((mid_sum samples + 1) div 2 - unat off)"
    by (simp add: max_def) linarith
  have "to_u64 (rnd (st_median (compute_stats off samples) + 1 / 2)) = to_u64 (of_int (?k + 1) / 2)"
    by (simp only: median_exact [OF ne assms(3,4)])
  also have "\<dots> = (if ?k + 3 \<le> 0 then None else Some (word_of_int (max 0 ((?k + 1) div 2))))"
    using k by (subst to_u64_half) simp
  also have "\<dots> = (if mid_sum samples + 3 \<le> 2 * unat off then None
     else Some (of_nat ((mid_sum samples + 1) div 2 - unat off)))"
    unfolding w by auto
  finally show ?thesis
    using assms(1,2) by (simp add: bench_stats_def Let_def)
qed

text \<open>C20: with samples summing to at most \<open>2 ^ 51\<close> the benchmark returns the median, rounded up
  to a whole cycle, less the offset; where the median is one and a half cycles or more below
  the offset, the conversion to an unsigned integer is undefined.\<close>

theorem bench_stats_result:
  assumes "bench_samples w n all_cycles = Some samples" "fopen_ok (out_name name)"
    and "(\<Sum>x\<leftarrow>samples. unat x) \<le> 2 ^ 51" "unat off \<le> 2 ^ 51"
  shows "map_option fst (bench_stats fopen_ok name off w n all_cycles) =
    (if mid_sum samples + 3 \<le> 2 * unat off then None
     else Some (of_nat ((mid_sum samples + 1) div 2 - unat off)))"
  by (simp add: bench_stats_value [where fopen_ok = fopen_ok and name = name, OF assms])

theorem bench_stats_result_witness:
  "bench_samples 1 4 [999, 300, 201, 250, 202] = Some [300, 201, 250, 202] \<and>
   map_option fst (bench_stats (\<lambda>_. True) ''x'' 50 1 4 [999, 300, 201, 250, 202]) = Some 176 \<and>
   map_option fst (bench_stats (\<lambda>_. True) ''x'' 300 1 4 [999, 300, 201, 250, 202]) = None"
proof -
  have b: "bench_samples 1 4 [999, 300, 201, 250, 202] = Some [300, 201, 250, 202]"
  proof -
    have "[0..<4 :: nat] = [0, 1, 2, 3]" by (simp add: upt_rec)
    then show ?thesis by (simp add: bench_samples_def MAX_RUN_TIMES_def)
  qed
  have m: "mid_sum [300, 201, 250, 202] = 452"
    by (simp add: mid_sum_def qsort_def cmpfunc_def)
  show ?thesis
    using bench_stats_result [OF b, of "\<lambda>_. True" "''x''" 50]
      bench_stats_result [OF b, of "\<lambda>_. True" "''x''" 300]
    by (simp add: b m)
qed

lemma qsort_replicate: "qsort cmpfunc (replicate n x) = replicate n x"
proof (induction n)
  case (Suc n)
  then have "qsort cmpfunc (replicate (Suc n) x) = insert_cmp cmpfunc x (replicate n x)"
    by (simp add: qsort_def)
  also have "\<dots> = replicate (Suc n) x" by (cases n) (simp_all add: cmpfunc_def)
  finally show ?case .
qed (simp add: qsort_def)

text \<open>Equal samples whose squares sum to at most \<open>2 ^ 53\<close> have deviation 0, and minimum,
  maximum, average and median all equal their value less the offset.\<close>

theorem compute_stats_constant:
  assumes "0 < n" "n * (unat x)\<^sup>2 \<le> 2 ^ 53" "n * unat x \<le> 2 ^ 52"
  shows "compute_stats off (replicate n x) =
    (let v = rnd (real (unat x) - dbl_of off)
     in \<lparr>st_median = v, st_ave = v, st_min = v, st_max = v, st_std = Fin 0\<rparr>)"
proof -
  let ?t = "replicate n x"
  have "unat x \<le> n * unat x" using assms(1) by simp
  then have x: "unat x \<le> 2 ^ 52" using assms(3) by linarith
  have "(unat x)\<^sup>2 \<le> n * (unat x)\<^sup>2" using assms(1) by simp
  then have q: "(unat x)\<^sup>2 \<le> 2 ^ 53" using assms(2) by linarith
  have d: "dbl_of x = real (unat x)" using x by (intro dbl_of_exact) simp
  have rq: "rnd (real (unat x) * real (unat x)) = real ((unat x)\<^sup>2)"
    using rnd_representable [OF representable_nat [OF q]] by (simp add: power2_eq_square)
  have s1: "sum_cycles ?t = real (n * unat x)"
    using assms(3) sum_cycles_exact [of ?t] by (simp add: sum_list_replicate)
  have s2: "sum_squares ?t = real (n * (unat x)\<^sup>2)"
    using assms(2) exact_fold [of "\<lambda>x. (unat x)\<^sup>2" ?t "\<lambda>x. rnd (dbl_of x * dbl_of x)"]
    by (simp add: sum_squares_def d rq sum_list_replicate)
  have rx: "rnd (real (unat x)) = real (unat x)" using x by (intro rnd_representable representable_nat) simp
  have rqx: "rnd (real ((unat x)\<^sup>2)) = real ((unat x)\<^sup>2)" using q by (intro rnd_representable representable_nat)
  have ave: "rnd (real (n * unat x) / real n) = real (unat x)" using assms(1) rx by simp
  have var: "rnd (real (n * (unat x)\<^sup>2) / real n) = real ((unat x)\<^sup>2)" using assms(1) rqx by simp
  have std: "dbl_sqrt (rnd (real ((unat x)\<^sup>2) - rnd (real (unat x) * real (unat x)))) = Fin 0"
    by (simp only: rq) (simp add: dbl_sqrt_def to_dbl_def)
  have "unat (x + x) = unat x + unat x" using x by (simp add: unat_word_ariths)
  then have "dbl_of (x + x) = real (2 * unat x)" using x by (subst dbl_of_exact) simp_all
  then have med: "rnd (dbl_of (x + x) / 2) = real (unat x)" using rx by simp
  have nth: "?t ! 0 = x" "?t ! (n - 1) = x" "?t ! (n div 2) = x" "?t ! ((n - 1) div 2) = x"
    using assms(1) middle_index [OF assms(1)] by simp_all
  show ?thesis
    unfolding compute_stats_def Let_def qsort_replicate length_replicate nth s1 s2 d ave var std med ..
qed

theorem compute_stats_constant_witness:
  "compute_stats 0 [120, 120, 120] =
     \<lparr>st_median = 120, st_ave = 120, st_min = 120, st_max = 120, st_std = Fin 0\<rparr>"
proof -
  have "rnd 120 = 120" using rnd_representable [OF representable_nat [of 120]] by simp
  then show ?thesis
    using compute_stats_constant [of 3 120 0] by (simp add: numeral_3_eq_3 dbl_of_def)
qed

end
