(* ===== verification/EdgeCalls.thy ===== *)
theory EdgeCalls
  imports Bench ErrList Printf
begin

text \<open>
  The driver of the edge-call benchmark: \<open>common.h\<close> and the rest of \<open>bench.h\<close> under
  \<open>server/edge-calls/Include\<close>, the enclave (\<open>Enclave/Enclave.cpp\<close>), the App
  (\<open>App/App.cpp\<close>) and the native benchmark (\<open>Native/main.cpp\<close>).

  Parameters (\<open>platform\<close>): the time stamp counter, the system call and hypercall, the
  transitions into and out of the enclave, the SDK's status codes, which files can be
  opened, and the C library's constants.  They act on a machine state of any type.
\<close>

section \<open>Parameters and state\<close>

record 'w platform =
  tsc_op :: "'w \<Rightarrow> u32 \<times> u32 \<times> 'w"
  syscall_op :: "u64 \<Rightarrow> 'w \<Rightarrow> 'w"
  vmmcall_op :: "u64 \<Rightarrow> 'w \<Rightarrow> 'w"
  eenter :: "'w \<Rightarrow> 'w"
  eexit :: "'w \<Rightarrow> 'w"
  create_enclave :: "'w \<Rightarrow> sgx_status \<times> 'w"
  destroy_enclave :: "'w \<Rightarrow> 'w"
  ecall_status :: "'w \<Rightarrow> sgx_status"
  eenter_stats :: "'w \<Rightarrow> int \<times> int"
  eexit_stats :: "'w \<Rightarrow> int \<times> int"
  fopen_ok :: "string \<Rightarrow> bool"
  chdir_ok :: "string \<Rightarrow> bool"
  time_now :: "'w \<Rightarrow> nat"
  clib :: libc
  bufsiz :: nat

text \<open>The static arrays of \<open>bench_in_app\<close> and \<open>bench_in_enclave\<close> are part of the state.\<close>

record 'w edge_state =
  hw :: 'w
  app_cycles :: "latency_t list"
  encl_cycles :: "latency_t list"
  elog :: "event list"

definition emit :: "event list \<Rightarrow> 'w edge_state \<Rightarrow> 'w edge_state" where
  "emit ev s = s\<lparr>elog := elog s @ ev\<rparr>"

text \<open>A run ends with \<open>exit(code)\<close> (\<open>Inl\<close>), a value (\<open>Inr\<close>) or undefined behaviour (\<open>None\<close>).\<close>

type_synonym ('w, 'a) edge_run = "('w edge_state \<times> int, 'a \<times> 'w edge_state) run"

section \<open>common.h\<close>

definition edge_rdtscp :: "'w platform \<Rightarrow> 'w \<Rightarrow> u64 \<times> 'w" where
  "edge_rdtscp P w = (let (lo, hi, w') = tsc_op P w in (push_bit 32 (ucast hi) OR ucast lo, w'))"

definition bench_rdtscp :: "'w platform \<Rightarrow> 'w \<Rightarrow> latency_t \<times> 'w" where
  "bench_rdtscp P w =
     (let (a, w) = edge_rdtscp P w; (b, w) = edge_rdtscp P w in (b - a, w))"

definition bench_syscall :: "'w platform \<Rightarrow> 'w \<Rightarrow> latency_t \<times> 'w" where
  "bench_syscall P w =
     (let (a, w) = edge_rdtscp P w; w = syscall_op P 0x8000dead w; (b, w) = edge_rdtscp P w
      in (b - a, w))"

definition bench_hypercall :: "'w platform \<Rightarrow> 'w \<Rightarrow> latency_t \<times> 'w" where
  "bench_hypercall P w =
     (let (a, w) = edge_rdtscp P w; w = vmmcall_op P 0x8000dead w; (b, w) = edge_rdtscp P w
      in (b - a, w))"

text \<open>The loop writes past the array: undefined.\<close>

function batch_loop ::
  "('w \<Rightarrow> latency_t \<times> 'w) \<Rightarrow> nat \<Rightarrow> nat \<Rightarrow> latency_t list \<Rightarrow> 'w \<Rightarrow> (latency_t list \<times> 'w) option" where
  "batch_loop bench_fn i cnt all_cycles w =
     (if i < cnt
      then if i < length all_cycles
           then (let (v, w') = bench_fn w in batch_loop bench_fn (i + 1) cnt (all_cycles[i := v]) w')
           else None
      else Some (all_cycles, w))"
  by pat_completeness auto
termination by (relation "measure (\<lambda>(f, i, cnt, xs, w). cnt - i)") auto

declare batch_loop.simps [simp del]

definition batched_bench ::
  "('w \<Rightarrow> latency_t \<times> 'w) \<Rightarrow> int \<Rightarrow> latency_t list \<Rightarrow> 'w \<Rightarrow> (latency_t list \<times> 'w) option" where
  "batched_bench bench_fn cnt all_cycles w =
     batch_loop bench_fn 0 (nat cnt) all_cycles (snd (bench_fn w))"

section \<open>Enclave.cpp\<close>

text \<open>\<open>ENCLAVE_RDTSC\<close> is a compile-time switch.\<close>

definition edge_ocall_rdtscp :: "'w platform \<Rightarrow> 'w \<Rightarrow> u64 \<times> 'w" where
  "edge_ocall_rdtscp P w = (let (r, w) = edge_rdtscp P (eexit P w) in (r, eenter P w))"

definition edge_ocall_empty :: "'w platform \<Rightarrow> 'w \<Rightarrow> 'w" where
  "edge_ocall_empty P w = eenter P (eexit P w)"

definition enclave_rdtscp :: "bool \<Rightarrow> 'w platform \<Rightarrow> 'w \<Rightarrow> u64 \<times> 'w" where
  "enclave_rdtscp ENCLAVE_RDTSC P w = (if ENCLAVE_RDTSC then edge_rdtscp P w else edge_ocall_rdtscp P w)"

definition bench_enclave_rdtscp :: "bool \<Rightarrow> 'w platform \<Rightarrow> 'w \<Rightarrow> latency_t \<times> 'w" where
  "bench_enclave_rdtscp R P w =
     (let (a, w) = enclave_rdtscp R P w; (b, w) = enclave_rdtscp R P w in (b - a, w))"

definition bench_ocall_empty :: "bool \<Rightarrow> 'w platform \<Rightarrow> 'w \<Rightarrow> latency_t \<times> 'w" where
  "bench_ocall_empty R P w =
     (let (a, w) = enclave_rdtscp R P w; w = edge_ocall_empty P w; (b, w) = enclave_rdtscp R P w
      in (b - a, w))"

text \<open>
  An ecall with an \<open>[out, count=count]\<close> buffer: the proxy hands the enclave a buffer of
  \<open>count\<close> zeros and copies it back over the App's array.
\<close>

definition ecall_bench ::
  "('w \<Rightarrow> latency_t \<times> 'w) \<Rightarrow> 'w platform \<Rightarrow> int \<Rightarrow> latency_t list \<Rightarrow> 'w \<Rightarrow>
   (sgx_status \<times> latency_t list \<times> 'w) option" where
  "ecall_bench bench_fn P cnt all_cycles w =
     (if ecall_status P w \<noteq> SGX_SUCCESS then Some (ecall_status P w, all_cycles, w)
      else if cnt < 0 \<or> length all_cycles < nat cnt then None
      else map_option (\<lambda>(buf, w). (SGX_SUCCESS, buf @ drop (nat cnt) all_cycles, eexit P w))
             (batched_bench bench_fn cnt (replicate (nat cnt) 0) (eenter P w)))"

definition ecall_bench_enclave_rdtscp where
  "ecall_bench_enclave_rdtscp R P = ecall_bench (bench_enclave_rdtscp R P) P"

definition ecall_bench_ocall_empty where
  "ecall_bench_ocall_empty R P = ecall_bench (bench_ocall_empty R P) P"

definition ecall_empty :: "'w platform \<Rightarrow> 'w \<Rightarrow> 'w" where
  "ecall_empty P w = (if ecall_status P w \<noteq> SGX_SUCCESS then w else eexit P (eenter P w))"

text \<open>
  The enclave's own \<open>printf\<close>: the text goes into a buffer, the buffer to the App's
  \<open>ocall_print_string\<close>; the result is one more than the length of the buffer's text.
  \<open>None\<close> is a call with undefined behaviour.
\<close>

definition edge_ocall_print_string :: "string \<Rightarrow> event list" where
  "edge_ocall_print_string str = [Print ''%s'' [AStr str]]"

definition edge_printf :: "libc \<Rightarrow> nat \<Rightarrow> string \<Rightarrow> arg list \<Rightarrow> (int \<times> event list) option" where
  "edge_printf C bufsz fmt args =
     map_option (\<lambda>t. let buf = take (bufsz - 1) t in (int (length buf) + 1, edge_ocall_print_string buf))
       (text_of C fmt args)"

definition ecall_hello :: "'w platform \<Rightarrow> string \<Rightarrow> 'w edge_state \<Rightarrow> ('w edge_state \<times> int, 'w edge_state) run" where
  "ecall_hello P message s =
     (if ecall_status P (hw s) \<noteq> SGX_SUCCESS then Some (Inr s)
      else map_option (\<lambda>(r, ev). Inr (emit ev (s\<lparr>hw := eexit P (edge_ocall_empty P (eenter P (hw s)))\<rparr>)))
             (edge_printf (clib P) (bufsiz P) ''%s'' [AStr message]))"

definition ecall_get_eenter_stats :: "bool \<Rightarrow> 'w platform \<Rightarrow> 'w \<Rightarrow> (int \<times> int) \<Rightarrow> (int \<times> int) \<times> 'w" where
  "ecall_get_eenter_stats EENTER_EEXIT_STATS P w init =
     (if ecall_status P w \<noteq> SGX_SUCCESS then (init, w)
      else let w = eenter P w in (if EENTER_EEXIT_STATS then eenter_stats P w else init, eexit P w))"

section \<open>bench.h\<close>

definition bench_in_app ::
  "'w platform \<Rightarrow> string \<Rightarrow> latency_t \<Rightarrow> int \<Rightarrow> int \<Rightarrow> ('w \<Rightarrow> latency_t \<times> 'w) \<Rightarrow> 'w edge_state \<Rightarrow>
   ('w, latency_t) edge_run" where
  "bench_in_app P name time_offset warmup_times test_times bench_fn s =
     (let s = emit [Print (''Benchmark %s in App:'' @ nl) [AStr name]] s
      in Option.bind (batched_bench bench_fn (warmup_times + test_times) (app_cycles s) (hw s)) (\<lambda>(xs, w).
         let s = s\<lparr>hw := w, app_cycles := xs\<rparr>
         in map_option (\<lambda>(l, ev). Inr (l, emit ev s))
              (bench_stats (fopen_ok P) name time_offset warmup_times test_times xs)))"

definition bench_in_enclave ::
  "'w platform \<Rightarrow> string \<Rightarrow> latency_t \<Rightarrow> int \<Rightarrow> int \<Rightarrow>
   (int \<Rightarrow> latency_t list \<Rightarrow> 'w \<Rightarrow> (sgx_status \<times> latency_t list \<times> 'w) option) \<Rightarrow> 'w edge_state \<Rightarrow>
   ('w, latency_t) edge_run" where
  "bench_in_enclave P name time_offset warmup_times test_times ecall_bench_fn s =
     (let s = emit [Print (''Benchmark %s in Enclave:'' @ nl) [AStr name]] s
      in Option.bind (ecall_bench_fn (warmup_times + test_times) (encl_cycles s) (hw s)) (\<lambda>(ret, xs, w).
         let s = s\<lparr>hw := w, encl_cycles := xs\<rparr>
         in if ret \<noteq> SGX_SUCCESS then Some (Inl (emit (edge_print_error_message ret) s, 0))
            else map_option (\<lambda>(l, ev). Inr (l, emit ev s))
                   (bench_stats (fopen_ok P) name time_offset warmup_times test_times xs)))"

text \<open>\<open>snprintf(result_path, 250, ...)\<close> keeps 249 characters.\<close>

definition result_path :: "string \<Rightarrow> nat \<Rightarrow> string" where
  "result_path tag now = take 249 (''result-'' @ tag @ ''-'' @ dec now)"

definition run_bench ::
  "'w platform \<Rightarrow> string \<Rightarrow> ('w edge_state \<Rightarrow> ('w, int) edge_run) \<Rightarrow> 'w edge_state \<Rightarrow> ('w, int) edge_run"
where
  "run_bench P tag bench_main s =
     (let path = result_path tag (time_now P (hw s));
          s = emit [Mkdir path] s
      in if \<not> chdir_ok P path then Some (Inr (-1, s))
         else let s = emit [Chdir path] s
              in if \<not> fopen_ok P ''stats.csv'' then Some (Inr (-1, s))
                 else let s = emit [Fopen ''stats.csv'',
                             Fprint ''stats.csv'' (''Name,Median,Average,Min,Max,Deviation'' @ nl) []] s
                      in and_then (bench_main s) (\<lambda>(ret, s). Some (Inr (ret, emit [Fclose ''stats.csv''] s))))"

section \<open>The App and the native benchmark\<close>

definition bench_ecall_empty :: "'w platform \<Rightarrow> 'w \<Rightarrow> latency_t \<times> 'w" where
  "bench_ecall_empty P w =
     (let (a, w) = edge_rdtscp P w; w = ecall_empty P w; (b, w) = edge_rdtscp P w in (b - a, w))"

text \<open>The report of the \<open>EENTER_EEXIT_STATS\<close> build, for one of the two transitions.\<close>

definition transition_report :: "string \<Rightarrow> string \<Rightarrow> int \<times> int \<Rightarrow> event list" where
  "transition_report lower upper stats =
     (let (cnt, cycles) = stats; ave = dbl_div (rnd (of_int cycles)) (rnd (of_int cnt))
      in [Print (''  '' @ lower @ ''_count = %lld'' @ nl) [ALong cnt],
          Print (''  '' @ lower @ ''_cycles = %lld'' @ nl) [ALong cycles],
          Print (upper @ '' latency = %.3lf'' @ nl) [ADbl ave],
          Fprint ''stats.csv'' (''%s,%d,%lf'' @ nl) [AStr lower, AInt 0, ADbl ave]])"

definition edge_bench_main ::
  "bool \<Rightarrow> bool \<Rightarrow> 'w platform \<Rightarrow> 'w edge_state \<Rightarrow> ('w, int) edge_run" where
  "edge_bench_main ENCLAVE_RDTSC EENTER_EEXIT_STATS P s =
     (let warmup_times = 10000; test_times = 1000000
      in and_then (ecall_hello P (''Hello world!'' @ nl) s) (\<lambda>s.
         and_then (bench_in_app P ''rdtscp'' 0 warmup_times test_times (bench_rdtscp P) s)
           (\<lambda>(time_rdtscp, s).
         and_then (bench_in_app P ''ecall_empty'' time_rdtscp warmup_times test_times (bench_ecall_empty P) s)
           (\<lambda>(time_ecall, s).
         and_then (if ENCLAVE_RDTSC then Some (Inr (time_rdtscp, s))
             else bench_in_enclave P ''enclave_rdtscp'' 0 warmup_times test_times
                    (ecall_bench_enclave_rdtscp ENCLAVE_RDTSC P) s)
           (\<lambda>(time_enclave_rdtscp, s).
         and_then (bench_in_enclave P ''ocall_empty'' time_enclave_rdtscp warmup_times test_times
                    (ecall_bench_ocall_empty ENCLAVE_RDTSC P) s)
           (\<lambda>(time_ocall, s).
         let s = emit [Print (''rdtcsp: %ld'' @ nl) [AWord time_rdtscp],
                       Print (''ecall: %ld'' @ nl) [AWord time_ecall],
                       Print (''ocall: %ld'' @ nl) [AWord time_ocall]] s;
             s = (if EENTER_EEXIT_STATS
                  then let (eenter, w) = ecall_get_eenter_stats EENTER_EEXIT_STATS P (hw s) (0, 0)
                       in emit (Print nl [] # transition_report ''eenter'' ''EENTER'' eenter @
                            transition_report ''eexit'' ''EEXIT'' (eexit_stats P w)) (s\<lparr>hw := w\<rparr>)
                  else s)
         in Some (Inr (0, s))))))))"

definition edge_initialize_enclave :: "'w platform \<Rightarrow> 'w edge_state \<Rightarrow> int \<times> 'w edge_state" where
  "edge_initialize_enclave P s =
     (let (ret, w) = create_enclave P (hw s); s = s\<lparr>hw := w\<rparr>
      in if ret \<noteq> SGX_SUCCESS then (-1, emit (edge_print_error_message ret) s) else (0, s))"

definition edge_main ::
  "bool \<Rightarrow> bool \<Rightarrow> 'w platform \<Rightarrow> string list \<Rightarrow> 'w edge_state \<Rightarrow> ('w, int) edge_run" where
  "edge_main ENCLAVE_RDTSC EENTER_EEXIT_STATS P argv s =
     (let (r, s) = edge_initialize_enclave P s
      in if r < 0 then Some (Inr (-1, emit [Print (''Enter a character before exit ...'' @ nl) []] s))
         else and_then (run_bench P (if 1 < length argv then argv ! 1 else [])
                         (edge_bench_main ENCLAVE_RDTSC EENTER_EEXIT_STATS P) s)
                (\<lambda>(ret, s). Some (Inr (ret, s\<lparr>hw := destroy_enclave P (hw s)\<rparr>))))"

definition native_bench_main :: "'w platform \<Rightarrow> 'w edge_state \<Rightarrow> ('w, int) edge_run" where
  "native_bench_main P s =
     (let warmup_times = 10000; test_times = 1000000
      in and_then (bench_in_app P ''rdtscp'' 0 warmup_times test_times (bench_rdtscp P) s)
           (\<lambda>(time_rdtscp, s).
         and_then (bench_in_app P ''syscall'' time_rdtscp warmup_times test_times (bench_syscall P) s)
           (\<lambda>(time_syscall, s).
         and_then (bench_in_app P ''hypercall'' time_rdtscp warmup_times test_times (bench_hypercall P) s)
           (\<lambda>(time_hypercall, s).
         Some (Inr (0, emit [Print (''rdtscp: %ld'' @ nl) [AWord time_rdtscp],
                             Print (''syscall: %ld'' @ nl) [AWord time_syscall],
                             Print (''hypercall: %ld'' @ nl) [AWord time_hypercall]] s))))))"

definition native_main :: "'w platform \<Rightarrow> 'w edge_state \<Rightarrow> ('w, int) edge_run" where
  "native_main P = run_bench P ''native'' (native_bench_main P)"

section \<open>The enclave's printf\<close>

lemma edge_printf_string:
  "edge_printf C bufsz ''%s'' [AStr m] =
    Some (int (min (length m) (bufsz - 1)) + 1, edge_ocall_print_string (take (bufsz - 1) m))"
proof -
  have "text_of C ''%s'' [AStr m] = Some m"
    by (simp add: no_spec_def show_conv_def pad_def)
  then show ?thesis by (simp add: edge_printf_def Let_def)
qed

section \<open>Batches\<close>

lemma batch_loop_eq:
  assumes "i \<le> cnt" "cnt \<le> length xs"
  shows "batch_loop f i cnt xs w =
    Some (take i xs @ map (\<lambda>j. fst (f (((snd \<circ> f) ^^ j) w))) [0..<cnt - i] @ drop cnt xs,
          ((snd \<circ> f) ^^ (cnt - i)) w)"
  using assms
proof (induction f i cnt xs w rule: batch_loop.induct)
  case (1 f i cnt xs w)
  show ?case
  proof (cases "i < cnt")
    case True
    obtain v w' where v: "f w = (v, w')" by fastforce
    have d: "cnt - i = Suc (cnt - (i + 1))" using True by simp
    have shift: "((snd \<circ> f) ^^ Suc j) w = ((snd \<circ> f) ^^ j) w'" for j
      by (simp only: funpow_Suc_right) (simp add: v)
    have t: "take (i + 1) (xs[i := v]) = take i xs @ [v]" "drop cnt (xs[i := v]) = drop cnt xs"
      using True 1(3) by (simp_all add: take_Suc_conv_app_nth)
    have "batch_loop f i cnt xs w = batch_loop f (i + 1) cnt (xs[i := v]) w'"
      using True 1(3) by (subst batch_loop.simps) (simp add: v)
    also have "\<dots> = Some (take (i + 1) (xs[i := v]) @
        map (\<lambda>j. fst (f (((snd \<circ> f) ^^ j) w'))) [0..<cnt - (i + 1)] @ drop cnt (xs[i := v]),
        ((snd \<circ> f) ^^ (cnt - (i + 1))) w')"
      by (rule 1(1) [OF True _ v [symmetric] refl]) (use True 1(3) in simp_all)
    also have "\<dots> = Some (take i xs @ (v # map (\<lambda>j. fst (f (((snd \<circ> f) ^^ j) w'))) [0..<cnt - (i + 1)]) @
        drop cnt xs, ((snd \<circ> f) ^^ (cnt - (i + 1))) w')"
      by (simp only: t append_assoc append.simps)
    also have "v # map (\<lambda>j. fst (f (((snd \<circ> f) ^^ j) w'))) [0..<cnt - (i + 1)] =
        map (\<lambda>j. fst (f (((snd \<circ> f) ^^ j) w))) [0..<cnt - i]"
      unfolding d map_upt_Suc shift [symmetric] by (simp add: v)
    also have "((snd \<circ> f) ^^ (cnt - (i + 1))) w' = ((snd \<circ> f) ^^ (cnt - i)) w"
      unfolding d shift ..
    finally show ?thesis .
  next
    case False
    then show ?thesis using 1(2,3) by (subst batch_loop.simps) simp
  qed
qed

lemma batch_loop_overrun:
  "length xs < cnt \<Longrightarrow> i \<le> length xs \<Longrightarrow> batch_loop f i cnt xs w = None"
proof (induction f i cnt xs w rule: batch_loop.induct)
  case (1 f i cnt xs w)
  then show ?case by (subst batch_loop.simps) (auto split: prod.split)
qed

lemma batched_bench_eq:
  "batched_bench f cnt xs w =
    (if nat cnt \<le> length xs
     then Some (map (\<lambda>j. fst (f (((snd \<circ> f) ^^ Suc j) w))) [0..<nat cnt] @ drop (nat cnt) xs,
                ((snd \<circ> f) ^^ Suc (nat cnt)) w)
     else None)"
  by (simp add: batched_bench_def batch_loop_eq batch_loop_overrun funpow_Suc_right del: funpow.simps)

text \<open>A batch runs the measured function once to warm up and then once per requested sample,
  in order, each from the state the last one left; it fills the first \<open>count\<close> cells, leaves
  the others alone, and writes out of bounds exactly if the array is too short.\<close>

theorem batched_bench_results:
  "batched_bench f cnt xs w =
    (if nat cnt \<le> length xs
     then Some (map (\<lambda>j. fst (f (((snd \<circ> f) ^^ Suc j) w))) [0..<nat cnt] @ drop (nat cnt) xs,
                ((snd \<circ> f) ^^ Suc (nat cnt)) w)
     else None)"
  by (rule batched_bench_eq)

section \<open>One benchmark\<close>

text \<open>A measured function whose latencies lie in a range.\<close>

definition latency_in :: "('w \<Rightarrow> latency_t \<times> 'w) \<Rightarrow> nat \<Rightarrow> nat \<Rightarrow> bool" where
  "latency_in f lo hi \<longleftrightarrow> (\<forall>w. lo \<le> unat (fst (f w)) \<and> unat (fst (f w)) \<le> hi)"

definition samples_of :: "('w \<Rightarrow> latency_t \<times> 'w) \<Rightarrow> nat \<Rightarrow> nat \<Rightarrow> 'w \<Rightarrow> latency_t list" where
  "samples_of f warmup n w = map (\<lambda>j. fst (f (((snd \<circ> f) ^^ Suc (j + warmup)) w))) [0..<n]"

lemma bench_samples_batch:
  assumes "0 < n" "n \<le> MAX_RUN_TIMES" "warmup + n \<le> length xs"
  shows "\<exists>ys. batched_bench f (int warmup + int n) xs w = Some (ys, ((snd \<circ> f) ^^ Suc (warmup + n)) w) \<and>
    length ys = length xs \<and> bench_samples (int warmup) (int n) ys = Some (samples_of f warmup n w)"
proof -
  have c: "nat (int warmup + int n) = warmup + n" by simp
  have "bench_samples (int warmup) (int n) (map (\<lambda>j. fst (f (((snd \<circ> f) ^^ Suc j) w))) [0..<warmup + n] @
      drop (warmup + n) xs) = Some (samples_of f warmup n w)"
    using assms by (simp add: bench_samples_def c samples_of_def nth_append del: funpow.simps)
  then show ?thesis using assms(3) by (simp add: batched_bench_eq c del: funpow.simps)
qed

lemma samples_of_bounds:
  assumes "latency_in f lo hi" "0 < n" "n * hi \<le> 2 ^ 51"
  shows "samples_of f warmup n w \<noteq> []" "(\<Sum>x\<leftarrow>samples_of f warmup n w. unat x) \<le> 2 ^ 51"
    and "2 * lo \<le> mid_sum (samples_of f warmup n w)" "mid_sum (samples_of f warmup n w) \<le> 2 * hi"
proof -
  let ?s = "samples_of f warmup n w"
  have b: "lo \<le> unat x \<and> unat x \<le> hi" if "x \<in> set ?s" for x
    using that assms(1) by (auto simp: samples_of_def latency_in_def)
  show ne: "?s \<noteq> []" using assms(2) by (simp add: samples_of_def)
  have "(\<Sum>x\<leftarrow>?s. unat x) \<le> (\<Sum>x\<leftarrow>?s. hi)" using b by (intro sum_list_mono) auto
  also have "\<dots> = n * hi" by (simp only: sum_list_triv) (simp add: samples_of_def)
  finally show "(\<Sum>x\<leftarrow>?s. unat x) \<le> 2 ^ 51" using assms(3) by linarith
  let ?t = "qsort cmpfunc ?s"
  have n: "0 < length ?t" using ne by simp
  have "?t ! (length ?t div 2) \<in> set ?s" "?t ! ((length ?t - 1) div 2) \<in> set ?s"
    using nth_mem [OF middle_index(1) [OF n]] nth_mem [OF middle_index(2) [OF n]] by simp_all
  note b [OF this(1)] b [OF this(2)]
  then show "2 * lo \<le> mid_sum ?s" "mid_sum ?s \<le> 2 * hi" by (simp_all add: mid_sum_def Let_def)
qed

text \<open>The row a benchmark adds to \<open>stats.csv\<close>, by its name.\<close>

definition csv_names :: "event list \<Rightarrow> string list" where
  "csv_names ev = concat (map (\<lambda>e. case e of
       Fprint f fmt (AStr name # args) \<Rightarrow> if f = ''stats.csv'' then [name] else []
     | _ \<Rightarrow> []) ev)"

lemma csv_names_append [simp]: "csv_names (a @ b) = csv_names a @ csv_names b"
  by (simp add: csv_names_def)

lemma csv_names_simps [simp]:
  "csv_names [] = []" "csv_names (Print f a # ev) = csv_names ev" "csv_names (Fopen g # ev) = csv_names ev"
  "csv_names (Fclose g # ev) = csv_names ev" "csv_names (Mkdir g # ev) = csv_names ev"
  "csv_names (Chdir g # ev) = csv_names ev" "csv_names (Fprint g f [] # ev) = csv_names ev"
  by (simp_all add: csv_names_def)

lemma csv_names_stats: "csv_names (stats_events name r samples) = [name]"
proof -
  have "csv_names (map (\<lambda>x. Fprint (out_name name) (''%ld'' @ nl) [AWord x]) xs) = []" for xs :: "u64 list"
    by (induction xs) (simp_all add: csv_names_def)
  then show ?thesis unfolding stats_events_def csv_names_append by (simp add: csv_names_def)
qed

text \<open>
  The million samples of the two programs, after ten thousand runs to warm up and one before:
  the state they leave, twice their median, whether all are moderate, the cycles reported after
  the overhead \<open>off\<close> is subtracted, and whether the median is one and a half cycles or more
  below the overhead.
\<close>

definition million_runs :: "('w \<Rightarrow> latency_t \<times> 'w) \<Rightarrow> 'w \<Rightarrow> 'w" where
  "million_runs f = (snd \<circ> f) ^^ 1010001"

definition twice_median :: "('w \<Rightarrow> latency_t \<times> 'w) \<Rightarrow> 'w \<Rightarrow> nat" where
  "twice_median f w = mid_sum (samples_of f 10000 1000000 w)"

definition moderate :: "('w \<Rightarrow> latency_t \<times> 'w) \<Rightarrow> 'w \<Rightarrow> bool" where
  "moderate f w \<longleftrightarrow> list_all (\<lambda>x. unat x \<le> 2 ^ 30) (samples_of f 10000 1000000 w)"

definition measured :: "('w \<Rightarrow> latency_t \<times> 'w) \<Rightarrow> 'w \<Rightarrow> latency_t \<Rightarrow> latency_t" where
  "measured f w off = of_nat ((twice_median f w + 1) div 2 - unat off)"

definition too_fast :: "('w \<Rightarrow> latency_t \<times> 'w) \<Rightarrow> 'w \<Rightarrow> latency_t \<Rightarrow> bool" where
  "too_fast f w off \<longleftrightarrow> twice_median f w + 3 \<le> 2 * unat off"

lemma too_fast_0 [simp]: "\<not> too_fast f w 0"
  by (simp add: too_fast_def)

lemma moderate_samples:
  assumes "moderate f w"
  shows "samples_of f 10000 1000000 w \<noteq> []" "(\<Sum>x\<leftarrow>samples_of f 10000 1000000 w. unat x) \<le> 2 ^ 51"
    and "twice_median f w \<le> 2 ^ 31" "unat (measured f w off) \<le> 2 ^ 30"
    and "unat (measured f w off) = (twice_median f w + 1) div 2 - unat off"
proof -
  let ?s = "samples_of f 10000 1000000 w"
  have b: "unat x \<le> 2 ^ 30" if "x \<in> set ?s" for x using assms that by (simp add: moderate_def list_all_iff)
  have len: "length ?s = 1000000" by (simp add: samples_of_def)
  then show ne: "?s \<noteq> []" by force
  have "(\<Sum>x\<leftarrow>?s. unat x) \<le> (\<Sum>x\<leftarrow>?s. 2 ^ 30)" using b by (intro sum_list_mono) auto
  also have "\<dots> = length ?s * 2 ^ 30" by (simp only: sum_list_triv) simp
  finally show "(\<Sum>x\<leftarrow>?s. unat x) \<le> 2 ^ 51" unfolding len by simp
  let ?t = "qsort cmpfunc ?s"
  have n: "0 < length ?t" using ne by simp
  have "?t ! (length ?t div 2) \<in> set ?s" "?t ! ((length ?t - 1) div 2) \<in> set ?s"
    using nth_mem [OF middle_index(1) [OF n]] nth_mem [OF middle_index(2) [OF n]] by simp_all
  note b [OF this(1)] b [OF this(2)]
  then show m: "twice_median f w \<le> 2 ^ 31" by (simp add: twice_median_def mid_sum_def Let_def)
  then have "(twice_median f w + 1) div 2 - unat off < 2 ^ 64" by simp
  then show e: "unat (measured f w off) = (twice_median f w + 1) div 2 - unat off"
    using unat_add_of_nat [of 0 "(twice_median f w + 1) div 2 - unat off"] by (simp add: measured_def)
  show "unat (measured f w off) \<le> 2 ^ 30" unfolding e using m [simplified] by simp
qed

lemma batch_outcome:
  assumes "moderate f w" "1010000 \<le> length xs" "ok (out_name name)" "unat off \<le> 2 ^ 30"
  shows "\<exists>ys ev. batched_bench f 1010000 xs w = Some (ys, million_runs f w) \<and> length ys = length xs \<and>
    bench_stats ok name off 10000 1000000 ys =
      (if too_fast f w off then None else Some (measured f w off, ev)) \<and> csv_names ev = [name]"
proof -
  let ?sm = "samples_of f 10000 1000000 w"
  have "10000 + 1000000 \<le> length xs" using assms(2) by simp
  from bench_samples_batch [OF _ _ this, of f w] obtain ys where b:
    "batched_bench f 1010000 xs w = Some (ys, million_runs f w)" "length ys = length xs"
    "bench_samples 10000 1000000 ys = Some ?sm"
    by (auto simp: MAX_RUN_TIMES_def million_runs_def simp del: funpow.simps)
  have "unat off \<le> 2 ^ 51" using assms(4) by simp
  note bench_stats_value [where fopen_ok = ok and name = name, OF b(3) assms(3) moderate_samples(2) [OF assms(1)] this]
  then have "bench_stats ok name off 10000 1000000 ys =
      (if too_fast f w off then None else Some (measured f w off, stats_events name (compute_stats off ?sm) ?sm))"
    by (simp only: too_fast_def measured_def twice_median_def)
  then show ?thesis using b(1,2) csv_names_stats by blast
qed

text \<open>Latencies in a range for every state of the machine.\<close>

lemma latency_in_run:
  assumes "latency_in f lo hi" "hi \<le> 2 ^ 30"
  shows "moderate f w" "unat off \<le> lo \<Longrightarrow> \<not> too_fast f w off" "unat (measured f w off) \<le> hi - unat off"
proof -
  show m: "moderate f w"
    using assms by (auto simp: moderate_def list_all_iff samples_of_def latency_in_def intro: order_trans)
  have "(1000000 :: nat) * hi \<le> 2 ^ 51" using assms(2) by simp
  from samples_of_bounds(3,4) [OF assms(1) _ this, of 10000 w]
  have t: "2 * lo \<le> twice_median f w" "twice_median f w \<le> 2 * hi" by (simp_all add: twice_median_def)
  show "unat off \<le> lo \<Longrightarrow> \<not> too_fast f w off" using t(1) by (simp add: too_fast_def)
  show "unat (measured f w off) \<le> hi - unat off" unfolding moderate_samples(5) [OF m] using t(2) by arith
qed

section \<open>The native benchmark\<close>

lemma bench_in_app_outcome:
  assumes "moderate f (hw s)" "1010000 \<le> length (app_cycles s)" "fopen_ok P (out_name name)" "unat off \<le> 2 ^ 30"
  shows "if too_fast f (hw s) off then bench_in_app P name off 10000 1000000 f s = None
    else \<exists>s'. bench_in_app P name off 10000 1000000 f s = Some (Inr (measured f (hw s) off, s')) \<and>
      length (app_cycles s') = length (app_cycles s) \<and> encl_cycles s' = encl_cycles s \<and>
      csv_names (elog s') = csv_names (elog s) @ [name] \<and> hw s' = million_runs f (hw s)"
proof -
  obtain ys ev where "batched_bench f 1010000 (app_cycles s) (hw s) = Some (ys, million_runs f (hw s))"
    "length ys = length (app_cycles s)" "csv_names ev = [name]"
    "bench_stats (fopen_ok P) name off 10000 1000000 ys =
      (if too_fast f (hw s) off then None else Some (measured f (hw s) off, ev))"
    using batch_outcome [where ok = "fopen_ok P", OF assms] by blast
  then show ?thesis by (simp add: bench_in_app_def emit_def del: funpow.simps)
qed

lemma bench_in_app_million:
  assumes "latency_in f lo hi" "hi \<le> 2 ^ 30" "1010000 \<le> length (app_cycles s)"
    and "fopen_ok P (out_name name)" "unat off \<le> lo"
  shows "\<exists>l s'. bench_in_app P name off 10000 1000000 f s = Some (Inr (l, s')) \<and>
    unat l \<le> hi - unat off \<and> length (app_cycles s') = length (app_cycles s) \<and>
    encl_cycles s' = encl_cycles s \<and> csv_names (elog s') = csv_names (elog s) @ [name] \<and>
    hw s' = million_runs f (hw s)"
proof -
  have "lo \<le> hi" using assms(1) by (auto simp: latency_in_def intro: order_trans)
  then have "unat off \<le> 2 ^ 30" using assms(2,5) by linarith
  note bench_in_app_outcome [OF latency_in_run(1) [OF assms(1,2)] assms(3,4) this]
  then show ?thesis using latency_in_run(2,3) [OF assms(1,2)] assms(5) by auto
qed

lemma run_bench_open:
  assumes "\<forall>f. fopen_ok P f" "\<forall>d. chdir_ok P d"
  shows "\<exists>s0. run_bench P tag bench_main s =
      and_then (bench_main s0) (\<lambda>(ret, s). Some (Inr (ret, emit [Fclose ''stats.csv''] s))) \<and>
    hw s0 = hw s \<and> app_cycles s0 = app_cycles s \<and> encl_cycles s0 = encl_cycles s \<and>
    csv_names (elog s0) = csv_names (elog s)"
proof -
  let ?path = "result_path tag (time_now P (hw s))"
  let ?s0 = "emit [Fopen ''stats.csv'', Fprint ''stats.csv'' (''Name,Median,Average,Min,Max,Deviation'' @ nl) []]
    (emit [Chdir ?path] (emit [Mkdir ?path] s))"
  have "run_bench P tag bench_main s =
      and_then (bench_main ?s0) (\<lambda>(ret, s). Some (Inr (ret, emit [Fclose ''stats.csv''] s)))"
    using assms by (simp only: run_bench_def Let_def) simp
  then show ?thesis by (intro exI [of _ ?s0]) (simp add: emit_def)
qed

text \<open>C19: where all files and the directory can be opened, the array holds the samples and none of
  this run's samples is above \<open>2 ^ 30\<close> cycles, the native benchmark has undefined behaviour
  exactly if the median of the system calls or of the hypercalls it measures is one and a half
  cycles or more below that of the readings of the clock.  Otherwise it ends with status 0 and
  its \<open>stats.csv\<close> has one row for each of the three operations, in order, and is closed last.\<close>

theorem native_main_completes:
  assumes "\<forall>f. fopen_ok P f" "\<forall>d. chdir_ok P d" "1010000 \<le> length (app_cycles s)"
    and "w1 = million_runs (bench_rdtscp P) (hw s)" "w2 = million_runs (bench_syscall P) w1"
    and "moderate (bench_rdtscp P) (hw s)" "moderate (bench_syscall P) w1" "moderate (bench_hypercall P) w2"
    and "off = measured (bench_rdtscp P) (hw s) 0"
  shows "if too_fast (bench_syscall P) w1 off \<or> too_fast (bench_hypercall P) w2 off then native_main P s = None
    else \<exists>s'. native_main P s = Some (Inr (0, s')) \<and>
      csv_names (elog s') = csv_names (elog s) @ [''rdtscp'', ''syscall'', ''hypercall''] \<and>
      last (elog s') = Fclose ''stats.csv''"
proof -
  obtain s0 where s0: "native_main P s = and_then (native_bench_main P s0)
       (\<lambda>(ret, s). Some (Inr (ret, emit [Fclose ''stats.csv''] s)))"
    "app_cycles s0 = app_cycles s" "csv_names (elog s0) = csv_names (elog s)" "hw s0 = hw s"
    using run_bench_open [OF assms(1,2), of "''native''" "native_bench_main P" s]
    by (auto simp: native_main_def)
  obtain s1 where s1: "bench_in_app P ''rdtscp'' 0 10000 1000000 (bench_rdtscp P) s0 = Some (Inr (off, s1))"
    "length (app_cycles s1) = length (app_cycles s)" "hw s1 = w1"
    "csv_names (elog s1) = csv_names (elog s) @ [''rdtscp'']"
    using bench_in_app_outcome [of "bench_rdtscp P" s0 P "''rdtscp''" 0] assms s0 by auto
  have off: "unat off \<le> 2 ^ 30" unfolding assms(9) by (rule moderate_samples(4) [OF assms(6)])
  note o2 = bench_in_app_outcome [of "bench_syscall P" s1 P "''syscall''" off, unfolded s1(2,3), OF assms(7,3) _ off]
  show ?thesis
  proof (cases "too_fast (bench_syscall P) w1 off")
    case True
    then show ?thesis using o2 assms(1) by (simp add: s0(1) native_bench_main_def s1(1))
  next
    case False
    then obtain s2 where s2: "bench_in_app P ''syscall'' off 10000 1000000 (bench_syscall P) s1 =
        Some (Inr (measured (bench_syscall P) w1 off, s2))"
      "length (app_cycles s2) = length (app_cycles s)" "hw s2 = w2"
      "csv_names (elog s2) = csv_names (elog s) @ [''rdtscp'', ''syscall'']"
      using o2 assms(1,5) s1 by auto
    note o3 = bench_in_app_outcome [of "bench_hypercall P" s2 P "''hypercall''" off, unfolded s2(2,3), OF assms(8,3) _ off]
    show ?thesis
    proof (cases "too_fast (bench_hypercall P) w2 off")
      case True
      then show ?thesis using o3 assms(1) by (simp add: s0(1) native_bench_main_def s1(1) s2(1))
    next
      case F: False
      then obtain s3 where s3: "bench_in_app P ''hypercall'' off 10000 1000000 (bench_hypercall P) s2 =
          Some (Inr (measured (bench_hypercall P) w2 off, s3))"
        "csv_names (elog s3) = csv_names (elog s) @ [''rdtscp'', ''syscall'', ''hypercall'']"
        using o3 assms(1) s2(4) by auto
      show ?thesis using False F by (simp add: s0(1) native_bench_main_def s1(1) s2(1) s3(1) emit_def s3(2))
    qed
  qed
qed

text \<open>A machine whose state is its clock: 25 cycles per reading, 100 per transition.\<close>

definition demo_platform :: "sgx_status \<Rightarrow> u64 platform" where
  "demo_platform st = \<lparr>tsc_op = \<lambda>w. (ucast w, ucast (drop_bit 32 w), w + 25),
     syscall_op = \<lambda>n w. w + 100, vmmcall_op = \<lambda>n w. w + 100, eenter = \<lambda>w. w + 100, eexit = \<lambda>w. w + 100,
     create_enclave = \<lambda>w. (SGX_SUCCESS, w + 100), destroy_enclave = \<lambda>w. w + 100, ecall_status = \<lambda>w. st, eenter_stats = \<lambda>w. (0, 0),
     eexit_stats = \<lambda>w. (0, 0), fopen_ok = \<lambda>f. True, chdir_ok = \<lambda>d. True, time_now = \<lambda>w. 7,
     clib = \<lparr>status_num = \<lambda>_. 1, nan_text = ''-nan''\<rparr>, bufsiz = 8192\<rparr>"

definition demo_edge_state :: "u64 edge_state" where
  "demo_edge_state = \<lparr>hw = 0, app_cycles = replicate 2000000 0, encl_cycles = replicate 2000000 0, elog = []\<rparr>"

lemma demo_rdtscp: "edge_rdtscp (demo_platform st) w = (w, w + 25)"
proof -
  have "push_bit 32 (ucast (ucast (drop_bit 32 w) :: u32)) OR ucast (ucast w :: u32) = w"
    by (rule bit_word_eqI) (auto simp: bit_simps not_less)
  then show ?thesis by (simp add: edge_rdtscp_def demo_platform_def)
qed

lemma demo_latencies:
  "latency_in (bench_rdtscp (demo_platform st)) 0 25" "latency_in (bench_syscall (demo_platform st)) 25 125"
  "latency_in (bench_hypercall (demo_platform st)) 25 125"
  by (simp_all add: latency_in_def bench_rdtscp_def bench_syscall_def bench_hypercall_def demo_rdtscp)
    (simp_all add: demo_platform_def)

theorem native_main_completes_witness:
  "\<exists>s'. native_main (demo_platform SGX_SUCCESS) demo_edge_state = Some (Inr (0, s')) \<and>
     csv_names (elog s') = [''rdtscp'', ''syscall'', ''hypercall'']"
proof -
  let ?P = "demo_platform SGX_SUCCESS" and ?s = demo_edge_state
  have p: "\<forall>f. fopen_ok ?P f" "\<forall>d. chdir_ok ?P d" "1010000 \<le> length (app_cycles ?s)" "csv_names (elog ?s) = []"
    by (simp_all add: demo_platform_def demo_edge_state_def)
  have hi: "(25 :: nat) \<le> 2 ^ 30" "(125 :: nat) \<le> 2 ^ 30" by simp_all
  note r = latency_in_run [OF demo_latencies(1) hi(1)] and y = latency_in_run [OF demo_latencies(2) hi(2)]
    and h = latency_in_run [OF demo_latencies(3) hi(2)]
  have "unat (measured (bench_rdtscp ?P) (hw ?s) 0) \<le> 25" using r(3) [of _ _ 0] by simp
  note y(2) [OF this] h(2) [OF this]
  with native_main_completes [OF p(1-3) refl refl r(1) y(1) h(1) refl]
  show ?thesis unfolding p(4) by (simp only: simp_thms if_False append_Nil) blast
qed

section \<open>A failing ecall\<close>

lemma bench_in_enclave_fails:
  assumes "ecall_status P (hw s) \<noteq> SGX_SUCCESS"
  shows "\<exists>s'. bench_in_enclave P name off w n (ecall_bench f P) s = Some (Inl (s', 0)) \<and>
    (\<exists>ev. elog s' = ev @ edge_print_error_message (ecall_status P (hw s)))"
  using assms by (simp add: bench_in_enclave_def ecall_bench_def emit_def)


lemma demo_ecall_latency:
  "latency_in (bench_ecall_empty (demo_platform SGX_ERROR_ENCLAVE_LOST)) 25 25"
  by (simp add: latency_in_def bench_ecall_empty_def demo_rdtscp ecall_empty_def)
    (simp add: demo_platform_def)


end
