(* ===== verification/PageDump.thy ===== *)
theory PageDump
  imports Paging
begin

text \<open>
  The page-table dump of \<open>paging.h\<close>: \<open>dump_inner\<close> and \<open>dump_pgtable\<close>.

  The printed line carries the level, the index, the virtual address and the entry.  The
  result relates the lines to the entries on the walks of the virtual addresses
  (\<open>slot3\<close> to \<open>slot0\<close> and \<open>leaf\<close> of \<open>Paging\<close>).
\<close>

section \<open>dump_inner and dump_pgtable\<close>

text \<open>The virtual address of entry \<open>i\<close>: the sum, sign-extended from bit 47.\<close>

definition sign_extend :: "u64 \<Rightarrow> u64" where
  "sign_extend vaddr =
     (if vaddr AND push_bit 47 1 \<noteq> 0 then vaddr OR NOT (push_bit 47 1 - 1) else vaddr)"

definition dump_vaddr :: "u64 \<Rightarrow> nat \<Rightarrow> nat \<Rightarrow> u64" where
  "dump_vaddr start_vaddr level i =
     sign_extend (start_vaddr + push_bit (12 + (3 - level) * 9) (of_nat i))"

definition dump_line :: "nat \<Rightarrow> nat \<Rightarrow> u64 \<Rightarrow> u64 \<Rightarrow> event" where
  "dump_line level i vaddr pte =
     Print (''%*s[%d - %03x], 0x%016llx -> 0x%016llx'' @ nl)
       [AInt (int level * 2), AStr '' '', AInt (int level), AInt (int i), AWord vaddr, AWord pte]"

text \<open>
  The loop of \<open>dump_inner\<close> from index \<open>i\<close>, after \<open>n\<close> lines of this table; the recursive
  call starts a loop of its own.
\<close>

function dump_loop ::
  "'a mmu_scheme \<Rightarrow> u64 \<Rightarrow> u64 \<Rightarrow> nat \<Rightarrow> int \<Rightarrow> nat \<Rightarrow> int \<Rightarrow> event list" where
  "dump_loop s table_paddr start_vaddr level limit i n =
     (if i < 512
      then let vaddr = dump_vaddr start_vaddr level i;
               pte = deref s (phys_to_virt table_paddr + 8 * of_nat i)
           in if pte \<noteq> 0
              then dump_line level i vaddr pte #
                (if level < 3
                 then if pte AND PTE_PS = 0
                      then dump_loop s (PTE_ADDR pte) vaddr (level + 1) limit 0 0 else []
                 else []) @
                (if limit \<le> n + 1 then []
                 else dump_loop s table_paddr start_vaddr level limit (i + 1) (n + 1))
              else dump_loop s table_paddr start_vaddr level limit (i + 1) n
      else [])"
  by pat_completeness auto
termination
  by (relation "measures [\<lambda>(s, t, v, level, limit, i, n). 3 - level, \<lambda>(s, t, v, level, limit, i, n). 512 - i]")
    auto

declare dump_loop.simps [simp del]

definition dump_inner :: "'a mmu_scheme \<Rightarrow> u64 \<Rightarrow> u64 \<Rightarrow> nat \<Rightarrow> int \<Rightarrow> event list" where
  "dump_inner s table_paddr start_vaddr level limit =
     dump_loop s table_paddr start_vaddr level limit 0 0"

definition dump_pgtable :: "'a mmu_scheme \<Rightarrow> u64 \<Rightarrow> int \<Rightarrow> event list" where
  "dump_pgtable s root_paddr limit = dump_inner s root_paddr 0 0 limit"

section \<open>Virtual addresses\<close>

lemma sign_extend_eq:
  assumes "\<forall>n\<ge>48. bit v n \<longrightarrow> bit v 47"
  shows "sign_extend v = signed_take_bit 47 v"
proof (rule bit_word_eqI)
  fix n assume n: "n < LENGTH(64)"
  have m: "push_bit 47 1 - 1 = (mask 47 :: u64)" by (simp add: mask_eq_exp_minus_1)
  have c: "v AND push_bit 47 1 \<noteq> 0 \<longleftrightarrow> bit v 47"
    using and_exp_eq_0_iff_not_bit [of v 47] by (simp add: push_bit_eq_mult)
  show "bit (sign_extend v) n = bit (signed_take_bit 47 v) n"
    unfolding sign_extend_def m c using assms n
    by (cases "n < 47"; cases "n = 47") (auto simp: bit_simps min_def not_less)
qed

text \<open>An address that is a multiple of the size of a table's region, and canonical.\<close>

definition region :: "nat \<Rightarrow> u64 \<Rightarrow> bool" where
  "region b v \<longleftrightarrow> v AND mask b = 0 \<and> signed_take_bit 47 v = v"

lemma region_bit: "region b v \<longleftrightarrow> (\<forall>n<64. (n < b \<longrightarrow> \<not> bit v n) \<and> (47 \<le> n \<longrightarrow> bit v n = bit v 47))"
proof -
  have "v AND mask b = 0 \<longleftrightarrow> (\<forall>n<64. n < b \<longrightarrow> \<not> bit v n)"
    by (subst bit_eq_iff) (auto simp: bit_simps)
  moreover have "signed_take_bit 47 v = v \<longleftrightarrow> (\<forall>n<64. 47 \<le> n \<longrightarrow> bit v n = bit v 47)"
    by (subst bit_eq_iff) (auto simp: bit_simps min_def)
  ultimately show ?thesis unfolding region_def by blast
qed

text \<open>
  The address of an index in a region determines both: the region and the index are read
  off the address.
\<close>

definition region_of :: "nat \<Rightarrow> u64 \<Rightarrow> u64" where
  "region_of b w = signed_take_bit 47 (w AND NOT (mask b) AND mask 48)"

definition index_at :: "nat \<Rightarrow> u64 \<Rightarrow> nat" where
  "index_at sh w = unat (take_bit 9 (drop_bit sh w))"

lemma bit_region_of: "bit (region_of b w) n \<longleftrightarrow> n < 64 \<and> b \<le> min n 47 \<and> bit w (min n 47)"
  by (auto simp: region_of_def bit_simps min_def not_less)

lemma region_of_region: "region b (region_of b w)"
  by (auto simp: region_bit bit_region_of min_def)

lemma index_at_less: "index_at sh w < 512"
  unfolding index_at_def unsigned_take_bit_eq using take_bit_nat_less_exp [of 9] by simp

lemma bit_below_512: "j < 512 \<Longrightarrow> bit j n \<Longrightarrow> n < 9" for j :: nat
  using bit_take_bit_iff [of 9 j n] take_bit_nat_eq_self [of j 9] by auto

lemma len64: "LENGTH(64) = 64"
  by simp

lemma region_low: "region b v \<Longrightarrow> bit v m \<Longrightarrow> b \<le> m"
  using bit_imp_le_length [of v m] unfolding region_bit by (metis len64 not_le)

lemma region_high: "region b v \<Longrightarrow> 47 \<le> n \<Longrightarrow> n < 64 \<Longrightarrow> bit v n = bit v 47"
  unfolding region_bit by blast

lemma bit_place:
  assumes "region (sh + 9) v" "sh + 9 \<le> 48" "j < 512" "n < 64"
  shows "bit (sign_extend (v + push_bit sh (of_nat j))) n \<longleftrightarrow>
    (if n < sh then False else if min n 47 < sh + 9 then bit j (min n 47 - sh) else bit v n)"
proof -
  define q where "q = (of_nat j :: u64)"
  have q: "bit q m \<longleftrightarrow> m < 9 \<and> bit j m" for m
    using bit_below_512 [OF assms(3), of m] by (auto simp: q_def bit_of_nat_iff)
  note vs = region_low [OF assms(1)]
  have z: "v AND push_bit sh q = 0"
    by (rule bit_word_eqI) (auto simp: bit_simps q dest!: vs)
  have x: "bit (v + push_bit sh q) m \<longleftrightarrow> bit v m \<or> m < 64 \<and> sh \<le> m \<and> m < sh + 9 \<and> bit j (m - sh)" for m
    unfolding disjunctive_add_eq_or [OF z] by (auto simp: bit_simps q)
  have "bit (v + push_bit sh q) m \<longrightarrow> bit (v + push_bit sh q) 47" if "48 \<le> m" for m
    using that region_high [OF assms(1), of m] bit_imp_le_length [of v m] assms(2) by (auto simp: x)
  then have e: "sign_extend (v + push_bit sh q) = signed_take_bit 47 (v + push_bit sh q)"
    by (intro sign_extend_eq) blast
  have "bit (sign_extend (v + push_bit sh q)) n \<longleftrightarrow> bit (v + push_bit sh q) (min n 47)"
    unfolding e using assms(4) by (simp add: bit_signed_take_bit_iff min.commute)
  also have "\<dots> \<longleftrightarrow> (if n < sh then False else if min n 47 < sh + 9 then bit j (min n 47 - sh) else bit v n)"
  proof (cases "n < 47")
    case True
    then show ?thesis using vs [of n] by (auto simp: x)
  next
    case False
    then have n: "min n 47 = 47" "bit v n = bit v 47"
      using region_high [OF assms(1), of n] assms(4) by simp_all
    show ?thesis unfolding n using False vs [of 47] assms(2) by (auto simp: x)
  qed
  finally show ?thesis unfolding q_def .
qed

lemma place_iff:
  assumes "region (sh + 9) v" "sh + 9 \<le> 48" "j < 512"
  shows "sign_extend (v + push_bit sh (of_nat j)) = w \<longleftrightarrow>
    region sh w \<and> v = region_of (sh + 9) w \<and> j = index_at sh w"
    (is "?p = w \<longleftrightarrow> ?r")
proof
  note b = bit_place [OF assms]
  note vs = region_low [OF assms(1)] and vh = region_high [OF assms(1)]
  assume w: "?p = w"
  have b': "bit w n \<longleftrightarrow> (if n < sh then False else if min n 47 < sh + 9 then bit j (min n 47 - sh) else bit v n)"
    if "n < 64" for n using b [OF that] unfolding w .
  have "bit w n = bit w 47" if "47 \<le> n" "n < 64" for n
    using that vh [OF that] assms(2) by (simp add: b' min_def)
  moreover have "\<not> bit w n" if "n < sh" "n < 64" for n using that by (simp add: b')
  ultimately have "region sh w" unfolding region_bit by blast
  moreover have "v = region_of (sh + 9) w"
  proof (rule bit_word_eqI)
    fix n assume n: "n < LENGTH(64)"
    show "bit v n = bit (region_of (sh + 9) w) n"
    proof (cases "n < 47")
      case True
      then show ?thesis using vs [of n] n by (auto simp: bit_region_of b')
    next
      case False
      then have "min n 47 = 47" "bit v n = bit v 47" using vh [of n] n by simp_all
      then show ?thesis using vs [of 47] n by (auto simp: bit_region_of b')
    qed
  qed
  moreover have "j = index_at sh w"
  proof (rule bit_eqI)
    fix n
    show "bit j n = bit (index_at sh w) n"
      using assms(2) bit_below_512 [OF assms(3), of n]
      by (auto simp: index_at_def bit_simps b')
  qed
  ultimately show ?r by simp
next
  assume w: ?r
  then have j: "bit j m \<longleftrightarrow> m < 9 \<and> bit w (sh + m)" if "sh + m < 64" for m
    using that by (auto simp: index_at_def bit_simps)
  from w have wr: "region sh w" and v: "bit v m \<longleftrightarrow> m < 64 \<and> sh + 9 \<le> min m 47 \<and> bit w (min m 47)" for m
    by (simp_all add: bit_region_of)
  show "?p = w"
  proof (rule bit_word_eqI)
    fix n assume n: "n < LENGTH(64)"
    show "bit ?p n = bit w n"
    proof (cases "n < 47")
      case True
      then have m: "min n 47 = n" by simp
      show ?thesis
        using region_low [OF wr, of n] n True by (auto simp: bit_place [OF assms] v j m)
    next
      case False
      then have m: "min n 47 = 47" by simp
      have "bit w n = bit w 47" using region_high [OF wr, of n] False n by simp
      then show ?thesis
        using region_low [OF wr, of 47] n False assms(2) by (auto simp: bit_place [OF assms] v j m)
    qed
  qed
qed

lemma dump_vaddr_iff:
  assumes "region (12 + (3 - l) * 9 + 9) v" "l \<le> 3" "j < 512"
  shows "dump_vaddr v l j = w \<longleftrightarrow>
    region (12 + (3 - l) * 9) w \<and> v = region_of (12 + (3 - l) * 9 + 9) w \<and> j = index_at (12 + (3 - l) * 9) w"
  unfolding dump_vaddr_def by (rule place_iff [OF assms(1) _ assms(3)]) (use assms(2) in simp)

lemma region_of_nested:
  assumes "b \<le> b'"
  shows "region_of b' (region_of b w) = region_of b' w"
proof (rule bit_word_eqI)
  fix n assume n: "n < LENGTH(64)"
  show "bit (region_of b' (region_of b w)) n = bit (region_of b' w) n"
  proof (cases "n < 47")
    case True
    then have m: "min n 47 = n" by simp
    show ?thesis unfolding bit_region_of using n assms True by (auto simp: m)
  next
    case False
    then have m: "min n 47 = 47" by simp
    show ?thesis unfolding bit_region_of using n assms by (auto simp: m)
  qed
qed

lemma index_at_region_of:
  assumes "b \<le> sh" "sh + 9 \<le> 48"
  shows "index_at sh (region_of b w) = index_at sh w"
proof -
  have "take_bit 9 (drop_bit sh (region_of b w)) = take_bit 9 (drop_bit sh w)"
  proof (rule bit_word_eqI)
    fix n assume "n < LENGTH(64)"
    have m: "min (sh + n) 47 = sh + n" if "n < 9" using that assms(2) by simp
    show "bit (take_bit 9 (drop_bit sh (region_of b w))) n = bit (take_bit 9 (drop_bit sh w)) n"
      using assms m by (cases "n < 9") (auto simp: bit_take_bit_iff bit_drop_bit_eq bit_region_of)
  qed
  then show ?thesis by (simp add: index_at_def)
qed

section \<open>The lines of a dump\<close>

text \<open>With a limit of at least 512 the break never hides an entry.\<close>

definition entry_lines :: "'a mmu_scheme \<Rightarrow> u64 \<Rightarrow> u64 \<Rightarrow> nat \<Rightarrow> int \<Rightarrow> nat \<Rightarrow> event set" where
  "entry_lines s t v l limit j =
     (let pte = read64 (pmem s) (t + 8 * of_nat j); w = dump_vaddr v l j
      in if pte = 0 then {}
         else insert (dump_line l j w pte)
           (if l < 3 \<and> pte AND PTE_PS = 0 then set (dump_inner s (PTE_ADDR pte) w (l + 1) limit) else {}))"

lemma dump_loop_set:
  assumes "512 \<le> limit" "n \<le> int i"
  shows "set (dump_loop s t v l limit i n) = (\<Union>j\<in>{i..<512}. entry_lines s t v l limit j)"
  using assms(2)
proof (induction "512 - i" arbitrary: i n)
  case 0
  then show ?case by (subst dump_loop.simps) simp
next
  case (Suc k)
  have i: "{i..<512} = insert i {Suc i..<512}" using Suc(2) by auto
  have IH: "set (dump_loop s t v l limit (i + 1) m) = (\<Union>j\<in>{Suc i..<512}. entry_lines s t v l limit j)"
    if "m \<le> int (i + 1)" for m using Suc(1) [of "i + 1" m] Suc(2) that by simp
  have brk: "limit \<le> n + 1 \<Longrightarrow> {Suc i..<512} = {}" using assms(1) Suc(2,3) by auto
  let ?pte = "deref s (phys_to_virt t + 8 * of_nat i)"
  let ?sub = "if l < 3 then if ?pte AND PTE_PS = 0
    then dump_loop s (PTE_ADDR ?pte) (dump_vaddr v l i) (l + 1) limit 0 0 else [] else []"
  have lines: "entry_lines s t v l limit i =
      (if ?pte = 0 then {} else insert (dump_line l i (dump_vaddr v l i) ?pte) (set ?sub))"
    by (auto simp: entry_lines_def dump_inner_def Let_def)
  have unfold: "dump_loop s t v l limit i n =
      (if ?pte \<noteq> 0 then dump_line l i (dump_vaddr v l i) ?pte # ?sub @
         (if limit \<le> n + 1 then [] else dump_loop s t v l limit (i + 1) (n + 1))
       else dump_loop s t v l limit (i + 1) n)"
  proof -
    have "i < 512" using Suc(2) by simp
    then show ?thesis by (subst dump_loop.simps) (simp add: Let_def)
  qed
  show ?case
  proof (cases "?pte = 0")
    case True
    then show ?thesis using IH [of n] Suc(3) unfolding unfold i by (simp add: lines)
  next
    case False
    have "set (if limit \<le> n + 1 then [] else dump_loop s t v l limit (i + 1) (n + 1)) =
        (\<Union>j\<in>{Suc i..<512}. entry_lines s t v l limit j)"
      using IH [of "n + 1"] Suc(3) brk by (cases "limit \<le> n + 1") simp_all
    moreover have "set (dump_loop s t v l limit i n) =
        insert (dump_line l i (dump_vaddr v l i) ?pte) (set ?sub) \<union>
        set (if limit \<le> n + 1 then [] else dump_loop s t v l limit (i + 1) (n + 1))"
      unfolding unfold if_P [OF False] by (simp only: list.set set_append Un_insert_left)
    ultimately show ?thesis
      unfolding i UN_insert lines if_not_P [OF False] by (simp only:)
  qed
qed

lemma dump_inner_set:
  "512 \<le> limit \<Longrightarrow> set (dump_inner s t v l limit) = (\<Union>j<512. entry_lines s t v l limit j)"
  by (simp add: dump_inner_def dump_loop_set lessThan_atLeast0)

text \<open>The entry of a page: the walk of the dump, which reads no present bit.\<close>

primrec dump_walk :: "memory \<Rightarrow> nat \<Rightarrow> u64 \<Rightarrow> u64 \<Rightarrow> u64 option" where
  "dump_walk m 0 t w =
     (let pte = read64 m (t + 8 * of_nat (index_at 12 w)) in if pte = 0 then None else Some pte)"
| "dump_walk m (Suc r) t w =
     (let pte = read64 m (t + 8 * of_nat (index_at (12 + 9 * Suc r) w))
      in if pte = 0 \<or> pte AND PTE_PS \<noteq> 0 then None else dump_walk m r (PTE_ADDR pte) w)"

lemma dump_line_eq: "dump_line l i v e = dump_line l' i' v' e' \<longleftrightarrow> l = l' \<and> i = i' \<and> v = v' \<and> e = e'"
  by (auto simp: dump_line_def)

lemma dump_inner_leaf:
  assumes "512 \<le> limit" "r \<le> 3" "region (21 + r * 9) v"
  shows "dump_line 3 k w e \<in> set (dump_inner s t v (3 - r) limit) \<longleftrightarrow>
    region 12 w \<and> v = region_of (21 + r * 9) w \<and> k = index_at 12 w \<and> dump_walk (pmem s) r t w = Some e"
  using assms(2,3)
proof (induction r arbitrary: t v)
  case 0
  have "dump_line 3 k w e \<in> set (dump_inner s t v 3 limit) \<longleftrightarrow>
      (\<exists>j<512. dump_vaddr v 3 j = w \<and> j = k \<and> e = read64 (pmem s) (t + 8 * of_nat j) \<and> e \<noteq> 0)"
    unfolding dump_inner_set [OF assms(1)]
    by (auto simp: entry_lines_def Let_def dump_line_eq split: if_splits)
  also have "\<dots> \<longleftrightarrow> region 12 w \<and> v = region_of 21 w \<and> k = index_at 12 w \<and> dump_walk (pmem s) 0 t w = Some e"
  proof -
    have "dump_vaddr v 3 j = w \<longleftrightarrow> region 12 w \<and> v = region_of 21 w \<and> j = index_at 12 w" if "j < 512" for j
      using dump_vaddr_iff [of 3 v j w] 0 that by simp
    then have "(\<exists>j<512. dump_vaddr v 3 j = w \<and> j = k \<and> e = read64 (pmem s) (t + 8 * of_nat j) \<and> e \<noteq> 0) \<longleftrightarrow>
        (\<exists>j<512. (region 12 w \<and> v = region_of 21 w \<and> j = index_at 12 w) \<and> j = k \<and>
           e = read64 (pmem s) (t + 8 * of_nat j) \<and> e \<noteq> 0)"
      by blast
    also have "\<dots> \<longleftrightarrow> region 12 w \<and> v = region_of 21 w \<and> k = index_at 12 w \<and> dump_walk (pmem s) 0 t w = Some e"
      using index_at_less [of 12 w] by (auto simp: Let_def)
    finally show ?thesis .
  qed
  finally show ?case by simp
next
  case (Suc r)
  let ?b = "21 + r * 9"
  let ?pte = "\<lambda>j. read64 (pmem s) (t + 8 * of_nat j)"
  have l: "3 - Suc r < 3" "3 - Suc r + 1 = 3 - r" "12 + (3 - (3 - Suc r)) * 9 = ?b" "?b + 9 = 21 + Suc r * 9"
    using Suc.prems(1) by auto
  have v: "dump_vaddr v (3 - Suc r) j = x \<longleftrightarrow> region ?b x \<and> v = region_of (?b + 9) x \<and> j = index_at ?b x"
    if "j < 512" for j x
    using dump_vaddr_iff [of "3 - Suc r" v j x] Suc.prems that unfolding l by simp
  have IH: "dump_line 3 k w e \<in> set (dump_inner s (PTE_ADDR (?pte j)) (dump_vaddr v (3 - Suc r) j) (3 - r) limit) \<longleftrightarrow>
      region 12 w \<and> v = region_of (?b + 9) w \<and> j = index_at ?b w \<and> k = index_at 12 w \<and>
      dump_walk (pmem s) r (PTE_ADDR (?pte j)) w = Some e" if "j < 512" for j
  proof -
    have "region ?b (dump_vaddr v (3 - Suc r) j)" using v [OF that, of "dump_vaddr v (3 - Suc r) j"] by simp
    then show ?thesis
      using Suc.IH [of "dump_vaddr v (3 - Suc r) j" "PTE_ADDR (?pte j)"] v [OF that, of "region_of ?b w"] Suc.prems
      by (auto simp: region_of_region region_of_nested index_at_region_of)
  qed
  have "dump_line 3 k w e \<in> set (dump_inner s t v (3 - Suc r) limit) \<longleftrightarrow>
      (\<exists>j<512. ?pte j \<noteq> 0 \<and> ?pte j AND PTE_PS = 0 \<and>
        dump_line 3 k w e \<in> set (dump_inner s (PTE_ADDR (?pte j)) (dump_vaddr v (3 - Suc r) j) (3 - r) limit))"
    unfolding dump_inner_set [OF assms(1), of s t] using l
    by (auto simp: entry_lines_def Let_def dump_line_eq split: if_splits)
  also have "\<dots> \<longleftrightarrow> region 12 w \<and> v = region_of (?b + 9) w \<and> k = index_at 12 w \<and>
      dump_walk (pmem s) (Suc r) t w = Some e"
  proof -
    have "12 + 9 * Suc r = ?b" by simp
    then have "dump_walk (pmem s) (Suc r) t w = Some e \<longleftrightarrow>
        ?pte (index_at ?b w) \<noteq> 0 \<and> ?pte (index_at ?b w) AND PTE_PS = 0 \<and>
        dump_walk (pmem s) r (PTE_ADDR (?pte (index_at ?b w))) w = Some e"
      by (simp only: dump_walk.simps Let_def) auto
    then show ?thesis using IH index_at_less [of ?b w] by blast
  qed
  finally show ?case unfolding l .
qed

lemma region_of_top: "region_of 48 w = 0"
  by (rule bit_word_eqI) (simp add: bit_region_of)

lemma of_nat_index_at: "of_nat (index_at sh w) = drop_bit sh w AND 0x1ff"
  by (simp add: index_at_def take_bit_eq_mask addr_masks)

lemma dump_walk_slots:
  "dump_walk m 3 c w =
     (let e3 = read64 m (slot3 m c w); e2 = read64 m (slot2 m c w); e1 = read64 m (slot1 m c w);
          hidden = (\<lambda>e. e = 0 \<or> e AND PTE_PS \<noteq> 0)
      in if hidden e3 \<or> hidden e2 \<or> hidden e1 \<or> leaf m c w = 0 then None else Some (leaf m c w))"
  by (simp add: numeral_3_eq_3 of_nat_index_at Let_def slot_defs leaf_def
      P4_IDX_def P3_IDX_def P2_IDX_def P1_IDX_def)

text \<open>C23: with a limit of at least 512, the dump of a page table has a line for a page exactly
  for the canonical, page-aligned addresses whose leaf entry is not zero and whose upper
  entries are neither zero nor large pages; the line shows the address, the index and the
  leaf entry the walks of \<open>get_entry\<close> and of the processor read.  The present bit is not
  consulted.\<close>

theorem dump_pgtable_lines:
  assumes "512 \<le> limit"
  shows "dump_line 3 i v e \<in> set (dump_pgtable s c limit) \<longleftrightarrow>
    v AND 0xfff = 0 \<and> signed_take_bit 47 v = v \<and> of_nat i = P1_IDX v \<and> i < 512 \<and>
    (\<forall>slot \<in> {slot3, slot2, slot1}.
       read64 (pmem s) (slot (pmem s) c v) \<noteq> 0 \<and> read64 (pmem s) (slot (pmem s) c v) AND PTE_PS = 0) \<and>
    e = leaf (pmem s) c v \<and> e \<noteq> 0"
proof -
  have "region 48 0" by (simp add: region_def)
  then have "dump_line 3 i v e \<in> set (dump_pgtable s c limit) \<longleftrightarrow>
      region 12 v \<and> i = index_at 12 v \<and> dump_walk (pmem s) 3 c v = Some e"
    using dump_inner_leaf [OF assms, of 3 0 i v e s c] by (simp add: dump_pgtable_def region_of_top)
  moreover have "i = index_at 12 v \<longleftrightarrow> of_nat i = P1_IDX v \<and> i < 512"
  proof
    assume "of_nat i = P1_IDX v \<and> i < 512"
    then have "unat (of_nat i :: u64) = unat (of_nat (index_at 12 v) :: u64)" "i < 512"
      by (simp_all add: of_nat_index_at P1_IDX_def)
    then show "i = index_at 12 v"
      using index_at_less [of 12 v] unat_add_of_nat [of 0 i] unat_add_of_nat [of 0 "index_at 12 v"] by simp
  qed (simp add: of_nat_index_at P1_IDX_def index_at_less)
  moreover have "dump_walk (pmem s) 3 c v = Some e \<longleftrightarrow>
      (\<forall>slot \<in> {slot3, slot2, slot1}.
         read64 (pmem s) (slot (pmem s) c v) \<noteq> 0 \<and> read64 (pmem s) (slot (pmem s) c v) AND PTE_PS = 0) \<and>
      e = leaf (pmem s) c v \<and> e \<noteq> 0"
    unfolding dump_walk_slots Let_def by auto
  ultimately show ?thesis unfolding region_def addr_masks(4) by blast
qed

theorem dump_pgtable_lines_witness:
  "dump_line 3 0 0x400000 0x9005 \<in> set (dump_pgtable demo_mmu 0x1000 512)"
  using dump_pgtable_lines [of 512 0 "0x400000" "0x9005" demo_mmu "0x1000"]
  by (simp add: demo_mmu_def demo_slots demo_pt_cells leaf_def PTE_PS_def P1_IDX_def)

section \<open>The limit\<close>

text \<open>The most lines printed directly by one table.\<close>

definition table_lines :: "int \<Rightarrow> nat" where
  "table_lines limit = min 512 (nat (max 1 limit))"

text \<open>The largest number of lines of a table \<open>r\<close> levels above the leaves.\<close>

primrec dump_bound :: "nat \<Rightarrow> nat \<Rightarrow> nat" where
  "dump_bound b 0 = b"
| "dump_bound b (Suc r) = b * (1 + dump_bound b r)"

lemma dump_loop_length:
  assumes "l \<le> 3" "0 \<le> n" "n < max 1 limit"
  shows "length (dump_loop s t v l limit i n) \<le>
    min (512 - i) (nat (max 1 limit - n)) * (1 + (if l < 3 then dump_bound (table_lines limit) (2 - l) else 0))"
  using assms
proof (induction s t v l limit i n rule: dump_loop.induct)
  case (1 s t v l limit i n)
  let ?pte = "deref s (phys_to_virt t + 8 * of_nat i)"
  let ?sub = "if l < 3 then dump_bound (table_lines limit) (2 - l) else 0"
  show ?case
  proof (cases "i < 512")
    case False
    then show ?thesis by (subst dump_loop.simps) simp
  next
    case True
    let ?left = "min (512 - i) (nat (max 1 limit - n))"
    let ?left' = "min (512 - (i + 1)) (nat (max 1 limit - (n + 1)))"
    have left: "?left = Suc ?left'" using True 1(6) by auto
    have below: "length (dump_loop s (PTE_ADDR ?pte) (dump_vaddr v l i) (l + 1) limit 0 0) \<le> ?sub"
      if "?pte \<noteq> 0" "l < 3" "?pte AND PTE_PS = 0"
    proof -
      have "l = 0 \<or> l = 1 \<or> l = 2" using that(2) by auto
      then have "table_lines limit * (1 + (if l + 1 < 3 then dump_bound (table_lines limit) (2 - (l + 1)) else 0)) = ?sub"
        by (auto simp: numeral_2_eq_2)
      moreover have "length (dump_loop s (PTE_ADDR ?pte) (dump_vaddr v l i) (l + 1) limit 0 0) \<le>
          min (512 - 0) (nat (max 1 limit - 0)) * (1 + (if l + 1 < 3 then dump_bound (table_lines limit) (2 - (l + 1)) else 0))"
        by (rule 1(1) [OF True refl refl that]) (use that(2) in simp_all)
      moreover have "min (512 - 0) (nat (max 1 limit - 0)) = table_lines limit" by (simp add: table_lines_def)
      ultimately show ?thesis by (simp only:)
    qed
    have rest: "length (dump_loop s t v l limit (i + 1) (n + 1)) \<le> ?left' * (1 + ?sub)"
      if "?pte \<noteq> 0" "\<not> limit \<le> n + 1"
      using 1(2) [OF True refl refl that 1(4)] 1(5) that(2) by simp
    have skip: "length (dump_loop s t v l limit (i + 1) n) \<le> ?left * (1 + ?sub)" if "?pte = 0"
    proof -
      have "length (dump_loop s t v l limit (i + 1) n) \<le> min (512 - (i + 1)) (nat (max 1 limit - n)) * (1 + ?sub)"
        using 1(3) [OF True refl refl _ 1(4-6)] that by simp
      also have "\<dots> \<le> ?left * (1 + ?sub)" by (intro mult_le_mono1) simp
      finally show ?thesis .
    qed
    let ?inner = "if l < 3 then if ?pte AND PTE_PS = 0
      then dump_loop s (PTE_ADDR ?pte) (dump_vaddr v l i) (l + 1) limit 0 0 else [] else []"
    let ?rest = "if limit \<le> n + 1 then [] else dump_loop s t v l limit (i + 1) (n + 1)"
    have unfold: "dump_loop s t v l limit i n =
        (if ?pte \<noteq> 0 then dump_line l i (dump_vaddr v l i) ?pte # ?inner @ ?rest
         else dump_loop s t v l limit (i + 1) n)"
      using True by (subst dump_loop.simps) (simp add: Let_def)
    show ?thesis
    proof (cases "?pte = 0")
      case True
      then show ?thesis using skip unfolding unfold by simp
    next
      case False
      have "length ?inner \<le> ?sub" using below False by simp
      moreover have "length ?rest \<le> ?left' * (1 + ?sub)" using rest False by simp
      ultimately have "length (dump_loop s t v l limit i n) \<le> (1 + ?sub) + ?left' * (1 + ?sub)"
        unfolding unfold if_P [OF False] by (simp only: list.size length_append)
      then show ?thesis unfolding left by (simp only: mult_Suc)
    qed
  qed
qed

text \<open>The dump ends, and a limit of \<open>L\<close> lines per table bounds its length by
  \<open>L + L\<^sup>2 + L\<^sup>3 + L\<^sup>4\<close>; the limit is checked after a line is printed, so a limit of 0 or below
  counts as 1, and a table has 512 entries, so more than that counts as 512.\<close>

theorem dump_pgtable_length:
  "length (dump_pgtable s c limit) \<le>
     (let b = table_lines limit in b + b ^ 2 + b ^ 3 + b ^ 4)"
proof -
  define b where "b = table_lines limit"
  have "length (dump_pgtable s c limit) \<le> b * (1 + dump_bound b 2)"
    using dump_loop_length [of 0 0 limit s c 0 0]
    by (simp add: dump_pgtable_def dump_inner_def b_def table_lines_def)
  also have "\<dots> = b + b ^ 2 + b ^ 3 + b ^ 4"
    by (simp add: numeral_2_eq_2 algebra_simps power4_eq_xxxx power3_eq_cube)
  finally show ?thesis unfolding b_def Let_def .
qed

end
