(* ===== verification/Formats.thy ===== *)
theory Formats
  imports EdgeCalls PEnclaveRun SdkEnclaves App PageDump Printf
begin

text \<open>
  The typing rule of \<open>Printf\<close> applied to every output call of the program.  The output of the
  edge-call benchmark, of the App and of the page-table dump obeys it; the report of an
  unexpected exception does not.
\<close>

section \<open>The edge-call benchmark\<close>

lemma stats_events_ok: "output_ok (stats_events name r samples)"
proof -
  have "output_ok (map (\<lambda>x. Fprint (out_name name) (''%ld'' @ nl) [AWord x]) xs)" for xs :: "u64 list"
    by (induction xs) simp_all
  then show ?thesis by (simp add: stats_events_def)
qed

lemma print_entry_ok: "output_ok (print_entry e)"
  by (simp add: print_entry_def split: option.split)

lemma edge_message_ok: "output_ok (edge_print_error_message ret)"
  using message_cases(2) [of ret] print_entry_ok by (auto simp: nl_def)

lemma message_ok: "output_ok (print_error_message ret)"
  using message_cases(1) [of ret] print_entry_ok by (auto simp: nl_def)

text \<open>The log at the end of a run, returned from or left by \<open>exit\<close>.\<close>

fun end_log :: "('w edge_state \<times> int) + ('a \<times> 'w edge_state) \<Rightarrow> event list" where
  "end_log (Inl (s, code)) = elog s"
| "end_log (Inr (x, s)) = elog s"

definition typed_run :: "('w, 'a) edge_run \<Rightarrow> bool" where
  "typed_run r \<longleftrightarrow> (\<forall>e. r = Some e \<longrightarrow> output_ok (end_log e))"

lemma typed_run_simps [simp]:
  "typed_run None" "typed_run (Some (Inl (s, code))) \<longleftrightarrow> output_ok (elog s)"
  "typed_run (Some (Inr (x, s))) \<longleftrightarrow> output_ok (elog s)"
  by (simp_all add: typed_run_def)

lemma typed_and_then:
  assumes "typed_run r" "\<And>x s. output_ok (elog s) \<Longrightarrow> typed_run (f (x, s))"
  shows "typed_run (and_then r f)"
  using assms by (auto simp: typed_run_def and_then_def split: option.splits sum.splits)

lemma elog_emit [simp]: "elog (emit ev s) = elog s @ ev"
  by (simp add: emit_def)

lemma typed_stats:
  assumes "output_ok (elog s)"
  shows "typed_run (map_option (\<lambda>(l, ev). Inr (l, emit ev s)) (bench_stats ok name off warmup n xs))"
  using assms stats_events_ok
  by (auto simp: bench_stats_def typed_run_def map_option_case Let_def split: option.splits if_splits bind_splits)

lemma typed_bench_in_app: "output_ok (elog s) \<Longrightarrow> typed_run (bench_in_app P name off warmup n f s)"
  by (auto simp: bench_in_app_def Let_def split: bind_splits intro!: typed_stats)

lemma typed_bench_in_enclave: "output_ok (elog s) \<Longrightarrow> typed_run (bench_in_enclave P name off warmup n f s)"
  by (auto simp: bench_in_enclave_def Let_def edge_message_ok split: bind_splits intro!: typed_stats)

lemma typed_run_bench:
  assumes "\<And>s. output_ok (elog s) \<Longrightarrow> typed_run (bench_main s)" "output_ok (elog s)"
  shows "typed_run (run_bench P tag bench_main s)"
  using assms by (auto simp: run_bench_def Let_def intro!: typed_and_then)

lemma typed_native_main: "output_ok (elog s) \<Longrightarrow> typed_run (native_main P s)"
  by (auto simp: native_main_def native_bench_main_def Let_def
      intro!: typed_run_bench typed_and_then typed_bench_in_app)

lemma transition_report_ok:
  assumes "\<forall>c\<in>set (lower @ upper). c \<noteq> CHR ''%''"
  shows "output_ok (transition_report lower upper stats)"
proof -
  have "conversions (cs @ ds) = conversions ds" if "\<forall>c\<in>set cs. c \<noteq> CHR ''%''" for cs ds
    using that by (induction cs) auto
  then show ?thesis using assms by (simp add: transition_report_def Let_def split: prod.split)
qed

lemma typed_edge_bench_main: "output_ok (elog s) \<Longrightarrow> typed_run (edge_bench_main R S P s)"
proof -
  assume ok: "output_ok (elog s)"
  have "\<exists>s0. ecall_hello P m s = Some (Inr s0) \<and> output_ok (elog s0)" for m
    using ok by (simp add: ecall_hello_def edge_printf_string edge_ocall_print_string_def)
  then obtain s0 where s0: "ecall_hello P (''Hello world!'' @ nl) s = Some (Inr s0)" "output_ok (elog s0)"
    by blast
  have report: "output_ok (transition_report ''eenter'' ''EENTER'' r)"
    "output_ok (transition_report ''eexit'' ''EEXIT'' r)" for r
    by (rule transition_report_ok; simp)+
  show ?thesis
    by (auto simp: edge_bench_main_def Let_def s0(1) [simplified append.simps] s0(2) report split: prod.split
        intro!: typed_and_then typed_bench_in_app typed_bench_in_enclave)
qed

text \<open>C27: in the edge-call benchmark and the native one every call of \<open>printf\<close>, \<open>fprintf\<close> and \<open>puts\<close>,
  on every path to an end (a return, an \<open>exit\<close> after a failed ecall), is well-typed: the
  conversion specifications of its format are those of its arguments.\<close>

theorem edge_output_typed:
  assumes "output_ok (elog s)"
  shows "(edge_main R S P argv s = Some r \<longrightarrow> output_ok (end_log r)) \<and>
    (native_main P s = Some r \<longrightarrow> output_ok (end_log r))"
proof -
  have "output_ok (elog (snd (edge_initialize_enclave P s)))"
    using assms by (simp add: edge_initialize_enclave_def Let_def edge_message_ok split: prod.split)
  then have "typed_run (edge_main R S P argv s)"
    by (auto simp: edge_main_def split: prod.split
        intro!: typed_and_then typed_run_bench typed_edge_bench_main)
  then show ?thesis using typed_native_main [OF assms, of P] by (simp add: typed_run_def)
qed

theorem edge_output_typed_witness:
  "\<exists>s'. edge_main False False (demo_platform SGX_SUCCESS\<lparr>create_enclave := \<lambda>w. (SGX_ERROR_NO_DEVICE, w)\<rparr>)
       [''app''] demo_edge_state = Some (Inr (-1, s')) \<and> output_ok (elog s') \<and> elog s' \<noteq> []"
proof -
  let ?P = "demo_platform SGX_SUCCESS\<lparr>create_enclave := \<lambda>w. (SGX_ERROR_NO_DEVICE, w)\<rparr>"
  obtain s' where s': "edge_main False False ?P [''app''] demo_edge_state = Some (Inr (-1, s'))" "elog s' \<noteq> []"
    by (simp add: edge_main_def edge_initialize_enclave_def)
  have "output_ok (elog demo_edge_state)" by (simp add: demo_edge_state_def)
  from edge_output_typed [OF this, of False False ?P "[''app'']"] s' show ?thesis by fastforce
qed

section \<open>The exception handlers\<close>

fun handler_log :: "penclave + trapframe \<times> penclave \<Rightarrow> event list" where
  "handler_log (Inl s) = out s"
| "handler_log (Inr (tf, s)) = out s"

lemma dump_trapframe_output:
  "\<exists>ev. output_ok ev \<and> out (dump_trapframe tf s) = out s @ ev"
  by (simp add: dump_trapframe_def printf_ocall_def)

lemma page_fault_output:
  assumes "ucast (tf_vector tf) = (0xE :: u32)"
  shows "\<exists>r ev. exception_handler tf s = Some r \<and> handler_log r = out s @ ev \<and> output_ok ev"
proof -
  let ?s = "s\<lparr>g_pf_count := g_pf_count s + 1\<rparr>"
  let ?print = "printf_ocall (''ERROR: page fault mprotect returns: %d'' @ nl)"
  obtain r where r: "mprotect ?s (cr2 s) PGSIZE (PTE_P OR PTE_W) = Some r" using mprotect_returns by blast
  show ?thesis
  proof (cases r)
    case Aborted
    then show ?thesis using r assms by (simp add: exception_handler_def read_cr2_def)
  next
    case (Ret p)
    obtain ret s' where p: "p = (ret, s')" by fastforce
    have o: "out s' = out s" using more_fields(5) [OF mprotect_fields(4) [OF r [unfolded Ret p]]] by simp
    obtain ev where "output_ok ev"
      "out (dump_trapframe tf (?print [AInt ret] s')) = out (?print [AInt ret] s') @ ev"
      using dump_trapframe_output by blast
    then show ?thesis
      using r assms o by (simp add: exception_handler_def read_cr2_def Let_def Ret p printf_ocall_def)
  qed
qed

text \<open>C28: of the output of the three exception handlers exactly the report of an unexpected
  exception is ill-typed: it passes the \<open>int\<close> vector to \<open>%lld\<close>.  The P-Enclave's handler ends
  in every state, and what it prints on its other paths, the dump of the frame included, is
  well-typed.\<close>

theorem handler_output_typed:
  fixes info :: trapframe and i :: sgx_exception_info
  shows "(\<exists>r ev. exception_handler info s = Some r \<and> handler_log r = out s @ ev \<and>
      (output_ok ev \<longleftrightarrow> ucast (tf_vector info) \<in> {6, 0xE :: u32} \<or> 32 \<le> sint (ucast (tf_vector info) :: u32))) \<and>
    (\<exists>ev. sdk_out (snd (snd (gu_exception_handler i t))) = sdk_out t @ ev \<and>
      (output_ok ev \<longleftrightarrow> exception_vector i = 6)) \<and>
    (\<exists>ev. sdk_out (snd (snd (sgx_exception_handler i t))) = sdk_out t @ ev \<and>
      (output_ok ev \<longleftrightarrow> exception_vector i = 6))"
proof -
  let ?v = "ucast (tf_vector info) :: u32"
  have "\<exists>r ev. exception_handler info s = Some r \<and> handler_log r = out s @ ev \<and>
      (output_ok ev \<longleftrightarrow> ?v \<in> {6, 0xE} \<or> 32 \<le> sint ?v)"
  proof (cases "?v = 0xE")
    case True
    then show ?thesis using page_fault_output [OF True, of s] by auto
  next
    case False
    let ?s = "printf_ocall (''ERROR: unexcept exception: %lld %llx'' @ nl) [AInt (sint ?v), AWord (tf_err_code info)] s"
    obtain ev where "out (dump_trapframe info ?s) = out ?s @ ev" using dump_trapframe_output by blast
    then show ?thesis using False
      by (cases "?v = 6 \<or> 32 \<le> sint ?v") (auto simp: exception_handler_def Let_def printf_ocall_def)
  qed
  then show ?thesis
    by (cases "exception_vector i = 6")
      (simp_all add: gu_exception_handler_def sgx_exception_handler_def sdk_printf_def Let_def)
qed

section \<open>The App and the dump\<close>

lemma concat_print_ok: "output_ok (concat (map ocall_print_string lines))"
  by (induction lines) (simp_all add: ocall_print_string_def)

lemma benchmark_output_ok: "benchmark_exception_ecall E n = Some (r, ev) \<Longrightarrow> output_ok ev"
  by (auto simp: benchmark_exception_ecall_def benchmark_exception_ecall_in_def p_file_def Let_def concat_print_ok message_ok split: if_splits)

lemma dump_loop_ok: "output_ok (dump_loop s t v l limit i n)"
proof (induction s t v l limit i n rule: dump_loop.induct)
  case (1 s t v l limit i n)
  have "event_ok (dump_line l i w e)" for w e
    by (simp add: dump_line_def)
  then show ?case using 1 by (subst dump_loop.simps) (simp add: Let_def)
qed

text \<open>The output of the App of the exception benchmarks and of the page-table dump is
  well-typed on every path.\<close>

theorem app_output_typed:
  "(case app_main E argv of None \<Rightarrow> True | Some (r, ev) \<Rightarrow> output_ok ev) \<and>
   output_ok (dump_pgtable s c limit)"
  using dump_loop_ok
  by (auto simp: app_main_def app_main_in_def initialize_enclave_in_def p_file_def Let_def message_ok
      benchmark_exception_ecall_def [symmetric, unfolded p_file_def]
      dump_pgtable_def dump_inner_def
      split: option.split bind_splits prod.splits if_splits dest!: benchmark_output_ok)

end
