(* ===== verification/EdgeRun.thy ===== *)
theory EdgeRun
  imports EdgeCalls
begin

text \<open>
  A complete run of the edge-call benchmark's App: with an SDK whose calls succeed it goes
  through all its benchmarks, and the transitions it makes can be counted.

  The locale \<open>transition_counter\<close> states what a platform that counts transitions promises:
  each way in and each way out adds one to its counter, so do the ecalls the SDK makes itself
  to create the enclave, nothing else changes it, and the reported counts are the counters.  Its client is the whole run of the benchmark.
\<close>

section \<open>A benchmark in the enclave\<close>

text \<open>The proxy's buffer replaces the first \<open>count\<close> cells, as a batch on the App's array would.\<close>

lemma ecall_bench_batched:
  assumes "ecall_status P w = SGX_SUCCESS" "0 \<le> cnt" "nat cnt \<le> length xs"
  shows "ecall_bench f P cnt xs w =
    map_option (\<lambda>(ys, w). (SGX_SUCCESS, ys, eexit P w)) (batched_bench f cnt xs (eenter P w))"
  using assms by (simp add: ecall_bench_def batched_bench_eq del: funpow.simps)

lemma bench_in_enclave_outcome:
  assumes "moderate f (eenter P (hw s))" "1010000 \<le> length (encl_cycles s)" "fopen_ok P (out_name name)"
    and "unat off \<le> 2 ^ 30" "ecall_status P (hw s) = SGX_SUCCESS"
  defines "w \<equiv> eenter P (hw s)"
  shows "if too_fast f w off then bench_in_enclave P name off 10000 1000000 (ecall_bench f P) s = None
    else \<exists>s'. bench_in_enclave P name off 10000 1000000 (ecall_bench f P) s = Some (Inr (measured f w off, s')) \<and>
      length (encl_cycles s') = length (encl_cycles s) \<and> app_cycles s' = app_cycles s \<and>
      csv_names (elog s') = csv_names (elog s) @ [name] \<and> hw s' = eexit P (million_runs f w)"
proof -
  obtain ys ev where "batched_bench f 1010000 (encl_cycles s) w = Some (ys, million_runs f w)"
    "length ys = length (encl_cycles s)" "csv_names ev = [name]"
    "bench_stats (fopen_ok P) name off 10000 1000000 ys = (if too_fast f w off then None else Some (measured f w off, ev))"
    using batch_outcome [where ok = "fopen_ok P", OF assms(1-4)] unfolding w_def by blast
  then show ?thesis
    using assms(2,5) by (simp add: bench_in_enclave_def ecall_bench_batched emit_def w_def [symmetric])
qed

section \<open>The whole run\<close>

text \<open>The machine before each of the four benchmarks, and after them.\<close>

definition edge_stages :: "bool \<Rightarrow> 'w platform \<Rightarrow> 'w \<Rightarrow> 'w \<times> 'w \<times> 'w \<times> 'w" where
  "edge_stages R P w =
     (let a = eexit P (edge_ocall_empty P (eenter P w));
          b = million_runs (bench_rdtscp P) a;
          c = million_runs (bench_ecall_empty P) b;
          d = (if R then c else eexit P (million_runs (bench_enclave_rdtscp R P) (eenter P c)))
      in (a, b, c, d))"

definition edge_world :: "bool \<Rightarrow> 'w platform \<Rightarrow> 'w \<Rightarrow> 'w" where
  "edge_world R P w =
     (let (a, b, c, d) = edge_stages R P w in eexit P (million_runs (bench_ocall_empty R P) (eenter P d)))"

text \<open>
  None of the run's samples is above \<open>2 ^ 30\<close> cycles; and a benchmark's median is one and a half
  cycles or more below the overhead subtracted from it, which is what the readings of the clock
  take on that side.
\<close>

definition edge_moderate :: "bool \<Rightarrow> 'w platform \<Rightarrow> 'w \<Rightarrow> bool" where
  "edge_moderate R P w \<longleftrightarrow>
     (let (a, b, c, d) = edge_stages R P w
      in moderate (bench_rdtscp P) a \<and> moderate (bench_ecall_empty P) b \<and>
         (R \<or> moderate (bench_enclave_rdtscp R P) (eenter P c)) \<and> moderate (bench_ocall_empty R P) (eenter P d))"

definition edge_too_fast :: "bool \<Rightarrow> 'w platform \<Rightarrow> 'w \<Rightarrow> bool" where
  "edge_too_fast R P w \<longleftrightarrow>
     (let (a, b, c, d) = edge_stages R P w;
          off = measured (bench_rdtscp P) a 0;
          enclave_off = (if R then off else measured (bench_enclave_rdtscp R P) (eenter P c) 0)
      in too_fast (bench_ecall_empty P) b off \<or> too_fast (bench_ocall_empty R P) (eenter P d) enclave_off)"

definition edge_rows :: "bool \<Rightarrow> bool \<Rightarrow> string list" where
  "edge_rows R S = [''rdtscp'', ''ecall_empty''] @ (if R then [] else [''enclave_rdtscp'']) @
     [''ocall_empty''] @ (if S then [''eenter'', ''eexit''] else [])"

text \<open>
  What the run needs of the machine: every call of the SDK succeeds, files can be opened,
  the arrays hold a million samples, and no benchmark is faster than its overhead.
\<close>

definition edge_ok :: "bool \<Rightarrow> 'w platform \<Rightarrow> 'w edge_state \<Rightarrow> nat \<Rightarrow> nat \<Rightarrow> nat \<Rightarrow> bool" where
  "edge_ok R P s lo elo hi \<longleftrightarrow>
     latency_in (bench_rdtscp P) 0 lo \<and> latency_in (bench_ecall_empty P) lo hi \<and>
     latency_in (bench_enclave_rdtscp R P) 0 elo \<and> latency_in (bench_ocall_empty R P) elo hi \<and>
     lo \<le> elo \<and> hi \<le> 2 ^ 30 \<and>
     (\<forall>w. ecall_status P w = SGX_SUCCESS) \<and> (\<forall>f. fopen_ok P f) \<and> (\<forall>d. chdir_ok P d) \<and>
     1010000 \<le> length (app_cycles s) \<and> 1010000 \<le> length (encl_cycles s)"

lemma csv_names_report: "csv_names (transition_report lower upper r) = [lower]"
  by (simp add: transition_report_def csv_names_def case_prod_unfold Let_def)

text \<open>What the run needs besides: the calls of the SDK, the files and the arrays.\<close>

definition edge_services :: "'w platform \<Rightarrow> 'w edge_state \<Rightarrow> bool" where
  "edge_services P s \<longleftrightarrow>
     (\<forall>w. ecall_status P w = SGX_SUCCESS) \<and> (\<forall>f. fopen_ok P f) \<and> (\<forall>d. chdir_ok P d) \<and>
     1010000 \<le> length (app_cycles s) \<and> 1010000 \<le> length (encl_cycles s)"

lemma edge_ok_run:
  assumes "edge_ok R P s lo elo hi"
  shows "edge_services P s" "edge_moderate R P w" "\<not> edge_too_fast R P w"
proof -
  have A: "latency_in (bench_rdtscp P) 0 lo" "latency_in (bench_ecall_empty P) lo hi"
    "latency_in (bench_enclave_rdtscp R P) 0 elo" "latency_in (bench_ocall_empty R P) elo hi" "lo \<le> elo" "hi \<le> 2 ^ 30"
    using assms by (auto simp: edge_ok_def)
  have "elo \<le> hi" using A(4) by (auto simp: latency_in_def intro: order_trans)
  then have lo: "lo \<le> 2 ^ 30" "elo \<le> 2 ^ 30" using A(5,6) by linarith+
  note r = latency_in_run [OF A(1) lo(1)] and e = latency_in_run [OF A(2) A(6)]
    and er = latency_in_run [OF A(3) lo(2)] and oc = latency_in_run [OF A(4) A(6)]
  show "edge_services P s" using assms by (auto simp: edge_ok_def edge_services_def)
  show "edge_moderate R P w" by (simp add: edge_moderate_def r(1) e(1) er(1) oc(1) case_prod_unfold)
  have m: "unat (measured (bench_rdtscp P) v 0) \<le> lo" "unat (measured (bench_enclave_rdtscp R P) v 0) \<le> elo" for v
    using r(3) [of v 0] er(3) [of v 0] by simp_all
  have "unat (if R then measured (bench_rdtscp P) v 0 else measured (bench_enclave_rdtscp R P) u 0) \<le> elo" for u v
    using m(1) [of v] m(2) [of u] A(5) by (cases R) simp_all
  then show "\<not> edge_too_fast R P w"
    using e(2) [OF m(1)] oc(2) by (simp add: edge_too_fast_def Let_def case_prod_unfold)
qed

lemma edge_bench_main_outcome:
  assumes "edge_services P s" "edge_moderate R P (hw s)"
  shows "if edge_too_fast R P (hw s) then edge_bench_main R S P s = None
    else \<exists>s' pre. edge_bench_main R S P s = Some (Inr (0, s')) \<and>
      csv_names (elog s') = csv_names (elog s) @ edge_rows R S \<and>
      (let w = edge_world R P (hw s)
       in if S then hw s' = eexit P (eenter P w) \<and>
               elog s' = pre @ transition_report ''eenter'' ''EENTER'' (eenter_stats P (eenter P w)) @
                 transition_report ''eexit'' ''EEXIT'' (eexit_stats P (hw s'))
          else hw s' = w)"
proof -
  have A: "\<And>w. ecall_status P w = SGX_SUCCESS" "\<And>f. fopen_ok P f"
    "1010000 \<le> length (app_cycles s)" "1010000 \<le> length (encl_cycles s)"
    using assms(1) by (auto simp: edge_services_def)
  obtain a b c d where st: "edge_stages R P (hw s) = (a, b, c, d)" by (metis prod_cases4)
  then have w: "a = eexit P (edge_ocall_empty P (eenter P (hw s)))" "b = million_runs (bench_rdtscp P) a"
    "c = million_runs (bench_ecall_empty P) b"
    "d = (if R then c else eexit P (million_runs (bench_enclave_rdtscp R P) (eenter P c)))"
    by (auto simp: edge_stages_def Let_def)
  have M: "moderate (bench_rdtscp P) a" "moderate (bench_ecall_empty P) b"
    "R \<or> moderate (bench_enclave_rdtscp R P) (eenter P c)" "moderate (bench_ocall_empty R P) (eenter P d)"
    using assms(2) by (simp_all add: edge_moderate_def st)
  define off where "off = measured (bench_rdtscp P) a 0"
  define enclave_off where "enclave_off = (if R then off else measured (bench_enclave_rdtscp R P) (eenter P c) 0)"
  have tf: "edge_too_fast R P (hw s) \<longleftrightarrow>
      too_fast (bench_ecall_empty P) b off \<or> too_fast (bench_ocall_empty R P) (eenter P d) enclave_off"
    unfolding edge_too_fast_def st off_def enclave_off_def Let_def by simp
  have o: "unat off \<le> 2 ^ 30" unfolding off_def by (rule moderate_samples(4) [OF M(1)])
  have eo: "unat enclave_off \<le> 2 ^ 30"
    using M(3) o moderate_samples(4) [of "bench_enclave_rdtscp R P" "eenter P c" 0] by (auto simp: enclave_off_def)
  obtain s0 where h: "ecall_hello P (''Hello world!'' @ nl) s = Some (Inr s0)"
    and s0: "app_cycles s0 = app_cycles s" "encl_cycles s0 = encl_cycles s"
    "csv_names (elog s0) = csv_names (elog s)" "hw s0 = a"
    using A(1) by (simp add: ecall_hello_def emit_def edge_printf_string edge_ocall_print_string_def w(1))
  note h = h [simplified append.simps]
  obtain s1 where s1: "bench_in_app P ''rdtscp'' 0 10000 1000000 (bench_rdtscp P) s0 = Some (Inr (off, s1))"
    "length (app_cycles s1) = length (app_cycles s)" "encl_cycles s1 = encl_cycles s"
    "csv_names (elog s1) = csv_names (elog s) @ [''rdtscp'']" "hw s1 = b"
    using bench_in_app_outcome [of "bench_rdtscp P" s0 P "''rdtscp''" 0] A(2,3) s0 M(1) by (auto simp: off_def w(2))
  note o2 = bench_in_app_outcome [of "bench_ecall_empty P" s1 P "''ecall_empty''" off,
      unfolded s1(2,5), OF M(2) A(3) A(2) o]
  show ?thesis
  proof (cases "too_fast (bench_ecall_empty P) b off")
    case True
    then show ?thesis using o2 by (simp add: tf edge_bench_main_def h s1(1))
  next
    case False
    then obtain s2 where s2: "bench_in_app P ''ecall_empty'' off 10000 1000000 (bench_ecall_empty P) s1 =
        Some (Inr (measured (bench_ecall_empty P) b off, s2))" "encl_cycles s2 = encl_cycles s"
      "csv_names (elog s2) = csv_names (elog s) @ [''rdtscp'', ''ecall_empty'']" "hw s2 = c"
      using o2 s1 by (auto simp: w(3))
    obtain s3 where s3: "(if R then Some (Inr (off, s2)) else bench_in_enclave P ''enclave_rdtscp'' 0 10000 1000000
          (ecall_bench_enclave_rdtscp R P) s2) = Some (Inr (enclave_off, s3))"
      "length (encl_cycles s3) = length (encl_cycles s)" "hw s3 = d"
      "csv_names (elog s3) = csv_names (elog s) @ [''rdtscp'', ''ecall_empty''] @ (if R then [] else [''enclave_rdtscp''])"
    proof (cases R)
      case True
      show ?thesis by (rule that [of s2]) (use True s2 in \<open>auto simp: enclave_off_def w(4)\<close>)
    next
      case F: False
      then show ?thesis
        using bench_in_enclave_outcome [of "bench_enclave_rdtscp R P" P s2 "''enclave_rdtscp''" 0] A M(3) s2 that
        by (auto simp: ecall_bench_enclave_rdtscp_def enclave_off_def w(4))
    qed
    note o4 = bench_in_enclave_outcome [of "bench_ocall_empty R P" P s3 "''ocall_empty''" enclave_off,
        unfolded s3(2,3), OF M(4) A(4) A(2) eo A(1)]
    show ?thesis
    proof (cases "too_fast (bench_ocall_empty R P) (eenter P d) enclave_off")
      case True
      then show ?thesis
        using o4 by (simp add: tf edge_bench_main_def h s1(1) s2(1) s3(1) ecall_bench_ocall_empty_def)
    next
      case F: False
      then obtain l4 s4 where s4: "bench_in_enclave P ''ocall_empty'' enclave_off 10000 1000000
          (ecall_bench_ocall_empty R P) s3 = Some (Inr (l4, s4))"
        "csv_names (elog s4) = csv_names (elog s3) @ [''ocall_empty'']" "hw s4 = edge_world R P (hw s)"
        using o4 by (auto simp: ecall_bench_ocall_empty_def edge_world_def st)
      have e: "elog (emit ev t) = elog t @ ev" "hw (emit ev t) = hw t" for ev and t :: "'a edge_state"
        by (simp_all add: emit_def)
      show ?thesis
        using False F
        by (cases S) (simp_all add: tf edge_bench_main_def Let_def h s1(1) s2(1) s3(1) s4 e
          ecall_get_eenter_stats_def A(1) s3(4) edge_rows_def csv_names_report)
    qed
  qed
qed

lemma edge_main_outcome:
  assumes "edge_services P s" "fst (create_enclave P (hw s)) = SGX_SUCCESS"
    and "edge_moderate R P (snd (create_enclave P (hw s)))"
  shows "if edge_too_fast R P (snd (create_enclave P (hw s))) then edge_main R S P argv s = None
    else \<exists>s' pre. edge_main R S P argv s = Some (Inr (0, s')) \<and>
      csv_names (elog s') = csv_names (elog s) @ edge_rows R S \<and> last (elog s') = Fclose ''stats.csv'' \<and>
      (let w = edge_world R P (snd (create_enclave P (hw s))); w' = eenter P w
       in if S then hw s' = destroy_enclave P (eexit P w') \<and>
               elog s' = pre @ transition_report ''eenter'' ''EENTER'' (eenter_stats P w') @
                 transition_report ''eexit'' ''EEXIT'' (eexit_stats P (eexit P w')) @ [Fclose ''stats.csv'']
          else hw s' = destroy_enclave P w)"
proof -
  let ?tag = "if 1 < length argv then argv ! 1 else []"
  let ?si = "s\<lparr>hw := snd (create_enclave P (hw s))\<rparr>"
  obtain s0 where s0: "run_bench P ?tag (edge_bench_main R S P) ?si =
      and_then (edge_bench_main R S P s0) (\<lambda>(ret, s). Some (Inr (ret, emit [Fclose ''stats.csv''] s)))"
    "hw s0 = snd (create_enclave P (hw s))" "app_cycles s0 = app_cycles s" "encl_cycles s0 = encl_cycles s"
    "csv_names (elog s0) = csv_names (elog s)"
    using run_bench_open [of P ?tag "edge_bench_main R S P" ?si] assms(1)
    by (auto simp: edge_services_def)
  have "edge_services P s0" using assms(1) s0(3,4) by (simp add: edge_services_def)
  note o = edge_bench_main_outcome [OF this, of R S, unfolded s0(2), OF assms(3)]
  show ?thesis
  proof (cases "edge_too_fast R P (snd (create_enclave P (hw s)))")
    case True
    then show ?thesis
      using o s0(1) assms(2) by (simp add: edge_main_def edge_initialize_enclave_def case_prod_unfold Let_def)
  next
    case False
    then obtain s1 pre where s1: "edge_bench_main R S P s0 = Some (Inr (0, s1))"
      "csv_names (elog s1) = csv_names (elog s0) @ edge_rows R S"
      "let w = edge_world R P (snd (create_enclave P (hw s)))
       in if S then hw s1 = eexit P (eenter P w) \<and>
               elog s1 = pre @ transition_report ''eenter'' ''EENTER'' (eenter_stats P (eenter P w)) @
                 transition_report ''eexit'' ''EEXIT'' (eexit_stats P (hw s1))
          else hw s1 = w" using o by auto
    let ?s2 = "(emit [Fclose ''stats.csv''] s1)\<lparr>hw := destroy_enclave P (hw s1)\<rparr>"
    have "edge_main R S P argv s = Some (Inr (0, ?s2))"
      using s0(1) s1(1) assms(2)
      by (simp add: edge_main_def edge_initialize_enclave_def case_prod_unfold Let_def emit_def)
    moreover have "csv_names (elog ?s2) = csv_names (elog s) @ edge_rows R S"
      by (simp add: emit_def s1(2) s0(5))
    ultimately show ?thesis
      using s1(3) False by (simp only: if_False, intro exI [of _ ?s2] exI [of _ pre]) (auto simp: Let_def emit_def)
  qed
qed

lemma edge_main_ok:
  assumes "edge_ok R P s lo elo hi" "fst (create_enclave P (hw s)) = SGX_SUCCESS"
  shows "\<exists>s' pre. edge_main R S P argv s = Some (Inr (0, s')) \<and>
    csv_names (elog s') = csv_names (elog s) @ edge_rows R S \<and> last (elog s') = Fclose ''stats.csv'' \<and>
    (let w = edge_world R P (snd (create_enclave P (hw s))); w' = eenter P w
     in if S then hw s' = destroy_enclave P (eexit P w') \<and>
             elog s' = pre @ transition_report ''eenter'' ''EENTER'' (eenter_stats P w') @
               transition_report ''eexit'' ''EEXIT'' (eexit_stats P (eexit P w')) @ [Fclose ''stats.csv'']
        else hw s' = destroy_enclave P w)"
  using edge_main_outcome [OF edge_ok_run(1) [OF assms(1)] assms(2) edge_ok_run(2) [OF assms(1)], of S argv]
  by (simp only: edge_ok_run(3) [OF assms(1)] if_False)

text \<open>C17: where the enclave can be created and every ecall succeeds, all files and the directory can
  be opened, the arrays hold the samples and none of this run's samples is above \<open>2 ^ 30\<close>
  cycles, the App of the edge-call benchmark has undefined behaviour exactly if the median of
  the ecalls or of the ocalls it measures is one and a half cycles or more below that of the
  readings of the clock on that side.  Otherwise it ends with status 0, \<open>stats.csv\<close> has one row
  per benchmark, in order, and is closed last, and the last thing done to the machine is to
  destroy the enclave.\<close>

theorem edge_main_completes:
  assumes "edge_services P s" "create_enclave P (hw s) = (SGX_SUCCESS, w)" "edge_moderate R P w"
  shows "if edge_too_fast R P w then edge_main R S P argv s = None
    else \<exists>s' w'. edge_main R S P argv s = Some (Inr (0, s')) \<and> hw s' = destroy_enclave P w' \<and>
      csv_names (elog s') = csv_names (elog s) @ [''rdtscp'', ''ecall_empty''] @
        (if R then [] else [''enclave_rdtscp'']) @ [''ocall_empty''] @ (if S then [''eenter'', ''eexit''] else []) \<and>
      last (elog s') = Fclose ''stats.csv''"
proof -
  have rows: "edge_rows R S = [''rdtscp'', ''ecall_empty''] @ (if R then [] else [''enclave_rdtscp'']) @
      [''ocall_empty''] @ (if S then [''eenter'', ''eexit''] else [])" by (simp add: edge_rows_def)
  have c: "fst (create_enclave P (hw s)) = SGX_SUCCESS" "snd (create_enclave P (hw s)) = w"
    by (simp_all add: assms(2))
  note o = edge_main_outcome [OF assms(1) c(1), of R S argv, unfolded c(2) rows Let_def, OF assms(3)]
  show ?thesis
  proof (cases "edge_too_fast R P w")
    case True
    then show ?thesis using o by (simp only: if_True)
  next
    case False
    then show ?thesis using o by (cases S) (simp only: if_False if_True, blast)+
  qed
qed

lemma demo_edge_ok: "edge_ok R (demo_platform SGX_SUCCESS) demo_edge_state 25 225 1000"
  by (cases R; simp add: edge_ok_def latency_in_def bench_rdtscp_def bench_ecall_empty_def bench_enclave_rdtscp_def
    bench_ocall_empty_def enclave_rdtscp_def edge_ocall_rdtscp_def edge_ocall_empty_def ecall_empty_def demo_rdtscp)
    (simp_all add: demo_platform_def demo_edge_state_def)

theorem edge_main_completes_witness:
  "\<exists>s'. edge_main False False (demo_platform SGX_SUCCESS) [''app'', ''hu''] demo_edge_state = Some (Inr (0, s')) \<and>
     csv_names (elog s') = [''rdtscp'', ''ecall_empty'', ''enclave_rdtscp'', ''ocall_empty'']"
proof -
  have c: "create_enclave (demo_platform SGX_SUCCESS) (hw demo_edge_state) = (SGX_SUCCESS, 100)"
    "csv_names (elog demo_edge_state) = []"
    by (simp_all add: demo_platform_def demo_edge_state_def)
  note k = edge_ok_run [OF demo_edge_ok [of False]]
  show ?thesis
    using edge_main_completes [OF k(1) c(1) k(2), of False "[''app'', ''hu'']"] k(3) [of 100] c(2) by auto
qed

section \<open>Counting transitions\<close>

text \<open>What a step of the machine adds to the counters of the ways in and out.\<close>

definition adds :: "('w \<Rightarrow> u64) \<Rightarrow> ('w \<Rightarrow> u64) \<Rightarrow> ('w \<Rightarrow> 'w) \<Rightarrow> nat \<Rightarrow> nat \<Rightarrow> bool" where
  "adds entered left f i k \<longleftrightarrow>
     (\<forall>w. entered (f w) = entered w + of_nat i \<and> left (f w) = left w + of_nat k)"

lemma adds_comp: "adds e l f i k \<Longrightarrow> adds e l g i' k' \<Longrightarrow> adds e l (\<lambda>w. g (f w)) (i + i') (k + k')"
  by (simp add: adds_def ac_simps)

lemma adds_id: "adds e l (\<lambda>w. w) 0 0"
  by (simp add: adds_def)

lemma adds_funpow: "adds e l f i k \<Longrightarrow> adds e l (f ^^ n) (n * i) (n * k)"
proof (induction n)
  case (Suc n)
  then show ?case using adds_comp [OF Suc.IH, of f i k] by (simp add: o_def add.commute)
qed (simp add: adds_def)

lemma adds_runs: "adds e l (\<lambda>w. snd (f w)) i k \<Longrightarrow> adds e l (million_runs f) (1010001 * i) (1010001 * k)"
  unfolding million_runs_def by (rule adds_funpow) (simp add: o_def)

lemma addsD: "adds e l f i k \<Longrightarrow> e (f w) = e w + of_nat i" "adds e l f i k \<Longrightarrow> l (f w) = l w + of_nat k"
  by (simp_all add: adds_def)

locale transition_counter =
  fixes P :: "'w platform" and entered :: "'w \<Rightarrow> u64" and left :: "'w \<Rightarrow> u64" and init :: nat
  assumes eenter_counts: "adds entered left (eenter P) 1 0"
    and eexit_counts: "adds entered left (eexit P) 0 1"
    and clock_keeps: "adds entered left (\<lambda>w. snd (snd (tsc_op P w))) 0 0"
    and create_counts: "adds entered left (\<lambda>w. snd (create_enclave P w)) init init"
    and reports_counts: "fst (eenter_stats P w) = sint (entered w)" "fst (eexit_stats P w) = sint (left w)"
begin

lemma ocall_counts: "adds entered left (edge_ocall_empty P) 1 1"
  using adds_comp [OF eexit_counts eenter_counts] by (simp add: edge_ocall_empty_def [abs_def])

lemma rdtscp_counts: "adds entered left (\<lambda>w. snd (edge_rdtscp P w)) 0 0"
  using clock_keeps by (simp add: adds_def edge_rdtscp_def case_prod_unfold Let_def)

lemma enclave_rdtscp_counts:
  "adds entered left (\<lambda>w. snd (enclave_rdtscp R P w)) (if R then 0 else 1) (if R then 0 else 1)"
  using adds_comp [OF adds_comp [OF eexit_counts rdtscp_counts] eenter_counts] rdtscp_counts
  by (simp add: enclave_rdtscp_def edge_ocall_rdtscp_def case_prod_unfold Let_def)

lemma bench_counts:
  "adds entered left (\<lambda>w. snd (bench_rdtscp P w)) 0 0"
  "(\<And>w. ecall_status P w = SGX_SUCCESS) \<Longrightarrow> adds entered left (\<lambda>w. snd (bench_ecall_empty P w)) 1 1"
  "adds entered left (\<lambda>w. snd (bench_enclave_rdtscp R P w)) (if R then 0 else 2) (if R then 0 else 2)"
  "adds entered left (\<lambda>w. snd (bench_ocall_empty R P w)) (if R then 1 else 3) (if R then 1 else 3)"
proof -
  show "adds entered left (\<lambda>w. snd (bench_rdtscp P w)) 0 0"
    using adds_comp [OF rdtscp_counts rdtscp_counts] by (simp add: bench_rdtscp_def case_prod_unfold Let_def)
  show "adds entered left (\<lambda>w. snd (bench_ecall_empty P w)) 1 1"
    if "\<And>w. ecall_status P w = SGX_SUCCESS"
    using adds_comp [OF adds_comp [OF rdtscp_counts adds_comp [OF eenter_counts eexit_counts]] rdtscp_counts] that
    by (simp add: bench_ecall_empty_def ecall_empty_def case_prod_unfold Let_def)
  show "adds entered left (\<lambda>w. snd (bench_enclave_rdtscp R P w)) (if R then 0 else 2) (if R then 0 else 2)"
    using adds_comp [OF enclave_rdtscp_counts [of R] enclave_rdtscp_counts [of R]]
    by (cases R) (simp_all add: bench_enclave_rdtscp_def case_prod_unfold Let_def numeral_2_eq_2)
  show "adds entered left (\<lambda>w. snd (bench_ocall_empty R P w)) (if R then 1 else 3) (if R then 1 else 3)"
    using adds_comp [OF adds_comp [OF enclave_rdtscp_counts [of R] ocall_counts] enclave_rdtscp_counts [of R]]
    by (cases R) (simp_all add: bench_ocall_empty_def case_prod_unfold Let_def numeral_3_eq_3)
qed

text \<open>The ways in (and as many out) of the whole run.\<close>

lemma edge_world_counts:
  assumes "\<And>w. ecall_status P w = SGX_SUCCESS"
  shows "adds entered left (edge_world R P) (if R then 2020005 else 6060010) (if R then 2020005 else 6060010)"
proof -
  note runs = adds_runs [OF bench_counts(1)] adds_runs [OF bench_counts(2) [OF assms]]
    adds_runs [OF bench_counts(3)] adds_runs [OF bench_counts(4)]
  note steps = eenter_counts eexit_counts ocall_counts runs
  show ?thesis
    by (cases R) (simp_all add: adds_def [of _ _ "edge_world _ _"] edge_world_def edge_stages_def Let_def steps [THEN addsD(1)]
      steps [THEN addsD(2)])
qed

end

end
