(* ===== verification/Reports.thy ===== *)
theory Reports
  imports Systems EdgeRun
begin

text \<open>
  What the programs leave for the reader, as text: the elapsed time, the directory of the
  results, the rows of \<open>stats.csv\<close> and the reports of the timed loops.
\<close>

section \<open>The elapsed time\<close>

lemma dec_inj: "dec a = dec b \<Longrightarrow> a = b"
  using digits_dec [of "[]" a] digits_dec [of "[]" b] by simp

lemma digits_zeros: "digits (replicate k (CHR ''0'') @ s) 0 = digits s 0"
  by (induction k) (simp_all add: digit_val_def)

lemma digits_of_dec: "digits (dec n) 0 = int n"
  using digits_dec [of "[]" n] by simp

lemma dec_no_minus: "dec n \<noteq> [] \<and> CHR ''-'' \<notin> set (dec n)"
proof
  show "dec n \<noteq> []" by (subst dec.simps) simp
  show "CHR ''-'' \<notin> set (dec n)"
  proof
    assume "CHR ''-'' \<in> set (dec n)"
    then obtain d where "d < 10" "CHR ''-'' = char_of (48 + d :: nat)" using dec_digits by blast
    then have "of_char (CHR ''-'') = (48 + d) mod (256 :: nat)" by simp
    then show False using \<open>d < 10\<close> by simp
  qed
qed

text \<open>A zero-padded number is its digits with zeros before them.\<close>

lemma pad_dec: "pad False True w (dec n) = replicate (w - length (dec n)) CHR ''0'' @ dec n"
proof -
  have "hd (dec n) \<noteq> CHR ''-''" using dec_no_minus [of n] by (metis hd_in_set)
  then show ?thesis by (simp add: pad_def Let_def)
qed

lemma elapsed_decimal:
  assumes "timeval_ok a" "timeval_ok b" "b \<le> a" "tv_sec a - tv_sec b < 2 ^ 63"
  shows "\<exists>sec frac. elapsed_text (timersub a b) = ''Time elapsed: '' @ sec @ ''.'' @ frac @ '' seconds'' @ nl \<and>
    list_all (\<lambda>c. digit_val c \<noteq> None) (sec @ frac) \<and>
    length frac = 6 \<and> 1000000 * digits sec 0 + digits frac 0 = usecs a - usecs b"
proof -
  let ?t = "timersub a b"
  have t: "0 \<le> tv_sec ?t" "tv_sec ?t < 2 ^ 63" "0 \<le> tv_usec ?t" "tv_usec ?t < 1000000"
    "1000000 * tv_sec ?t + tv_usec ?t = usecs a - usecs b"
    using timersub_exact [OF assms(1-3)] assms(4) by (auto simp: timeval_ok_def usecs_def timersub_def Let_def)
  then have s: "sint (word_of_int (tv_sec ?t) :: u64) = tv_sec ?t" "sint (word_of_int (tv_usec ?t) :: u64) = tv_usec ?t"
    by (simp_all add: signed_of_int signed_take_bit_int_eq_self)
  let ?sec = "dec (nat (tv_sec ?t))" and ?u = "dec (nat (tv_usec ?t))"
  let ?frac = "pad False True 6 ?u"
  have "length ?u \<le> 6" by (rule length_dec) (use t(4) in auto)
  then have "length ?frac = 6" by (simp add: length_pad)
  moreover have "digits ?frac 0 = tv_usec ?t" "digits ?sec 0 = tv_sec ?t"
    using t by (simp_all add: pad_dec digits_zeros digits_of_dec)
  moreover have "\<forall>c\<in>set (dec n). digit_val c \<noteq> None" for n
    using dec_digits digit_val_char_of by fastforce
  then have "list_all (\<lambda>c. digit_val c \<noteq> None) (?sec @ ?frac)"
    by (auto simp: list_all_iff pad_dec digit_val_def)
  moreover have "elapsed_text ?t = ''Time elapsed: '' @ ?sec @ ''.'' @ ?frac @ '' seconds'' @ nl"
    using t by (simp add: elapsed_text_def s show_int_def)
  ultimately show ?thesis using t(5) by (intro exI [of _ ?sec] exI [of _ ?frac]) simp
qed

text \<open>C37: what each of the three Apps prints last in a benchmark that succeeds is the line with
  the elapsed time: a decimal number of seconds with exactly six decimals, whose value is the
  difference of the two readings of the clock in microseconds.\<close>

theorem elapsed_time_text:
  assumes "f \<in> {benchmark_exception_ecall, gu_benchmark_exception_ecall, sgx_benchmark_exception_ecall}"
    and "f A n = Some (0, ev)"
    and "timeval_ok (time_before A)" "timeval_ok (time_after A)" "time_before A \<le> time_after A"
    and "tv_sec (time_after A) - tv_sec (time_before A) < 2 ^ 63"
  shows "\<exists>sec frac. ev \<noteq> [] \<and>
    shown C (last ev) = Some (''Time elapsed: '' @ sec @ ''.'' @ frac @ '' seconds'' @ nl) \<and>
    list_all (\<lambda>c. digit_val c \<noteq> None) (sec @ frac) \<and> length frac = 6 \<and>
    1000000 * digits sec 0 + digits frac 0 = usecs (time_after A) - usecs (time_before A)"
proof -
  let ?t = "timersub (time_after A) (time_before A)"
  have "f = benchmark_exception_ecall_in p_file"
    using assms(1) by (auto simp: benchmark_exception_ecall_def gu_benchmark_exception_ecall_def
      sgx_benchmark_exception_ecall_def files_agree)
  then have "ev \<noteq> [] \<and> last ev = Print (''Time elapsed: %ld.%06ld seconds'' @ nl) [ALong (tv_sec ?t), ALong (tv_usec ?t)]"
    using assms(2) by (auto simp: benchmark_exception_ecall_in_def Let_def split: if_splits prod.splits)
  then have "ev \<noteq> []" "shown C (last ev) = Some (elapsed_text ?t)"
    by (blast, simp only: shown.simps elapsed_line)
  then show ?thesis using elapsed_decimal [OF assms(4,3,5,6)] by auto
qed

theorem elapsed_time_text_witness:
  "\<exists>ev sec frac. benchmark_exception_ecall
     (demo_app_env\<lparr>ecall_exception_result := \<lambda>_. Some (SGX_SUCCESS, SGX_SUCCESS, [])\<rparr>) 5 = Some (0, ev) \<and>
     shown demo_libc (last ev) = Some (''Time elapsed: '' @ sec @ ''.'' @ frac @ '' seconds'' @ nl) \<and>
     length frac = 6 \<and> 1000000 * digits sec 0 + digits frac 0 = 1000015"
proof -
  let ?A = "demo_app_env\<lparr>ecall_exception_result := \<lambda>_. Some (SGX_SUCCESS, SGX_SUCCESS, [])\<rparr>"
  have "\<exists>ev. benchmark_exception_ecall ?A 5 = Some (0, ev)"
    by (simp add: benchmark_exception_ecall_def benchmark_exception_ecall_in_def demo_app_env_def Let_def)
  then obtain ev where ev: "benchmark_exception_ecall ?A 5 = Some (0, ev)" ..
  from elapsed_time_text [where f = benchmark_exception_ecall, OF _ this, of demo_libc]
  show ?thesis using ev by (auto simp: demo_app_env_def timeval_ok_def less_eq_timeval_def usecs_def)
qed

section \<open>The directory of the results\<close>

lemma result_path_text:
  assumes "int now < 2 ^ 63"
  shows "map_option (take 249) (text_of C ''result-%s-%ld'' [AStr tag, ALong (int now)]) = Some (result_path tag now)"
proof -
  have s: "int_arg C (ALong (int now)) = int now"
    unfolding int_arg.simps signed_of_int of_int_eq_id id_apply
    by (rule signed_take_bit_int_eq_self) (use assms in simp_all)
  have "text_of C ''%ld'' [ALong (int now)] = Some (dec now)"
    using text_convs(2) [of C "[]" "int now" "[]"] s by (simp add: show_int_def del: int_arg.simps)
  then have "text_of C ''-%ld'' [ALong (int now)] = Some (''-'' @ dec now)"
    using text_append [of "''-''" C "''%ld''"] by simp
  then have "text_of C ''%s-%ld'' [AStr tag, ALong (int now)] = Some (tag @ ''-'' @ dec now)"
    using text_convs(8) [of C "''-%ld''" tag] by simp
  then show ?thesis
    using text_append [of "''result-''" C "''%s-%ld''"] by (simp add: result_path_def)
qed

text \<open>C39: the directory of the results is the text \<open>snprintf\<close> writes.  Up to a tag of 222 characters
  runs at different times get different directories; from 242 on the time stamp is cut off, and
  every later run with the tag overwrites the results of the first.\<close>

theorem result_directory:
  "(int now < 2 ^ 63 \<longrightarrow> map_option (take 249) (text_of C ''result-%s-%ld'' [AStr tag, ALong (int now)]) =
      Some (result_path tag now)) \<and>
   (length tag \<le> 222 \<longrightarrow> int now < 2 ^ 63 \<longrightarrow> int now' < 2 ^ 63 \<longrightarrow>
      result_path tag now = result_path tag now' \<longrightarrow> now = now') \<and>
   (242 \<le> length tag \<longrightarrow> result_path tag now = result_path tag now')"
proof (intro conjI impI)
  assume a: "length tag \<le> 222" "int now < 2 ^ 63" "int now' < 2 ^ 63" "result_path tag now = result_path tag now'"
  have "length (dec now) \<le> 19" "length (dec now') \<le> 19"
    by (rule length_dec; use a(2,3) in simp)+
  then have "dec now = dec now'" using a(1,4) by (simp add: result_path_def)
  then show "now = now'" by (rule dec_inj)
next
  assume "242 \<le> length tag"
  then show "result_path tag now = result_path tag now'" by (simp add: result_path_def)
qed (rule result_path_text)

theorem result_directory_witness:
  "result_path (replicate 242 CHR ''x'') 1650000000 = result_path (replicate 242 CHR ''x'') 1660000000 \<and>
   result_path ''hyper'' 1650000000 \<noteq> result_path ''hyper'' 1660000000"
  using result_directory [of 1650000000 undefined "replicate 242 CHR ''x''" 1660000000]
    result_directory [of 1650000000 undefined "''hyper''" 1660000000] by auto

section \<open>The rows of stats.csv\<close>

lemma text_lf: "text_of C (''%lf'' @ fmt) (ADbl d # as) = map_option ((@) (show_dbl C 6 d)) (text_of C fmt as)"
  by (simp only: append.simps spec_steps) (simp add: show_conv_simps)

text \<open>One more field before a text.\<close>

lemma text_field:
  "text_of C fmt as = Some t \<Longrightarrow> text_of C ('',%lf'' @ fmt) (ADbl d # as) = Some ('','' @ show_dbl C 6 d @ t)"
  using text_append [of "'',''" C "''%lf'' @ fmt" "ADbl d # as"] text_lf [of C fmt d as] by simp

definition fields :: "string \<Rightarrow> nat" where
  "fields t = Suc (length (filter (\<lambda>c. c = CHR '','') t))"

lemma filter_none: "CHR '','' \<notin> set t \<Longrightarrow> filter (\<lambda>c. c = CHR '','') t = []"
  by (auto simp: filter_empty_conv)

lemma dec_no_comma: "CHR '','' \<notin> set (dec n)"
proof
  assume "CHR '','' \<in> set (dec n)"
  then obtain d where "d < 10" "CHR '','' = char_of (48 + d :: nat)" using dec_digits by blast
  then have "of_char (CHR '','') = (48 + d) mod (256 :: nat)" by simp
  then show False using \<open>d < 10\<close> by simp
qed

lemma dbl_no_comma: "CHR '','' \<notin> set (nan_text C) \<Longrightarrow> CHR '','' \<notin> set (show_dbl C p d)"
  using dec_no_comma by (cases d) (auto simp: show_dbl_def Let_def pad_dec)

text \<open>The text a list of events appends to \<open>stats.csv\<close>.\<close>

definition csv_text :: "libc \<Rightarrow> event list \<Rightarrow> string option list" where
  "csv_text C ev = concat (map (\<lambda>e. case e of
     Fprint f fmt args \<Rightarrow> if f = ''stats.csv'' then [text_of C fmt args] else [] | _ \<Rightarrow> []) ev)"

lemma csv_text_samples:
  assumes "out_name name \<noteq> ''stats.csv''"
  shows "csv_text C (map (\<lambda>x. Fprint (out_name name) fmt (g x)) xs) = []"
  using assms by (induction xs) (simp_all add: csv_text_def)

lemma csv_text_append: "csv_text C (a @ b) = csv_text C a @ csv_text C b"
  by (simp add: csv_text_def)

text \<open>C40: every benchmark adds one line to \<open>stats.csv\<close>: its name and five numbers, as many fields
  as the header has.  The line the report of the transitions adds has three, so that its
  average stands in the column of the average and its columns from \<open>Min\<close> on are missing.\<close>

theorem stats_rows:
  assumes "CHR '','' \<notin> set name" "CHR '','' \<notin> set (nan_text C)" "out_name name \<noteq> ''stats.csv''"
    and "CHR '','' \<notin> set lower"
  shows "\<exists>row h t. csv_text C (stats_events name r samples) = [Some (name @ row)] \<and>
    text_of C (''Name,Median,Average,Min,Max,Deviation'' @ nl) [] = Some h \<and>
    csv_text C (transition_report lower upper st) = [Some (lower @ '',0,'' @ t)] \<and>
    fields (name @ row) = 6 \<and> fields h = 6 \<and> fields (lower @ '',0,'' @ t) = 3 \<and>
    last row = CHR 0x0A \<and> last h = CHR 0x0A \<and> last t = CHR 0x0A"
proof -
  let ?d = "\<lambda>x. show_dbl C 6 (Fin x)"
  let ?row = "'','' @ ?d (st_median r) @ '','' @ ?d (st_ave r) @ '','' @ ?d (st_min r) @ '','' @ ?d (st_max r) @
      '','' @ show_dbl C 6 (st_std r) @ nl"
  have "text_of C ('',%lf'' @ '',%lf'' @ '',%lf'' @ '',%lf'' @ '',%lf'' @ nl)
      [ADbl (Fin (st_median r)), ADbl (Fin (st_ave r)), ADbl (Fin (st_min r)), ADbl (Fin (st_max r)), ADbl (st_std r)] =
      Some ?row"
    using text_field [OF text_field [OF text_field [OF text_field [OF text_field [OF text_nl]]]], of C] by simp
  then have "text_of C (''%s'' @ '',%lf'' @ '',%lf'' @ '',%lf'' @ '',%lf'' @ '',%lf'' @ nl)
      [AStr name, ADbl (Fin (st_median r)), ADbl (Fin (st_ave r)), ADbl (Fin (st_min r)), ADbl (Fin (st_max r)),
       ADbl (st_std r)] = Some (name @ ?row)"
    by (simp only: text_convs(8)) simp
  then have row: "csv_text C (stats_events name r samples) = [Some (name @ ?row)]"
    using assms(3) unfolding stats_events_def csv_text_append csv_text_samples [OF assms(3)]
    by (simp add: csv_text_def)
  have h: "text_of C (''Name,Median,Average,Min,Max,Deviation'' @ nl) [] = Some (''Name,Median,Average,Min,Max,Deviation'' @ nl)"
    by (rule text_plain) (simp add: plain_def nl_def)
  obtain cnt cycles where st: "st = (cnt, cycles)" by fastforce
  let ?ave = "dbl_div (rnd (of_int cycles)) (rnd (of_int cnt))"
  have "show_int (int_arg C (AInt 0)) = ''0''"
    by (simp add: show_int_def dec.simps char_of_def bit_simps)
  then have "text_of C (''%d'' @ '',%lf'' @ nl) [AInt 0, ADbl ?ave] = Some (''0'' @ '','' @ show_dbl C 6 ?ave @ nl)"
    using text_field [OF text_nl, of C ?ave] by (simp only: text_convs(1) option.map)
  then have "text_of C ('','' @ ''%d'' @ '',%lf'' @ nl) [AInt 0, ADbl ?ave] = Some ('','' @ ''0'' @ '','' @ show_dbl C 6 ?ave @ nl)"
    using text_append [of "'',''" C "''%d'' @ '',%lf'' @ nl"] by simp
  then have "text_of C (''%s'' @ '','' @ ''%d'' @ '',%lf'' @ nl) [AStr lower, AInt 0, ADbl ?ave] =
      Some (lower @ '',0,'' @ show_dbl C 6 ?ave @ nl)"
    by (simp only: text_convs(8)) simp
  then have t: "csv_text C (transition_report lower upper st) = [Some (lower @ '',0,'' @ show_dbl C 6 ?ave @ nl)]"
    by (simp add: transition_report_def csv_text_def st Let_def)
  note none = filter_none [OF assms(1)] filter_none [OF assms(4)] filter_none [OF dbl_no_comma [OF assms(2)]]
  have "fields (name @ ?row) = 6" "fields (''Name,Median,Average,Min,Max,Deviation'' @ nl) = 6"
    "fields (lower @ '',0,'' @ show_dbl C 6 ?ave @ nl) = 3"
    by (simp_all add: fields_def none nl_def)
  moreover have "last ?row = CHR 0x0A" "last (''Name,Median,Average,Min,Max,Deviation'' @ nl) = CHR 0x0A"
    "last (show_dbl C 6 ?ave @ nl) = CHR 0x0A" by (simp_all add: nl_def)
  ultimately show ?thesis using row h t by blast
qed

theorem stats_rows_witness:
  "\<exists>row t. csv_text demo_libc (stats_events ''rdtscp''
       \<lparr>st_median = 60, st_ave = 105 / 2, st_min = 40, st_max = 80, st_std = NaN\<rparr> [40, 60, 80]) = [Some (''rdtscp'' @ row)] \<and>
     fields (''rdtscp'' @ row) = 6 \<and>
     csv_text demo_libc (transition_report ''eenter'' ''EENTER'' (2020007, 3424838840)) = [Some (''eenter,0,'' @ t)] \<and>
     fields (''eenter,0,'' @ t) = 3"
  using stats_rows [of "''rdtscp''" demo_libc "''eenter''"
      "\<lparr>st_median = 60, st_ave = 105 / 2, st_min = 40, st_max = 80, st_std = NaN\<rparr>" "[40, 60, 80]" "''EENTER''"
      "(2020007, 3424838840)"]
  by (auto simp: demo_libc_def out_name_def)

section \<open>The report of a timed loop\<close>

lemma overhead_word:
  fixes t0 t1 h :: u64
  assumes "unat (t1 - t0) < 2 ^ 63" "unat h < 2 ^ 63"
  shows "sint (t1 - t0 - h) = int (unat (t1 - t0)) - int (unat h)"
    and "unat (t1 - t0 - h) = (if h \<le> t1 - t0 then unat (t1 - t0) - unat h else 2 ^ 64 + unat (t1 - t0) - unat h)"
proof -
  let ?d = "t1 - t0"
  have "?d - h = word_of_int (int (unat ?d) - int (unat h))" by simp
  then have s: "sint (?d - h) = signed_take_bit 63 (int (unat ?d) - int (unat h))" by (simp only: signed_of_int) simp
  have "int (unat ?d) < 2 ^ 63" "int (unat h) < 2 ^ 63"
    using assms by (simp_all only: of_nat_less_numeral_power_cancel_iff)
  then have "- (2 ^ 63) \<le> int (unat ?d) - int (unat h)" "int (unat ?d) - int (unat h) < 2 ^ 63"
    by linarith+
  then have "signed_take_bit 63 (int (unat ?d) - int (unat h)) = int (unat ?d) - int (unat h)"
    by (rule signed_take_bit_int_eq_self)
  then show "sint (?d - h) = int (unat ?d) - int (unat h)" using s by simp
  have "unat (d - h) = (if h \<le> d then unat d - unat h else 2 ^ 64 + unat d - unat h)" for d :: u64
    by (simp add: unat_sub_if' word_le_nat_alt) (simp add: add.commute)
  then show "unat (?d - h) = (if h \<le> ?d then unat ?d - unat h else 2 ^ 64 + unat ?d - unat h)" .
qed

text \<open>
  The two lines of a report: the loop lay between readings \<open>i\<close> and \<open>i + 1\<close> of the clock, \<open>d\<close>
  cycles apart (below \<open>2 ^ 63\<close>), \<open>h\<close> is the overhead to be subtracted and \<open>n\<close> the count.
\<close>

definition reports :: "libc \<Rightarrow> (nat \<Rightarrow> u64) \<Rightarrow> nat \<Rightarrow> nat \<Rightarrow> nat \<Rightarrow> event list \<Rightarrow> bool" where
  "reports C clock i h n ev \<longleftrightarrow>
     (let d = unat (clock (Suc i) - clock i)
      in d < 2 ^ 63 \<longrightarrow> terminal C ev = Some (
        ''Total Time = '' @ show_int (int d - int h) @ '' (cycles)'' @ nl @
        ''Average time = '' @ show_dbl C 3 (dbl_div (rnd (real (if h \<le> d then d - h else 2 ^ 64 + d - h))) (real n)) @
        '' (cycles)'' @ nl @ nl))"

lemma report_lines_reports:
  assumes "h < 2 ^ 63"
  shows "reports C clock i h n (report_lines (timed clock i (of_nat h)) n)"
proof -
  have u: "unat (of_nat h :: u64) = h" using assms by (simp add: unat_of_nat)
  have le: "of_nat h \<le> clock (Suc i) - clock i \<longleftrightarrow> h \<le> unat (clock (Suc i) - clock i)"
    by (simp only: word_le_nat_alt u)
  show ?thesis
    unfolding reports_def Let_def report_lines_text report_text_def timed_def
  proof
    assume d: "unat (clock (Suc i) - clock i) < 2 ^ 63"
    have "unat (of_nat h :: u64) < 2 ^ 63" unfolding u by (rule assms)
    note overhead_word [OF d this, unfolded u le]
    then show "Some (''Total Time = '' @ show_int (sint (clock (Suc i) - clock i - of_nat h)) @ '' (cycles)'' @ nl @
        ''Average time = '' @ show_dbl C 3 (dbl_div (rnd (real (unat (clock (Suc i) - clock i - of_nat h)))) (real n)) @
        '' (cycles)'' @ nl @ nl) =
      Some (''Total Time = '' @ show_int (int (unat (clock (Suc i) - clock i)) - int h) @ '' (cycles)'' @ nl @
        ''Average time = '' @ show_dbl C 3 (dbl_div (rnd (real (if h \<le> unat (clock (Suc i) - clock i)
          then unat (clock (Suc i) - clock i) - h else 2 ^ 64 + unat (clock (Suc i) - clock i) - h))) (real n)) @
        '' (cycles)'' @ nl @ nl)" by (simp only:)
  qed
qed

text \<open>C38: the reports of the timed loops in runs of the three enclaves.  The P-Enclave and the
  GU-Enclave report the loop over the buffer and the loop of \<open>ud2\<close>s, in this order, between the
  first two and the next two readings of the clock, less 60 cycles; the SGX enclave reports its
  loop of \<open>ud2\<close>s less 12432.  The total is printed in decimal, also where it is negative.
  The average is taken of the unsigned difference: it is the total over the count if the loop
  took at least the overhead, and of a number near \<open>2 ^ 64\<close> if it did not.\<close>

theorem report_total_time:
  "(ecall_exception_sized E bufsz k s = Some (Inr (st, s')) \<longrightarrow>
      (\<exists>pre r1 r2 post. out s' = out s @ pre @ r1 @
         [Print (''test #UD OK'' @ nl) [], Print (''Count = %d'' @ nl) [AInt (sint k)]] @ r2 @ post \<and>
       reports C (p_clock E) (rdtscs s) 60 (bufsz div 4096) r1 \<and>
       reports C (p_clock E) (rdtscs s + 2) 60 (unat k) r2)) \<and>
   (gu_ecall_exception M F bufsz k g = Some (Inr (SGX_SUCCESS, g')) \<longrightarrow>
      (\<exists>pre r1 r2 post. sdk_out g' = sdk_out g @ pre @ r1 @
         [Print (''test #UD OK'' @ nl) [], Print (''Count = %d'' @ nl) [AInt (sint k)]] @ r2 @ post \<and>
       reports C (sdk_tsc F) (sdk_rdtscs g) 60 (bufsz div 4096) r1 \<and>
       reports C (sdk_tsc F) (sdk_rdtscs g + 2) 60 (unat k) r2)) \<and>
   (sgx_ecall_exception F k e = Some (Inr (SGX_SUCCESS, e')) \<longrightarrow>
      (\<exists>r. sdk_out e' = sdk_out e @
         [Print (''test #UD OK'' @ nl) [], Print (''Count = %d'' @ nl) [AInt (sint k)]] @ r \<and>
       reports C (sdk_tsc F) (sdk_rdtscs e) 12432 (unat k) r))"
proof (intro conjI impI)
  note r60 = report_lines_reports [of 60 C, simplified] and r12432 = report_lines_reports [of 12432 C, simplified]
  let ?w = "\<lambda>n. [Print (''write OK'' @ nl) [], Print (''Write Count = %d'' @ nl) [AInt (int n)]]"
  {
    assume "ecall_exception_sized E bufsz k s = Some (Inr (st, s'))"
    from ecall_transcript [OF this] obtain b where "out s' = out s @
        p_transcript (cr3 s) (deref s (phys_to_virt (cr3 s))) b (bufsz div 4096)
          (timed (p_clock E) (rdtscs s) 60) k (timed (p_clock E) (rdtscs s + 2) 60) s'" ..
    then show "\<exists>pre r1 r2 post. out s' = out s @ pre @ r1 @
         [Print (''test #UD OK'' @ nl) [], Print (''Count = %d'' @ nl) [AInt (sint k)]] @ r2 @ post \<and>
       reports C (p_clock E) (rdtscs s) 60 (bufsz div 4096) r1 \<and>
       reports C (p_clock E) (rdtscs s + 2) 60 (unat k) r2"
      unfolding p_transcript_def write_lines_def ud_lines_def using r60
      by (intro exI [of _ "setup_lines (cr3 s) (deref s (phys_to_virt (cr3 s))) @
            [Print (''read OK: %d'' @ nl) [AInt (uint b)]] @ ?w (bufsz div 4096)"]
          exI [of _ "report_lines (timed (p_clock E) (rdtscs s) 60) (bufsz div 4096)"]
          exI [of _ "report_lines (timed (p_clock E) (rdtscs s + 2) 60) (unat k)"]
          exI [of _ "count_lines (g_intr_count s') (g_ud_count s') (g_pf_count s')"]) simp
  next
    assume "gu_ecall_exception M F bufsz k g = Some (Inr (SGX_SUCCESS, g'))"
    from gu_ecall_transcript [OF this] obtain b where "sdk_out g' = sdk_out g @
        gu_transcript b (bufsz div 4096) (timed (sdk_tsc F) (sdk_rdtscs g) 60) k
          (timed (sdk_tsc F) (sdk_rdtscs g + 2) 60) (sdk_ud_count g')" ..
    then show "\<exists>pre r1 r2 post. sdk_out g' = sdk_out g @ pre @ r1 @
         [Print (''test #UD OK'' @ nl) [], Print (''Count = %d'' @ nl) [AInt (sint k)]] @ r2 @ post \<and>
       reports C (sdk_tsc F) (sdk_rdtscs g) 60 (bufsz div 4096) r1 \<and>
       reports C (sdk_tsc F) (sdk_rdtscs g + 2) 60 (unat k) r2"
      unfolding gu_transcript_def write_lines_def ud_lines_def using r60
      by (intro exI [of _ "[Print (''Starting...'' @ nl) [], Print (''Register exception handler OK!'' @ nl) [],
            Print (''read OK: %d'' @ nl) [AInt (uint b)]] @ ?w (bufsz div 4096)"]
          exI [of _ "report_lines (timed (sdk_tsc F) (sdk_rdtscs g) 60) (bufsz div 4096)"]
          exI [of _ "report_lines (timed (sdk_tsc F) (sdk_rdtscs g + 2) 60) (unat k)"]
          exI [of _ "[Print (''#UD Count = %d'' @ nl) [AInt (sint (sdk_ud_count g'))]]"]) simp
  next
    assume "sgx_ecall_exception F k e = Some (Inr (SGX_SUCCESS, e'))"
    from sgx_ecall_transcript [OF this]
    show "\<exists>r. sdk_out e' = sdk_out e @
         [Print (''test #UD OK'' @ nl) [], Print (''Count = %d'' @ nl) [AInt (sint k)]] @ r \<and>
       reports C (sdk_tsc F) (sdk_rdtscs e) 12432 (unat k) r"
      unfolding ud_lines_def using r12432 by auto
  }
qed

lemma underflow_average: "show_dbl C 3 (dbl_div (rnd 18446744073709549568) 1) = ''18446744073709549568.000''"
proof -
  have r: "representable 18446744073709549568"
    unfolding representable_def
    by (rule exI [of _ "2 ^ 53 - 1"], rule exI [of _ 11]) simp
  have "round_even (18446744073709549568 * 10 ^ 3) = 18446744073709549568 * 10 ^ 3"
    using round_even_of_int [of "18446744073709549568 * 10 ^ 3"] by simp
  then show ?thesis
    by (simp add: dbl_div_def to_dbl_def rnd_representable [OF r] show_dbl_def Let_def dec.simps char_of_def bit_simps pad_def)
      (simp add: numeral_eq_Suc)
qed

text \<open>One \<open>ud2\<close> that took 10384 cycles, in the SGX enclave.\<close>

definition short_run :: sdk_env where
  "short_run = demo_sdk_env\<lparr>sdk_tsc := \<lambda>i. 100000 + 10384 * of_nat i\<rparr>"

theorem report_total_time_witness:
  "\<exists>e' r. sgx_ecall_exception short_run 1 (demo_sdk_state ()) = Some (Inr (SGX_SUCCESS, e')) \<and>
     sdk_out e' = [Print (''test #UD OK'' @ nl) [], Print (''Count = %d'' @ nl) [AInt 1]] @ r \<and>
     terminal demo_libc r = Some (''Total Time = -2048 (cycles)'' @ nl @
       ''Average time = 18446744073709549568.000 (cycles)'' @ nl @ nl)"
proof -
  have run: "exception_vector (sdk_ud_info short_run) = 6" "reg_result short_run \<noteq> 0"
    by (simp_all add: short_run_def demo_sdk_env_def)
  obtain e' where e': "sgx_ecall_exception short_run 1 (demo_sdk_state ()) = Some (Inr (SGX_SUCCESS, e'))"
    using sgx_ecall_exception_result [OF run(1), of 1 "demo_sdk_state ()"] run(2) by auto
  obtain r where r: "sdk_out e' = sdk_out (demo_sdk_state ()) @
      [Print (''test #UD OK'' @ nl) [], Print (''Count = %d'' @ nl) [AInt (sint (1 :: u32))]] @ r"
    "reports demo_libc (sdk_tsc short_run) (sdk_rdtscs (demo_sdk_state ())) 12432 (unat (1 :: u32)) r"
    using report_total_time [where F = short_run and e = "demo_sdk_state ()" and k = 1 and e' = e' and C = demo_libc] e'
    by blast
  have "show_int (10384 - 12432) = ''-2048''" by (simp add: show_int_def dec.simps char_of_def bit_simps)
  then have "terminal demo_libc r = Some (''Total Time = -2048 (cycles)'' @ nl @
       ''Average time = 18446744073709549568.000 (cycles)'' @ nl @ nl)"
    using r(2) underflow_average [of demo_libc]
    by (simp add: reports_def short_run_def demo_sdk_state_def)
  then show ?thesis using e' r(1) by (auto simp: demo_sdk_state_def)
qed

end
