(* ===== verification/TransitionStats.thy ===== *)
theory TransitionStats
  imports TrapEntry
begin

text \<open>
  The counters that \<open>server/linux-sgx/eenter-eexit-stats.patch\<close> adds to the SDK: the code
  inserted before each \<open>ENCLU\<close> takes a time stamp, the code inserted after it adds one to the
  count of the transitions and the elapsed cycles to their sum.  The inserted instructions are
  a datatype with an executor; \<open>stamp_code\<close>, \<open>eexit_stats_code\<close> and \<open>eenter_stats_code\<close> are the
  patch's lists of them.

  The counters are shared by all threads of the process (of the enclave), so the code is
  also run by any number of threads in any interleaving, instruction by instruction.  A \<open>lock\<close>ed
  instruction is one step; the processor's clock advances at any time.  The SDK's code around
  the inserted one is a parameter.
\<close>

section \<open>The inserted instructions\<close>

datatype stat_symbol = G_eexit_count | G_eexit_cycles | G_eenter_count | G_eenter_cycles

datatype stat_instr =
    Mov reg reg \<comment> \<open>source, destination\<close>
  | Rdtscp
  | Shl nat reg
  | Add reg reg
  | Sub reg reg
  | Lea_symbol stat_symbol reg
  | Lock_add_imm u64 reg \<comment> \<open>the address in the register\<close>
  | Lock_add reg reg

type_synonym regs = "reg \<Rightarrow> u64"

text \<open>
  The addresses of the counters and of the two variables that \<open>sgx_get_eexit_stats\<close> is given;
  the identifier that \<open>rdtscp\<close> puts in RCX.
\<close>

record stat_env =
  sym :: "stat_symbol \<Rightarrow> u64"
  var_count :: u64
  var_cycles :: u64
  tsc_aux :: u32

text \<open>The registers after an instruction at time \<open>t\<close>: none of them reads memory.\<close>

fun reg_step :: "stat_env \<Rightarrow> u64 \<Rightarrow> stat_instr \<Rightarrow> regs \<Rightarrow> regs" where
  "reg_step V t (Mov a b) r = r(b := r a)"
| "reg_step V t Rdtscp r = r(RAX := t AND mask 32, RDX := drop_bit 32 t, RCX := ucast (tsc_aux V))"
| "reg_step V t (Shl k a) r = r(a := push_bit k (r a))"
| "reg_step V t (Add a b) r = r(b := r b + r a)"
| "reg_step V t (Sub a b) r = r(b := r b - r a)"
| "reg_step V t (Lea_symbol x a) r = r(a := sym V x)"
| "reg_step V t (Lock_add_imm v a) r = r"
| "reg_step V t (Lock_add a b) r = r"

fun mem_step :: "stat_instr \<Rightarrow> regs \<Rightarrow> memory \<Rightarrow> memory" where
  "mem_step (Lock_add_imm v a) r m = write64 m (r a) (read64 m (r a) + v)"
| "mem_step (Lock_add a b) r m = write64 m (r b) (read64 m (r b) + r a)"
| "mem_step _ r m = m"

definition stamp_code :: "stat_instr list" where
  "stamp_code = [Rdtscp, Mov RAX R8, Mov RDX R9]"

definition eexit_stats_code :: "stat_instr list" where
  "eexit_stats_code =
     [Mov RAX R10, Mov RCX R11, Rdtscp, Shl 32 R9, Add R8 R9, Shl 32 RDX, Add RAX RDX, Sub R9 RDX,
      Lea_symbol G_eexit_count RCX, Lock_add_imm 1 RCX,
      Lea_symbol G_eexit_cycles RCX, Lock_add RDX RCX,
      Mov R10 RAX, Mov R11 RCX]"

definition eenter_stats_code :: "stat_instr list" where
  "eenter_stats_code =
     [Mov RAX R10, Mov RCX R11, Rdtscp, Shl 32 R9, Add R8 R9, Shl 32 RDX, Add RAX RDX, Sub R9 RDX,
      Lea_symbol G_eenter_count RCX, Lock_add_imm 1 RCX,
      Lea_symbol G_eenter_cycles RCX, Lock_add RDX RCX,
      Mov R10 RAX, Mov R11 RCX]"

text \<open>One thread alone; each of the lists reads the clock once, at time \<open>t\<close>.\<close>

fun stat_run :: "stat_env \<Rightarrow> u64 \<Rightarrow> stat_instr list \<Rightarrow> regs \<times> memory \<Rightarrow> regs \<times> memory" where
  "stat_run V t [] (r, m) = (r, m)"
| "stat_run V t (i # is) (r, m) = stat_run V t is (reg_step V t i r, mem_step i r m)"

section \<open>sgx\_get\_eexit\_stats\<close>

text \<open>The two pointers are tested together, and nothing is written if one is null.\<close>

definition sgx_get_eexit_stats :: "stat_env \<Rightarrow> u64 \<Rightarrow> u64 \<Rightarrow> memory \<Rightarrow> sgx_status \<times> memory" where
  "sgx_get_eexit_stats V p_count p_cycles m =
     (let m = if p_count \<noteq> 0 \<and> p_cycles \<noteq> 0
              then let m = write64 m p_count (read64 m (sym V G_eexit_count))
                   in write64 m p_cycles (read64 m (sym V G_eexit_cycles))
              else m
      in (SGX_SUCCESS, m))"

section \<open>One transition\<close>

text \<open>The counters and the two variables have aligned cells of their own.\<close>

definition sym_ok :: "stat_env \<Rightarrow> bool" where
  "sym_ok V \<longleftrightarrow> inj (sym V) \<and> (\<forall>x. aligned8 (sym V x)) \<and>
     {var_count V, var_cycles V} \<inter> range (sym V) = {} \<and> var_count V \<noteq> var_cycles V \<and>
     (\<forall>a\<in>{var_count V, var_cycles V}. a \<noteq> 0 \<and> aligned8 a)"

lemma sym_disj: "sym_ok V \<Longrightarrow> x \<noteq> y \<Longrightarrow> disj8 (sym V x) (sym V y)"
  by (intro disj8_aligned) (auto simp: sym_ok_def inj_eq)

text \<open>The halves of the clock that \<open>rdtscp\<close> delivers, put together again.\<close>

lemma tsc_halves:
  "push_bit 32 (drop_bit 32 t) + (t AND mask 32) = (t :: u64)"
  "(t AND mask 32) + push_bit 32 (drop_bit 32 t) = (t :: u64)"
proof -
  have "push_bit 32 (drop_bit 32 t) AND (t AND mask 32) = 0"
    by (rule bit_word_eqI) (simp add: bit_simps)
  then have "push_bit 32 (drop_bit 32 t) + (t AND mask 32) = push_bit 32 (drop_bit 32 t) OR (t AND mask 32)"
    by (rule disjunctive_add_eq_or)
  also have "\<dots> = t" by (rule bit_word_eqI) (auto simp: bit_simps not_less)
  finally show "push_bit 32 (drop_bit 32 t) + (t AND mask 32) = t" .
  then show "(t AND mask 32) + push_bit 32 (drop_bit 32 t) = t" by (simp only: add.commute)
qed

definition stamp_of :: "regs \<Rightarrow> u64" where
  "stamp_of r = push_bit 32 (r R9) + r R8"

lemma stamp_code_run:
  "stat_run V t stamp_code (r, m) =
    (r(RAX := t AND mask 32, RDX := drop_bit 32 t, RCX := ucast (tsc_aux V),
       R8 := t AND mask 32, R9 := drop_bit 32 t), m)"
  "stamp_of (fst (stat_run V t stamp_code (r, m))) = t"
  by (simp_all add: stamp_code_def stamp_of_def tsc_halves fun_upd_twist)


text \<open>The code after a transition, for a pair of counters.\<close>

definition stats_code :: "stat_symbol \<Rightarrow> stat_symbol \<Rightarrow> stat_instr list" where
  "stats_code x y =
     [Mov RAX R10, Mov RCX R11, Rdtscp, Shl 32 R9, Add R8 R9, Shl 32 RDX, Add RAX RDX, Sub R9 RDX,
      Lea_symbol x RCX, Lock_add_imm 1 RCX, Lea_symbol y RCX, Lock_add RDX RCX, Mov R10 RAX, Mov R11 RCX]"

lemma stats_codes:
  "eexit_stats_code = stats_code G_eexit_count G_eexit_cycles"
  "eenter_stats_code = stats_code G_eenter_count G_eenter_cycles"
  by (simp_all add: eexit_stats_code_def eenter_stats_code_def stats_code_def)

lemma length_stats_code [simp]: "length (stats_code x y) = 14"
  by (simp add: stats_code_def)

definition regs_after :: "stat_env \<Rightarrow> stat_instr list \<Rightarrow> u64 \<Rightarrow> regs \<Rightarrow> nat \<Rightarrow> regs" where
  "regs_after V code t r k = fold (reg_step V t) (take k code) r"

text \<open>What the instruction at index \<open>k\<close> adds to the cell of a symbol.\<close>

definition delta :: "stat_symbol \<Rightarrow> stat_symbol \<Rightarrow> u64 \<Rightarrow> stat_symbol \<Rightarrow> nat \<Rightarrow> u64" where
  "delta x y d z k = (if k = 9 \<and> z = x then 1 else if k = 11 \<and> z = y then d else 0)"

lemma less_14_cases:
  "k < (14 :: nat) \<Longrightarrow> k = 0 \<or> k = 1 \<or> k = 2 \<or> k = 3 \<or> k = 4 \<or> k = 5 \<or> k = 6 \<or> k = 7 \<or>
     k = 8 \<or> k = 9 \<or> k = 10 \<or> k = 11 \<or> k = 12 \<or> k = 13"
  by arith

lemma regs_after_Suc:
  "k < length code \<Longrightarrow> regs_after V code t r (Suc k) = reg_step V t (code ! k) (regs_after V code t r k)"
  by (simp add: regs_after_def take_Suc_conv_app_nth)

lemma regs_after_0 [simp]: "regs_after V code t r 0 = r"
  by (simp add: regs_after_def)

text \<open>Before \<open>rdtscp\<close> the registers do not depend on its time, after it not on the current one.\<close>

lemma regs_before_stamp: "k \<le> 2 \<Longrightarrow> regs_after V (stats_code x y) t r k = regs_after V (stats_code x y) t' r k"
  by (auto simp: regs_after_def stats_code_def le_Suc_eq numeral_2_eq_2)

lemma reg_step_time: "i \<noteq> Rdtscp \<Longrightarrow> reg_step V t i r = reg_step V t' i r"
  by (cases i) simp_all

lemma stats_code_rdtscp: "k < 14 \<Longrightarrow> stats_code x y ! k = Rdtscp \<longleftrightarrow> k = 2"
  by (drule less_14_cases) (elim disjE; simp add: stats_code_def)

lemma regs_at_lock:
  "regs_after V (stats_code x y) t r 9 RCX = sym V x"
  "regs_after V (stats_code x y) t r 11 RCX = sym V y"
  "regs_after V (stats_code x y) t r 11 RDX = t - stamp_of r"
  by (simp_all add: regs_after_def stats_code_def stamp_of_def tsc_halves add.commute)

text \<open>After the code RAX and RCX hold what they held before it, RDX the elapsed cycles.\<close>

lemma regs_at_end:
  "regs_after V (stats_code x y) t r 14 =
    r(R10 := r RAX, R11 := r RCX, RDX := t - stamp_of r, R9 := stamp_of r)"
  by (rule ext) (simp add: regs_after_def stats_code_def stamp_of_def tsc_halves add.commute)

lemma stats_code_mem:
  assumes "sym_ok V" "x \<noteq> y" "k < 14"
  shows "read64 (mem_step (stats_code x y ! k) (regs_after V (stats_code x y) t r k) m) (sym V z) =
    read64 m (sym V z) + delta x y (t - stamp_of r) z k"
proof -
  have w: "read64 (write64 m (sym V w) v) (sym V z) = (if z = w then v else read64 m (sym V z))" for w v
    using byte_mem.rd_wr_same byte_mem.rd_wr_disj sym_disj [OF assms(1), of w z] by auto
  consider "k = 9" | "k = 11" | "k \<noteq> 9" "k \<noteq> 11" by blast
  then show ?thesis
  proof cases
    case 1
    then show ?thesis using assms(2) by (simp add: stats_code_def [of x y]
        regs_at_lock [unfolded stats_code_def] w delta_def)
  next
    case 2
    then show ?thesis using assms(2) by (simp add: stats_code_def [of x y]
        regs_at_lock [unfolded stats_code_def] w delta_def)
  next
    case 3
    then show ?thesis using less_14_cases [OF assms(3)]
      by (elim disjE) (simp_all add: stats_code_def [of x y] delta_def)
  qed
qed

section \<open>Interleaved threads\<close>

text \<open>
  The threads with the index of their next instruction and their registers, the memory they
  share and the clock.  \<open>kind i\<close> tells a thread that has left the enclave (and runs the code of
  \<open>enter_enclave.S\<close>) from one that has entered it (\<open>trts_pic.S\<close>).
\<close>

record stat_machine =
  thr :: "nat \<Rightarrow> nat \<times> regs"
  cells :: memory
  clk :: u64

definition code_of :: "bool \<Rightarrow> stat_instr list" where
  "code_of left_enclave = (if left_enclave then eexit_stats_code else eenter_stats_code)"

inductive sstep :: "stat_env \<Rightarrow> (nat \<Rightarrow> bool) \<Rightarrow> nat \<Rightarrow> stat_machine \<Rightarrow> stat_machine \<Rightarrow> bool" for V kind n where
  exec: "j < n \<Longrightarrow> thr c j = (k, r) \<Longrightarrow> k < length (code_of (kind j)) \<Longrightarrow>
    sstep V kind n c (c\<lparr>thr := (thr c)(j := (Suc k, reg_step V (clk c) (code_of (kind j) ! k) r)),
      cells := mem_step (code_of (kind j) ! k) r (cells c)\<rparr>)"
| tick: "clk c \<le> t \<Longrightarrow> sstep V kind n c (c\<lparr>clk := t\<rparr>)"

definition cell_x :: "bool \<Rightarrow> stat_symbol" where
  "cell_x left_enclave = (if left_enclave then G_eexit_count else G_eenter_count)"

definition cell_y :: "bool \<Rightarrow> stat_symbol" where
  "cell_y left_enclave = (if left_enclave then G_eexit_cycles else G_eenter_cycles)"

lemma code_of_stats: "code_of b = stats_code (cell_x b) (cell_y b)" "cell_x b \<noteq> cell_y b"
  by (simp_all add: code_of_def cell_x_def cell_y_def stats_codes)

text \<open>
  The invariant: each thread's registers are those of its code read at its own time, and a
  cell holds its old value and what the instructions executed so far add to it.
\<close>

definition added :: "bool \<Rightarrow> u64 \<Rightarrow> stat_symbol \<Rightarrow> nat \<Rightarrow> u64" where
  "added b d z k = (\<Sum>l<k. delta (cell_x b) (cell_y b) d z l)"

definition elapsed :: "stat_machine \<Rightarrow> (nat \<Rightarrow> u64) \<Rightarrow> nat \<Rightarrow> u64" where
  "elapsed c0 ts i = ts i - stamp_of (snd (thr c0 i))"

definition stats_inv ::
  "stat_env \<Rightarrow> (nat \<Rightarrow> bool) \<Rightarrow> nat \<Rightarrow> stat_machine \<Rightarrow> (nat \<Rightarrow> u64) \<Rightarrow> stat_machine \<Rightarrow> bool" where
  "stats_inv V kind n c0 ts c \<longleftrightarrow> clk c0 \<le> clk c \<and>
     (\<forall>i<n. fst (thr c i) \<le> 14 \<and>
        snd (thr c i) = regs_after V (code_of (kind i)) (ts i) (snd (thr c0 i)) (fst (thr c i)) \<and>
        (2 < fst (thr c i) \<longrightarrow> clk c0 \<le> ts i \<and> ts i \<le> clk c)) \<and>
     (\<forall>z. read64 (cells c) (sym V z) =
        read64 (cells c0) (sym V z) + (\<Sum>i<n. added (kind i) (elapsed c0 ts i) z (fst (thr c i))))"

lemma added_0 [simp]: "added b d z 0 = 0"
  by (simp add: added_def)

lemma added_Suc: "added b d z (Suc k) = added b d z k + delta (cell_x b) (cell_y b) d z k"
  by (simp add: added_def)

lemma added_early: "k \<le> 2 \<Longrightarrow> added b d z k = 0"
  by (simp add: added_def delta_def sum.neutral)

lemma added_end: "added b d z 14 = (if z = cell_x b then 1 else if z = cell_y b then d else 0)"
  using code_of_stats(2) [of b] by (auto simp: added_def delta_def sum.neutral eval_nat_numeral)

text \<open>The sum of the contributions when one of them grows.\<close>

lemma sum_step:
  fixes f :: "nat \<Rightarrow> u64"
  assumes "j < n" "g j = f j + d" "\<And>i. i \<noteq> j \<Longrightarrow> g i = f i"
  shows "(\<Sum>i<n. g i) = (\<Sum>i<n. f i) + d"
proof -
  have "(\<Sum>i<n. g i) = g j + (\<Sum>i\<in>{..<n} - {j}. g i)" using assms(1) by (intro sum.remove) auto
  also have "(\<Sum>i\<in>{..<n} - {j}. g i) = (\<Sum>i\<in>{..<n} - {j}. f i)" using assms(3) by (intro sum.cong) auto
  also have "g j + \<dots> = (f j + \<dots>) + d" using assms(2) by (simp add: ac_simps)
  also have "f j + (\<Sum>i\<in>{..<n} - {j}. f i) = (\<Sum>i<n. f i)"
    using assms(1) by (intro sum.remove [symmetric]) auto
  finally show ?thesis .
qed

lemma stats_inv_step:
  assumes "sym_ok V" "stats_inv V kind n c0 ts c" "sstep V kind n c c'"
  shows "\<exists>ts'. stats_inv V kind n c0 ts' c'"
  using assms(3)
proof cases
  case (exec j k r)
  let ?C = "code_of (kind j)" and ?r0 = "snd (thr c0 j)"
  define ts' where "ts' = ts(j := if k = 2 then clk c else ts j)"
  have k: "k < 14" using exec(4) by (simp add: code_of_stats)
  have rj: "r = regs_after V ?C (ts j) ?r0 k" and tj: "2 < k \<longrightarrow> clk c0 \<le> ts j \<and> ts j \<le> clk c"
    and mono: "clk c0 \<le> clk c"
    using assms(2) exec(2,3) by (auto simp: stats_inv_def)
  have r: "r = regs_after V ?C (ts' j) ?r0 k"
    using rj regs_before_stamp [of k V _ _ "ts j" ?r0 "ts' j"] by (auto simp: ts'_def code_of_stats)
  have step: "reg_step V (clk c) (?C ! k) r = regs_after V ?C (ts' j) ?r0 (Suc k)"
  proof (cases "k = 2")
    case True
    then have "clk c = ts' j" by (simp add: ts'_def)
    then show ?thesis using regs_after_Suc [OF exec(4)] by (simp only: r)
  next
    case False
    then have "?C ! k \<noteq> Rdtscp" using k by (simp add: code_of_stats stats_code_rdtscp)
    from reg_step_time [OF this] show ?thesis using exec(4) by (simp add: regs_after_Suc r)
  qed
  have mem: "read64 (cells c') (sym V z) =
      read64 (cells c) (sym V z) + delta (cell_x (kind j)) (cell_y (kind j)) (elapsed c0 ts' j) z k" for z
    using stats_code_mem [OF assms(1) code_of_stats(2) k, of "kind j" "ts' j" ?r0 "cells c" z]
    by (simp add: exec(1) r code_of_stats(1) elapsed_def)
  have sums: "(\<Sum>i<n. added (kind i) (elapsed c0 ts' i) z (fst (thr c' i))) =
      (\<Sum>i<n. added (kind i) (elapsed c0 ts i) z (fst (thr c i))) +
      delta (cell_x (kind j)) (cell_y (kind j)) (elapsed c0 ts' j) z k" for z
  proof (rule sum_step [OF exec(2)])
    show "added (kind j) (elapsed c0 ts' j) z (fst (thr c' j)) =
        added (kind j) (elapsed c0 ts j) z (fst (thr c j)) +
        delta (cell_x (kind j)) (cell_y (kind j)) (elapsed c0 ts' j) z k"
      using added_early [of 2] exec(3) by (simp add: exec(1) added_Suc elapsed_def ts'_def)
  qed (simp add: exec(1) ts'_def elapsed_def)
  have "stats_inv V kind n c0 ts' c'"
    unfolding stats_inv_def
  proof (intro conjI allI impI)
    fix i assume i: "i < n"
    then show "fst (thr c' i) \<le> 14" "snd (thr c' i) =
        regs_after V (code_of (kind i)) (ts' i) (snd (thr c0 i)) (fst (thr c' i))"
      using assms(2) k step by (auto simp: stats_inv_def exec(1) ts'_def)
    show "clk c0 \<le> ts' i" "ts' i \<le> clk c'" if "2 < fst (thr c' i)"
      using assms(2) i tj mono that by (auto simp: stats_inv_def exec(1) ts'_def)
  next
    fix z
    show "read64 (cells c') (sym V z) = read64 (cells c0) (sym V z) +
        (\<Sum>i<n. added (kind i) (elapsed c0 ts' i) z (fst (thr c' i)))"
      using assms(2) by (simp add: mem sums stats_inv_def)
  qed (simp add: exec(1) mono)
  then show ?thesis by blast
next
  case (tick t)
  then have "stats_inv V kind n c0 ts c'"
    using assms(2) by (auto simp: stats_inv_def intro: order_trans)
  then show ?thesis by blast
qed


lemma stats_inv_reach:
  assumes "(sstep V kind n)\<^sup>*\<^sup>* c0 c" "sym_ok V" "\<forall>i<n. fst (thr c0 i) = 0"
  shows "\<exists>ts. stats_inv V kind n c0 ts c"
  using assms(1)
proof (induction rule: rtranclp_induct)
  case base
  have "stats_inv V kind n c0 ts c0" for ts using assms(3) by (simp add: stats_inv_def)
  then show ?case ..
next
  case (step c c')
  then show ?case using stats_inv_step [OF assms(2)] by blast
qed

text \<open>No thread waits for another: from every configuration each can run to its end.\<close>

lemma thread_completes:
  assumes "j < n" "fst (thr c j) \<le> 14"
  shows "\<exists>c'. (sstep V kind n)\<^sup>*\<^sup>* c c' \<and> fst (thr c' j) = 14 \<and> (\<forall>i. i \<noteq> j \<longrightarrow> thr c' i = thr c i)"
  using assms(2)
proof (induction "14 - fst (thr c j)" arbitrary: c)
  case (Suc m)
  obtain k r where kr: "thr c j = (k, r)" by fastforce
  have k: "k < length (code_of (kind j))" using Suc.hyps(2) kr by (simp add: code_of_stats)
  let ?c = "c\<lparr>thr := (thr c)(j := (Suc k, reg_step V (clk c) (code_of (kind j) ! k) r)),
      cells := mem_step (code_of (kind j) ! k) r (cells c)\<rparr>"
  have len: "m = 14 - fst (thr ?c j)" using Suc.hyps(2) kr by simp
  have s: "sstep V kind n c ?c" using assms(1) kr k by (rule sstep.exec)
  obtain c' where "(sstep V kind n)\<^sup>*\<^sup>* ?c c'" "fst (thr c' j) = 14" "\<forall>i. i \<noteq> j \<longrightarrow> thr c' i = thr ?c i"
    using Suc.hyps(1) [of ?c] len k by (auto simp: code_of_stats)
  then show ?case using converse_rtranclp_into_rtranclp [of "sstep V kind n", OF s] by (auto intro!: exI [of _ c'])
qed auto

lemma threads_complete:
  assumes "\<forall>i<n. fst (thr c i) \<le> 14"
  shows "\<exists>c'. (sstep V kind n)\<^sup>*\<^sup>* c c' \<and> (\<forall>i<n. fst (thr c' i) = 14)"
proof -
  have "\<exists>c'. (sstep V kind n)\<^sup>*\<^sup>* c c' \<and> (\<forall>i<j. fst (thr c' i) = 14) \<and> (\<forall>i\<ge>j. thr c' i = thr c i)"
    if "j \<le> n" for j
    using that
  proof (induction j)
    case (Suc j)
    then obtain c1 where c1: "(sstep V kind n)\<^sup>*\<^sup>* c c1" "\<forall>i<j. fst (thr c1 i) = 14" "\<forall>i\<ge>j. thr c1 i = thr c i"
      by auto
    obtain c2 where "(sstep V kind n)\<^sup>*\<^sup>* c1 c2" "fst (thr c2 j) = 14" "\<forall>i. i \<noteq> j \<longrightarrow> thr c2 i = thr c1 i"
      using thread_completes [of j n c1 V kind] assms c1(3) Suc.prems by auto
    then show ?case using c1 by (intro exI [of _ c2]) (auto simp: less_Suc_eq intro: rtranclp_trans)
  qed auto
  from this [of n] show ?thesis by auto
qed

text \<open>C15: however the instructions of any number of threads that leave and enter the enclave
  interleave, once all are done the two counts have grown by the numbers of the threads on each
  side and the two sums by the cycles between the time stamp each thread brought and its own
  reading of the clock; RAX and RCX are what they were.\<close>

theorem transitions_counted:
  assumes "sym_ok V" "\<forall>i<n. fst (thr c i) = 0" "(sstep V kind n)\<^sup>*\<^sup>* c c'" "\<forall>i<n. fst (thr c' i) = 14"
  shows "\<exists>ts. (\<forall>i<n. clk c \<le> ts i \<and> ts i \<le> clk c' \<and>
      snd (thr c' i) = (snd (thr c i))(R10 := snd (thr c i) RAX, R11 := snd (thr c i) RCX,
        RDX := ts i - stamp_of (snd (thr c i)), R9 := stamp_of (snd (thr c i)))) \<and>
    (\<forall>b. read64 (cells c') (sym V (cell_x b)) =
        read64 (cells c) (sym V (cell_x b)) + of_nat (card {i\<in>{..<n}. kind i = b}) \<and>
      read64 (cells c') (sym V (cell_y b)) =
        read64 (cells c) (sym V (cell_y b)) +
          (\<Sum>i\<in>{i\<in>{..<n}. kind i = b}. ts i - stamp_of (snd (thr c i))))"
proof -
  obtain ts where ts: "stats_inv V kind n c ts c'" using stats_inv_reach [OF assms(3,1,2)] by blast
  have regs: "clk c \<le> ts i \<and> ts i \<le> clk c' \<and>
      snd (thr c' i) = (snd (thr c i))(R10 := snd (thr c i) RAX, R11 := snd (thr c i) RCX,
        RDX := ts i - stamp_of (snd (thr c i)), R9 := stamp_of (snd (thr c i)))" if "i < n" for i
    using ts assms(4) that by (auto simp: stats_inv_def code_of_stats regs_at_end)
  have cell: "read64 (cells c') (sym V z) = read64 (cells c) (sym V z) +
      (\<Sum>i<n. if z = cell_x (kind i) then 1 else if z = cell_y (kind i) then elapsed c ts i else 0)" for z
    using ts assms(4) by (simp add: stats_inv_def added_end)
  have x: "(if cell_x b = cell_x (kind i) then 1 else if cell_x b = cell_y (kind i) then d else 0) =
      (if kind i = b then 1 else (0 :: u64))" for i b d by (simp add: cell_x_def cell_y_def)
  have y: "(if cell_y b = cell_x (kind i) then 1 else if cell_y b = cell_y (kind i) then d else 0) =
      (if kind i = b then d else (0 :: u64))" for i b d by (simp add: cell_x_def cell_y_def)
  show ?thesis
    using regs by (intro exI [of _ ts]) (simp add: cell x y elapsed_def sum.inter_filter [symmetric])
qed

definition demo_stat_env :: stat_env where
  "demo_stat_env = \<lparr>sym = (\<lambda>z. case z of G_eexit_count \<Rightarrow> 0x1000 | G_eexit_cycles \<Rightarrow> 0x1008
      | G_eenter_count \<Rightarrow> 0x2000 | G_eenter_cycles \<Rightarrow> 0x2008),
     var_count = 0x7FF0, var_cycles = 0x7FF8, tsc_aux = 3\<rparr>"

lemma demo_sym: "sym_ok demo_stat_env"
proof -
  have "inj (sym demo_stat_env)"
  proof (rule injI)
    fix x y assume "sym demo_stat_env x = sym demo_stat_env y"
    then show "x = y" by (cases x; cases y; simp add: demo_stat_env_def)
  qed
  moreover have a: "aligned8 (sym demo_stat_env x)" "sym demo_stat_env x \<notin> {0x7FF0, 0x7FF8}" for x
    by (cases x; simp add: demo_stat_env_def aligned8_def)+
  have "{0x7FF0, 0x7FF8} \<inter> range (sym demo_stat_env) = {}" using a(2) by auto
  moreover have "var_count demo_stat_env = 0x7FF0" "var_cycles demo_stat_env = 0x7FF8"
    "aligned8 0x7FF0" "aligned8 0x7FF8"
    by (simp_all add: demo_stat_env_def aligned8_def)
  ultimately show ?thesis using a(1) by (simp add: sym_ok_def)
qed

definition demo_stat_machine :: stat_machine where
  "demo_stat_machine = \<lparr>thr = \<lambda>i. (0, \<lambda>_. 0), cells = \<lambda>_. 0, clk = 77\<rparr>"

theorem transitions_counted_witness:
  "\<exists>c'. (sstep demo_stat_env (\<lambda>i. i \<noteq> 1) 3)\<^sup>*\<^sup>* demo_stat_machine c' \<and>
     read64 (cells c') 0x1000 = 2 \<and> read64 (cells c') 0x2000 = 1 \<and>
     77 \<le> read64 (cells c') 0x2008"
proof -
  let ?c = "demo_stat_machine"
  have z: "\<forall>i<3. fst (thr ?c i) = 0" by (simp add: demo_stat_machine_def)
  then obtain c' where c': "(sstep demo_stat_env (\<lambda>i. i \<noteq> 1) 3)\<^sup>*\<^sup>* ?c c'" "\<forall>i<3. fst (thr c' i) = 14"
    using threads_complete [of 3 ?c demo_stat_env "\<lambda>i. i \<noteq> 1"] by auto
  obtain ts where ts: "\<forall>i<3. clk ?c \<le> ts i"
    "\<forall>b. read64 (cells c') (sym demo_stat_env (cell_x b)) =
        read64 (cells ?c) (sym demo_stat_env (cell_x b)) + of_nat (card {i\<in>{..<3 :: nat}. (i \<noteq> 1) = b}) \<and>
      read64 (cells c') (sym demo_stat_env (cell_y b)) =
        read64 (cells ?c) (sym demo_stat_env (cell_y b)) +
          (\<Sum>i\<in>{i\<in>{..<3}. (i \<noteq> 1) = b}. ts i - stamp_of (snd (thr ?c i)))"
    by (rule exE [OF transitions_counted [OF demo_sym z c']], elim conjE, rule that [rotated], assumption, blast)
  have sets: "{i\<in>{..<3}. (i \<noteq> (1 :: nat)) = True} = {0, 2}" "{i\<in>{..<3}. (i \<noteq> (1 :: nat)) = False} = {1}"
    by auto
  have demo: "sym demo_stat_env (cell_x True) = 0x1000" "sym demo_stat_env (cell_x False) = 0x2000"
    "sym demo_stat_env (cell_y False) = 0x2008" "cells ?c = (\<lambda>_. 0)" "stamp_of (snd (thr ?c i)) = 0"
    "clk ?c = 77" for i
    by (simp_all add: demo_stat_env_def demo_stat_machine_def cell_x_def cell_y_def stamp_of_def)
  have "read64 (cells c') 0x1000 = 2"
    using spec [OF ts(2), of True] unfolding sets demo by simp
  moreover have "read64 (cells c') 0x2000 = 1" "read64 (cells c') 0x2008 = ts 1"
    using spec [OF ts(2), of False] unfolding sets demo by simp_all
  moreover have "77 \<le> ts 1" using ts(1) by (simp add: demo)
  ultimately show ?thesis using c'(1) by auto
qed

end
