(* ===== verification/EdgeStats.thy ===== *)
theory EdgeStats
  imports TransitionStats EdgeRun
begin

text \<open>
  The edge-call benchmark on the patched SDK (\<open>EENTER_EEXIT_STATS\<close>): every way into and out of
  the enclave runs the inserted code around the SDK's own, and the report at the end reads
  the counters.

  Parameters: what the processor and the SDK do between the two pieces of inserted code.  They
  have no access to the counters, and R8 and R9, in which the time stamp travels, are not
  changed by \<open>EENTER\<close> and \<open>EEXIT\<close>.
\<close>

section \<open>The patched SDK\<close>

typedef linkage = "{V :: stat_env. sym_ok V}" morphisms stat_env_of Linkage
  using demo_sym by blast

record 'w stat_cpu =
  cregs :: regs
  cmem :: memory
  cclk :: u64
  rest :: 'w

record 'w sdk_hw =
  enter_hw :: "regs \<Rightarrow> u64 \<Rightarrow> 'w \<Rightarrow> regs \<times> u64 \<times> 'w"
  exit_hw :: "regs \<Rightarrow> u64 \<Rightarrow> 'w \<Rightarrow> regs \<times> u64 \<times> 'w"
  clock_hw :: "u64 \<Rightarrow> 'w \<Rightarrow> u64 \<times> 'w"
  init_ecalls :: nat
  sdk :: "'w platform"

definition run_code :: "linkage \<Rightarrow> stat_instr list \<Rightarrow> 'w stat_cpu \<Rightarrow> 'w stat_cpu" where
  "run_code L is w =
     (let (r, m) = stat_run (stat_env_of L) (cclk w) is (cregs w, cmem w) in w\<lparr>cregs := r, cmem := m\<rparr>)"

definition transition ::
  "linkage \<Rightarrow> (regs \<Rightarrow> u64 \<Rightarrow> 'w \<Rightarrow> regs \<times> u64 \<times> 'w) \<Rightarrow> stat_instr list \<Rightarrow> 'w stat_cpu \<Rightarrow> 'w stat_cpu" where
  "transition L hw_step code w =
     (let w1 = run_code L stamp_code w;
          (r, t, x) = hw_step (cregs w1) (cclk w1) (rest w1)
      in run_code L code (w1\<lparr>cregs := r(R8 := cregs w1 R8, R9 := cregs w1 R9), cclk := t, rest := x\<rparr>))"

definition lift_rest :: "('w \<Rightarrow> 'w) \<Rightarrow> 'w stat_cpu \<Rightarrow> 'w stat_cpu" where
  "lift_rest f w = w\<lparr>rest := f (rest w)\<rparr>"

definition cell :: "linkage \<Rightarrow> stat_symbol \<Rightarrow> 'w stat_cpu \<Rightarrow> u64" where
  "cell L x w = read64 (cmem w) (sym (stat_env_of L) x)"

definition call_eexit_stats :: "linkage \<Rightarrow> 'w stat_cpu \<Rightarrow> int \<times> int" where
  "call_eexit_stats L w =
     (let V = stat_env_of L; (st, m) = sgx_get_eexit_stats V (var_count V) (var_cycles V) (cmem w)
      in (sint (read64 m (var_count V)), sint (read64 m (var_cycles V))))"

text \<open>An ecall of the SDK's own: \<open>sgx_create_enclave\<close> makes \<open>init_ecalls\<close> of them.\<close>

definition init_ecall :: "linkage \<Rightarrow> 'w sdk_hw \<Rightarrow> 'w stat_cpu \<Rightarrow> 'w stat_cpu" where
  "init_ecall L H w = transition L (exit_hw H) eexit_stats_code (transition L (enter_hw H) eenter_stats_code w)"

definition instrumented :: "linkage \<Rightarrow> 'w sdk_hw \<Rightarrow> 'w stat_cpu platform" where
  "instrumented L H =
     \<lparr>tsc_op = \<lambda>w. let (t, x) = clock_hw H (cclk w) (rest w)
         in (ucast (cclk w), ucast (drop_bit 32 (cclk w)), w\<lparr>cclk := t, rest := x\<rparr>),
      syscall_op = \<lambda>n. lift_rest (syscall_op (sdk H) n), vmmcall_op = \<lambda>n. lift_rest (vmmcall_op (sdk H) n),
      eenter = transition L (enter_hw H) eenter_stats_code,
      eexit = transition L (exit_hw H) eexit_stats_code,
      create_enclave = \<lambda>w. let (st, x) = create_enclave (sdk H) (rest w)
         in (st, (init_ecall L H ^^ init_ecalls H) (w\<lparr>rest := x\<rparr>)),
      destroy_enclave = lift_rest (destroy_enclave (sdk H)),
      ecall_status = \<lambda>w. ecall_status (sdk H) (rest w),
      eenter_stats = \<lambda>w. (sint (cell L G_eenter_count w), sint (cell L G_eenter_cycles w)),
      eexit_stats = call_eexit_stats L,
      fopen_ok = fopen_ok (sdk H), chdir_ok = chdir_ok (sdk H), time_now = \<lambda>w. time_now (sdk H) (rest w),
      clib = clib (sdk H), bufsiz = bufsiz (sdk H)\<rparr>"

section \<open>The counters of the platform\<close>

lemma linkage_ok: "sym_ok (stat_env_of L)"
  using stat_env_of [of L] by simp

lemma stat_run_stats:
  assumes "sym_ok V" "x \<noteq> y"
  shows "read64 (snd (stat_run V t (stats_code x y) (r, m))) (sym V z) =
    read64 m (sym V z) + (if z = x then 1 else if z = y then t - stamp_of r else 0)"
  using byte_mem.rd_wr_same byte_mem.rd_wr_disj sym_disj [OF assms(1)] assms(2)
  by (auto simp: stats_code_def stamp_of_def tsc_halves add.commute)

lemma run_code_fields:
  "cmem (run_code L is w) = snd (stat_run (stat_env_of L) (cclk w) is (cregs w, cmem w))"
  "cregs (run_code L is w) = fst (stat_run (stat_env_of L) (cclk w) is (cregs w, cmem w))"
  "cclk (run_code L is w) = cclk w" "rest (run_code L is w) = rest w"
  by (simp_all add: run_code_def case_prod_unfold Let_def)

text \<open>A transition adds one to its count and its duration to its sum.\<close>

lemma transition_cells:
  "cell L z (transition L f (code_of b) w) = cell L z w +
    (if z = cell_x b then 1 else if z = cell_y b
     then cclk (transition L f (code_of b) w) - cclk w else 0)"
proof -
  let ?V = "stat_env_of L" and ?w1 = "run_code L stamp_code w"
  obtain r t x where h: "f (cregs ?w1) (cclk ?w1) (rest ?w1) = (r, t, x)" by (metis prod_cases3)
  let ?r = "r(R8 := cregs ?w1 R8, R9 := cregs ?w1 R9)"
  have w1: "cmem ?w1 = cmem w" "cclk ?w1 = cclk w" "stamp_of ?r = cclk w"
    using stamp_code_run(2) [of ?V "cclk w" "cregs w" "cmem w"]
    by (simp_all add: run_code_fields stamp_code_run(1) stamp_of_def tsc_halves)
  have "transition L f (code_of b) w = run_code L (code_of b) (?w1\<lparr>cregs := ?r, cclk := t, rest := x\<rparr>)"
    by (simp only: transition_def Let_def h prod.case)
  then have c: "cmem (transition L f (code_of b) w) = snd (stat_run ?V t (code_of b) (?r, cmem w))"
    "cclk (transition L f (code_of b) w) = t"
    by (simp_all add: run_code_fields stamp_code_run(1))
  show ?thesis
    using stat_run_stats [of ?V "cell_x b" "cell_y b" t ?r "cmem w" z, OF linkage_ok code_of_stats(2)]
    by (simp add: cell_def c code_of_stats(1) [symmetric] w1(3))
qed


lemma transition_counts:
  "cell L G_eenter_count (transition L f eenter_stats_code w) = cell L G_eenter_count w + 1"
  "cell L G_eexit_count (transition L f eenter_stats_code w) = cell L G_eexit_count w"
  "cell L G_eexit_count (transition L f eexit_stats_code w) = cell L G_eexit_count w + 1"
  "cell L G_eenter_count (transition L f eexit_stats_code w) = cell L G_eenter_count w"
  using transition_cells [of L _ f False w] transition_cells [of L _ f True w]
  by (simp_all add: code_of_def cell_x_def cell_y_def)

lemma cell_rest [simp]:
  "cell L z (w\<lparr>cclk := t, rest := x\<rparr>) = cell L z w" "cell L z (w\<lparr>rest := x\<rparr>) = cell L z w"
  "cell L z (w\<lparr>cclk := t\<rparr>) = cell L z w"
  "cell L z (lift_rest g w) = cell L z w"
  by (simp_all add: cell_def lift_rest_def)

lemma call_eexit_stats_cells:
  "call_eexit_stats L w = (sint (cell L G_eexit_count w), sint (cell L G_eexit_cycles w))"
proof -
  let ?V = "stat_env_of L" and ?p = "var_count (stat_env_of L)" and ?q = "var_cycles (stat_env_of L)"
  have "aligned8 ?p" "aligned8 ?q" "?p \<noteq> ?q" "?p \<noteq> 0" "?q \<noteq> 0" "?p \<noteq> sym ?V x" "aligned8 (sym ?V x)" for x
    using linkage_ok [of L] by (auto simp: sym_ok_def)
  then have "disj8 ?p (sym ?V x)" "disj8 ?q ?p" "?p \<noteq> 0" "?q \<noteq> 0" for x
    by (auto intro: disj8_aligned)
  then show ?thesis
    by (simp add: call_eexit_stats_def Let_def sgx_get_eexit_stats_def cell_def byte_mem.rd_wr_same
      byte_mem.rd_wr_disj)
qed

lemma init_ecall_counts:
  "adds (cell L G_eenter_count) (cell L G_eexit_count) (init_ecall L H ^^ n) n n"
proof -
  have "adds (cell L G_eenter_count) (cell L G_eexit_count) (init_ecall L H) 1 1"
    by (simp add: adds_def init_ecall_def transition_counts)
  from adds_funpow [OF this, of n] show ?thesis by simp
qed

interpretation patched: transition_counter "instrumented L H" "cell L G_eenter_count" "cell L G_eexit_count"
    "init_ecalls H" for L H
  by unfold_locales
    (simp_all add: adds_def instrumented_def transition_counts addsD [OF init_ecall_counts] case_prod_unfold
      Let_def call_eexit_stats_cells)

section \<open>The report\<close>


text \<open>A machine with 25 cycles per reading of the clock and 100 per transition, and one ecall to
  initialise the enclave: the counts are those the README shows.\<close>

definition demo_sdk_hw :: "u64 sdk_hw" where
  "demo_sdk_hw = \<lparr>enter_hw = \<lambda>r t x. (r, t + 100, x), exit_hw = \<lambda>r t x. (r, t + 100, x),
     clock_hw = \<lambda>t x. (t + 25, x), init_ecalls = 1, sdk = demo_platform SGX_SUCCESS\<rparr>"

definition demo_stat_state :: "u64 stat_cpu edge_state" where
  "demo_stat_state = \<lparr>hw = \<lparr>cregs = \<lambda>_. 0, cmem = \<lambda>_. 0, cclk = 0, rest = 0\<rparr>,
     app_cycles = replicate 2000000 0, encl_cycles = replicate 2000000 0, elog = []\<rparr>"

lemma demo_patched_clock:
  "edge_rdtscp (instrumented L demo_sdk_hw) w = (cclk w, w\<lparr>cclk := cclk w + 25\<rparr>)"
  "cclk (eenter (instrumented L demo_sdk_hw) w) = cclk w + 100"
  "cclk (eexit (instrumented L demo_sdk_hw) w) = cclk w + 100"
proof -
  have "push_bit 32 (ucast (ucast (drop_bit 32 t) :: u32)) OR ucast (ucast t :: u32) = t" for t :: u64
    by (rule bit_word_eqI) (auto simp: bit_simps not_less)
  then show "edge_rdtscp (instrumented L demo_sdk_hw) w = (cclk w, w\<lparr>cclk := cclk w + 25\<rparr>)"
    by (simp add: edge_rdtscp_def instrumented_def demo_sdk_hw_def)
qed (simp_all add: instrumented_def transition_def demo_sdk_hw_def run_code_fields)

lemma demo_patched_ok: "edge_ok True (instrumented L demo_sdk_hw) demo_stat_state 25 25 225"
  by (simp add: edge_ok_def latency_in_def bench_rdtscp_def bench_ecall_empty_def bench_enclave_rdtscp_def
    bench_ocall_empty_def enclave_rdtscp_def edge_ocall_empty_def ecall_empty_def demo_patched_clock)
    (simp add: instrumented_def demo_sdk_hw_def demo_platform_def demo_stat_state_def)


end
