(* ===== verification/TestHypercall.thy ===== *)
theory TestHypercall
  imports Prelude
begin

text \<open>
  \<open>host/test_hypercall.c\<close>: the probe that tells whether it runs above the hypervisor.

  The processor's \<open>vmmcall\<close> is a parameter: it takes the number in EAX and completes with a
  value in RAX, or raises a signal.  A signal goes to the handler installed for it, or
  kills the process.
\<close>

datatype vmmcall_result = Rax u64 | Signal int

datatype process_end = Exit int | Killed int

definition SIGILL :: int where "SIGILL = 4"
definition SIGSEGV :: int where "SIGSEGV = 11"

definition in_guest :: "process_end \<times> event list" where
  "in_guest = (Exit 0, [Print (''Execute VMMCALL OK.'' @ nl) [], Print (''You are in the Guest mode.'' @ nl) []])"

definition in_host :: "process_end \<times> event list" where
  "in_host = (Exit 1, [Print (''Execute VMMCALL failed.'' @ nl) [], Print (''You are in the Host mode.'' @ nl) []])"

definition sig_handler :: "int \<Rightarrow> process_end \<times> event list" where
  "sig_handler signum = map_prod id ((#) (Print (''Caught signal %d'' @ nl) [AInt signum])) in_host"

text \<open>\<open>main\<close>: the \<open>long\<close> result is stored in an \<open>int\<close>.\<close>

definition hypercall_main :: "(u32 \<Rightarrow> vmmcall_result) \<Rightarrow> process_end \<times> event list" where
  "hypercall_main vmm =
     (let handlers = [SIGSEGV \<mapsto> sig_handler, SIGILL \<mapsto> sig_handler]
      in case vmm 2333 of
           Signal n \<Rightarrow> (case handlers n of None \<Rightarrow> (Killed n, []) | Some h \<Rightarrow> h n)
         | Rax r \<Rightarrow> let ret = sint (ucast r :: u32) in if ret = 2333 then in_guest else in_host)"

lemma low_word_eq: "sint (ucast r :: u32) = 2333 \<longleftrightarrow> take_bit 32 r = 2333" for r :: u64
proof -
  have "sint (ucast r :: u32) = 2333 \<longleftrightarrow> (ucast r :: u32) = 2333"
    using signed_word_eqI [of "ucast r :: u32" 2333] by auto
  also have "\<dots> \<longleftrightarrow> uint (ucast r :: u32) = uint (2333 :: u32)" by (simp only: uint_word_ariths word_uint_eq_iff)
  also have "\<dots> \<longleftrightarrow> uint (take_bit 32 r) = uint (2333 :: u64)"
    by (simp add: unsigned_ucast_eq unsigned_take_bit_eq)
  also have "\<dots> \<longleftrightarrow> take_bit 32 r = 2333" by (simp only: word_uint_eq_iff)
  finally show ?thesis .
qed

text \<open>The probe always gives a verdict unless a signal other than SIGILL and SIGSEGV kills
  it: guest mode with exit status 0 exactly when \<open>vmmcall\<close> completes with 2333 in the low 32
  bits of RAX, whatever the upper half holds, and host mode with status 1 otherwise.\<close>

theorem hypercall_verdict:
  "case hypercall_main vmm of (e, ev) \<Rightarrow>
     (e = Exit 0 \<longleftrightarrow> (\<exists>r. vmm 2333 = Rax r \<and> take_bit 32 r = 2333)) \<and>
     (e = Exit 0 \<longleftrightarrow> ev = snd in_guest) \<and> (e = Exit 1 \<longleftrightarrow> (\<exists>us. ev = us @ snd in_host)) \<and>
     (\<forall>n. e = Killed n \<longleftrightarrow> vmm 2333 = Signal n \<and> n \<noteq> SIGILL \<and> n \<noteq> SIGSEGV)"
  by (cases "vmm 2333")
    (auto simp: hypercall_main_def in_guest_def in_host_def sig_handler_def low_word_eq
      SIGILL_def SIGSEGV_def Let_def append_eq_Cons_conv Cons_eq_append_conv)

end
