(* ===== verification/Spec2Isabelle.thy ===== *)
theory Spec2Isabelle
  imports Systems Machine Interleaving Formats Reports EdgeStats TestHypercall
begin

text \<open>
  A verification library for the program code of the HyperEnclave ATC'22 artifact: the
  benchmarks under \<open>server/exception\<close> and \<open>server/edge-calls\<close>, the counters that
  \<open>server/linux-sgx/eenter-eexit-stats.patch\<close> adds to the SDK for them, and the probe
  \<open>host/test_hypercall.c\<close>.

  The program.  The exception benchmark exists for three kinds of enclave.  Its App
  (\<open>App/App.cpp\<close>) parses a count, creates the enclave and makes one ecall,
  \<open>ecall_exception\<close>.  In a P-Enclave that function runs at ring 0 of a guest: it writes its
  own interrupt descriptor table (\<open>signal.h\<close>), whose gates lead to the stubs of
  \<open>exception.S\<close>; these save the registers as a frame and call the registered C++ handler
  (\<open>Enclave.cpp\<close>), which changes the enclave's own page tables (\<open>paging.h\<close>) to serve a page
  fault and skips a \<open>ud2\<close>.  The GU-Enclave and the SGX enclave register their handler with the
  SDK instead, and the GU-Enclave changes protections by a hypercall (\<open>mm.h\<close>).  The edge-call
  benchmark measures clock readings, system calls, hypercalls, ecalls and ocalls in batches
  and writes statistics to files; on the patched SDK it also reports the number and the
  average time of the transitions into and out of the enclave.

  Theories, in the order of the code:
  \<^item> \<open>Prelude\<close>, \<open>Dbl\<close>: words, results, runs, status codes, output events, byte memory;
    binary64 arithmetic as rounding on the reals.
  \<^item> \<open>Printf\<close>: the typing rule and the text of \<open>printf\<close> for the conversions the program uses.
  \<^item> \<open>TrapEntry\<close>: \<open>exception.S\<close> and \<open>trapframe_t\<close>.  The instructions used are a datatype with
    an executor; \<open>common_exception_entry\<close> and \<open>entry_stub\<close> are the source's lists of them.
  \<^item> \<open>Signal\<close>: \<open>gatedesc\<close>, \<open>SETGATE\<close>, \<open>lidt\<close>, \<open>init_exception\<close>, handler registration and
    \<open>common_exception_handler\<close>, against the processor's decoding of a gate.
  \<^item> \<open>Paging\<close>, \<open>Mprotect\<close>, \<open>PageDump\<close>: the macros, control registers, \<open>get_entry\<close>,
    \<open>mprotect_page\<close>, \<open>mprotect\<close> and the dump of \<open>paging.h\<close>, against the processor's walk and TLB.
  \<^item> \<open>Exceptions\<close>: executing an instruction again until it stops faulting, and the loops of
    stores and \<open>ud2\<close>s over it, with the contracts of a fault handler as locales.
  \<^item> \<open>PEnclave\<close>, \<open>PEnclaveRun\<close>: the P-Enclave's \<open>Enclave.cpp\<close> and its runs.
  \<^item> \<open>Interleaving\<close>: the P-Enclave as a step relation on stores, faults, protections, \<open>ud2\<close>s
    and interrupts in any order, and its specification.
  \<^item> \<open>SdkEnclaves\<close>: \<open>Enclave.cpp\<close> of the GU-Enclave and the SGX enclave, and \<open>mm.h\<close>.
  \<^item> \<open>Transcripts\<close>: the lines these enclaves print, as the text \<open>vsnprintf\<close> makes of them in the
    buffer of \<open>printf_ocall\<close>.
  \<^item> \<open>Machine\<close>: the same run on the processor, every exception through the gates in memory and the
    instructions of \<open>exception.S\<close>, with the compiled code between the accesses as a parameter.
  \<^item> \<open>PEnclaveMemory\<close>: what the P-Enclave's run does to memory, byte by byte.
  \<^item> \<open>ErrList\<close>, \<open>App\<close>: \<open>print_error_message\<close>, \<open>main\<close> and the clock arithmetic of the Apps, with
    a table and an instance of each function for each of the \<open>App.cpp\<close> files; \<open>errlists_agree\<close>
    and \<open>apps_agree\<close> show that the copies are equal.
  \<^item> \<open>Systems\<close>: each App linked with its enclave, down to the text on the terminal.
  \<^item> \<open>Bench\<close>, \<open>EdgeCalls\<close>, \<open>EdgeRun\<close>: \<open>bench.h\<close>, \<open>common.h\<close> and the App, the enclave and the
    native program of the edge-call benchmark, and complete runs of it.
  \<^item> \<open>TransitionStats\<close>, \<open>EdgeStats\<close>: the instructions that the patch inserts around \<open>ENCLU\<close>, run
    alone and by any number of threads, and the edge-call benchmark on the patched SDK.
  \<^item> \<open>Formats\<close>: the typing of every output call.  \<open>Reports\<close>: the elapsed time, the totals and
    averages of the timed loops, the name of the result directory and the rows of \<open>stats.csv\<close> as text.  \<open>TestHypercall\<close>: the probe.

  State and errors.  The P-Enclave's state is a record of physical memory, control
  registers, TLB, table registers, globals and output; an instruction or handler is a
  function on it.  \<open>res\<close> tells a return from an \<open>abort()\<close> in the paging code.  A run is
  \<open>None\<close> if it never comes back (or leaves defined behaviour, where the theory says so),
  \<open>Inl\<close> the state of an \<open>abort\<close> or \<open>exit\<close>, and \<open>Inr\<close> a result.  Machine integers are words
  of their width; doubles are reals rounded after every operation, with infinities and NaN
  where the code can reach them.

  What the lemmas show.  The assembly path refines a record-passing call of the handler,
  restores every register and touches only its stack region; the gates written decode to
  the stubs; the whole benchmark run through that path refines the one with record-passing
  calls; the walk and \<open>mprotect\<close> agree with the processor, TLB included; the handler's
  accounting; after a run the enclave reads its buffer as it was but for the bytes stored, and its
  pages are mapped as before; any interleaving of faults, protections and interrupts runs as a
  specification of five fields says, and every store goes through after at most one fault; page
  faults and \<open>ud2\<close>s resume or, in the cases found, abort or repeat for ever; \<open>mprotect\<close> is its
  page function on each page of the range in order, and where it is without effect is
  characterised; the runs of the three
  enclaves, of the linked programs and of the edge-call and native benchmarks end with the
  counts, files, statuses and terminal text the code promises (for the SGX enclave the
  transcript of \<open>exception/README.md\<close>, whose line with the elapsed time is missing there);
  statistics are ordered, independent of the sample order and exact where the sums are; the
  dump lists exactly the entries of the walk; output is well-typed but for one report, and no
  line of a successful run is cut off.  The inserted instructions count every transition of
  every thread, whatever the interleaving, and the counts of a complete run are those the
  calls of the benchmark add up to.

  Loops and bounds.  There is no fuel: loops that may not end (\<open>mprotect_loop\<close>, the retry of
  a faulting instruction) are partial functions with proofs that they return or that they
  do not; the others have termination proofs.  The P-Enclave's buffer is a parameter, a
  multiple of the page size; the code's is \<open>BUF_SIZE\<close>.  The statistics assume sums below
  \<open>2 ^ 51\<close> or \<open>2 ^ 52\<close> so that 53-bit sums are exact; a million samples below \<open>2 ^ 31\<close> cycles
  satisfy this.

  Parameters: the processor's delivery of exceptions is written out; the clock, the monitor's
  hypercalls, the SDK (enclave creation, ecalls, registration, its own code around
  \<open>ENCLU\<close>), the file system's answers and the constants of the C library (\<open>BUFSIZ\<close>, the numbers
  of the status codes and the text of a NaN in \<open>libc\<close>) are arguments or fields of an
  environment.  The addresses of the counters of the patched SDK are a type of their own
  (\<open>linkage\<close>), which holds that a linker places them apart.

  The edge-call and native benchmarks subtract an overhead from a median and convert the result to
  an unsigned integer; whether a run is defined is decided by its samples, so the theorems on
  complete runs (\<open>EdgeCalls\<close>, \<open>EdgeRun\<close>) say exactly when it is, for samples up to \<open>2 ^ 30\<close>
  cycles, with the files and the SDK's calls succeeding.

  Not modelled of the processor: the bits Accessed and Dirty it sets in page-table entries (claims
  about entries after stores are made up to these bits), and the checks of \<open>iretq\<close> on the
  selectors and the instruction pointer (the handler returns the selectors the processor
  pushed).  The memory behind the page tables, the descriptor table, the enclave's globals and
  its stack are separate components, which the linker and the monitor keep apart; in \<open>Machine\<close>
  stack and descriptor table share one memory and their distance is a hypothesis.

  Not modelled: third-party code, which the repository holds only as patches, and the patches
  that change single instructions, macros or build files of it (the others of \<open>linux-sgx\<close>,
  those of \<open>nbench\<close> and \<open>lighttpd\<close>); headers with prototypes only; the Makefiles, shell scripts
  and Python plots.  Of \<open>printf\<close>, conversions the program does not use are outside the model.
  Interrupts that arrive inside the handler are not modelled: the gates clear the interrupt
  flag.
\<close>

end
